(* ===== verification/Pool_Prelude.thy ===== *)
theory Pool_Prelude
  imports Complex_Main "HOL-Library.Word" "HOL-Library.Multiset"
begin

text \<open>
  Shared vocabulary of the development: Go's fixed-width integers, byte slices and strings,
  the result of a call that may panic, runs of a state machine, and the lemmas on lists,
  options and words that the component theories use.

  A Go \<^verbatim>\<open>string\<close> is a sequence of bytes; HOL's \<open>char\<close> is an 8-bit value, so a string of
  the program is a HOL \<open>string\<close> and \<open>[]byte(s)\<close> is \<open>bytes_of_string s\<close>.
\<close>

unbundle bit_operations_syntax

section \<open>Machine integers, bytes and strings\<close>

type_synonym byte = "8 word"
type_synonym u16 = "16 word"
type_synonym u32 = "32 word"
type_synonym u64 = "64 word"

text \<open>Theorems every component proof may unfold or rewrite with.\<close>

named_theorems go_simps \<open>equations of the panic monad and of the state accessors\<close>
named_theorems codec_simps \<open>what a reader returns on the bytes its writer produced\<close>

definition byte_of_char :: "char \<Rightarrow> byte" where
  "byte_of_char c = of_nat (of_char c)"

definition char_of_byte :: "byte \<Rightarrow> char" where
  "char_of_byte b = char_of (unat b)"

definition bytes_of_string :: "string \<Rightarrow> byte list" where
  "bytes_of_string s = map byte_of_char s"

definition string_of_bytes :: "byte list \<Rightarrow> string" where
  "string_of_bytes bs = map char_of_byte bs"

lemma unat_byte_of_char [simp]: "unat (byte_of_char c) = of_char c"
proof -
  have "(of_char c :: nat) < 256" by simp
  then show ?thesis by (simp add: byte_of_char_def unat_of_nat)
qed

lemma char_of_byte_of_char [simp]: "char_of_byte (byte_of_char c) = c"
  by (simp add: char_of_byte_def)

lemma byte_of_char_of_byte [simp]: "byte_of_char (char_of_byte b) = b"
proof -
  have "unat b < 256" using unsigned_less [of b, where 'a = nat] by simp
  then show ?thesis by (simp add: byte_of_char_def char_of_byte_def)
qed

lemma string_of_bytes_of_string [simp]: "string_of_bytes (bytes_of_string s) = s"
  by (induction s) (auto simp: string_of_bytes_def bytes_of_string_def)

lemma bytes_of_string_of_bytes [simp]: "bytes_of_string (string_of_bytes bs) = bs"
  by (induction bs) (auto simp: string_of_bytes_def bytes_of_string_def)

lemma length_bytes_of_string [simp]: "length (bytes_of_string s) = length s"
  by (simp add: bytes_of_string_def)

lemma length_string_of_bytes [simp]: "length (string_of_bytes s) = length s"
  by (simp add: string_of_bytes_def)

section \<open>Calls that may panic\<close>

text \<open>
  A Go run-time panic unwinds the goroutine; \<open>Panic\<close> carries its reason. \<open>logger.Fatal\<close>
  ends the process and is a reason of its own.
\<close>

datatype go_panic =
    IndexOutOfRange
  | SliceBoundsOutOfRange
  | SliceToArrayLength
  | MakeSliceRange
  | NilDereference
  | Fatal string
  | Explicit string

datatype 'a go = Ret (ret_val: 'a) | Panic go_panic

fun go_bind :: "'a go \<Rightarrow> ('a \<Rightarrow> 'b go) \<Rightarrow> 'b go" where
  "go_bind (Ret x) f = f x"
| "go_bind (Panic p) f = Panic p"

fun go_map :: "('a \<Rightarrow> 'b) \<Rightarrow> 'a go \<Rightarrow> 'b go" where
  "go_map f (Ret x) = Ret (f x)"
| "go_map f (Panic p) = Panic p"

lemma go_bind_assoc [simp]: "go_bind (go_bind m f) g = go_bind m (\<lambda>x. go_bind (f x) g)"
  by (cases m) auto

lemma go_bind_Ret [simp]: "go_bind m Ret = m"
  by (cases m) auto

lemma go_map_bind: "go_map f m = go_bind m (\<lambda>x. Ret (f x))"
  by (cases m) auto

lemma go_bind_eq_Ret:
  "go_bind m f = Ret y \<longleftrightarrow> (\<exists>x. m = Ret x \<and> f x = Ret y)"
  by (cases m) auto

text \<open>Reading a slice element: out of range panics.\<close>

definition go_index :: "'a list \<Rightarrow> nat \<Rightarrow> 'a go" where
  "go_index xs i = (if i < length xs then Ret (xs ! i) else Panic IndexOutOfRange)"

definition go_update :: "'a list \<Rightarrow> nat \<Rightarrow> 'a \<Rightarrow> 'a list go" where
  "go_update xs i v = (if i < length xs then Ret (xs[i := v]) else Panic IndexOutOfRange)"

lemma go_index_ok [simp]: "i < length xs \<Longrightarrow> go_index xs i = Ret (xs ! i)"
  by (simp add: go_index_def)

lemma go_update_ok [simp]: "i < length xs \<Longrightarrow> go_update xs i v = Ret (xs[i := v])"
  by (simp add: go_update_def)

section \<open>math/big\<close>

text \<open>
  \<open>big.Int\<close> values are naturals here (no negative one is ever converted to bytes).
  \<open>Bytes\<close> is the big-endian representation without leading zeros, \<open>SetBytes\<close> its inverse.
\<close>

fun le_digits :: "nat \<Rightarrow> byte list" where
  "le_digits n = (if n = 0 then [] else of_nat n # le_digits (n div 256))"

declare le_digits.simps [simp del]

definition big_Bytes :: "nat \<Rightarrow> byte list" where
  "big_Bytes n = rev (le_digits n)"

fun le_nat :: "byte list \<Rightarrow> nat" where
  "le_nat [] = 0"
| "le_nat (b # bs) = unat b + 256 * le_nat bs"

definition big_SetBytes :: "byte list \<Rightarrow> nat" where
  "big_SetBytes bs = le_nat (rev bs)"

lemma le_digits_0 [simp]: "le_digits 0 = []"
  by (simp add: le_digits.simps)

lemma le_nat_digits [simp]: "le_nat (le_digits n) = n"
proof (induction n rule: le_digits.induct)
  case (1 n)
  show ?case
  proof (cases "n = 0")
    case False
    then have "le_nat (le_digits n) = unat (of_nat n :: byte) + 256 * (n div 256)"
      using "1" by (simp add: le_digits.simps [of n])
    also have "\<dots> = n" by (simp add: unat_of_nat)
    finally show ?thesis .
  qed simp
qed

lemma big_SetBytes_Bytes [simp]: "big_SetBytes (big_Bytes n) = n"
  by (simp add: big_SetBytes_def big_Bytes_def)

lemma length_le_digits: "n < 256 ^ k \<Longrightarrow> length (le_digits n) \<le> k"
proof (induction k arbitrary: n)
  case (Suc k)
  show ?case
  proof (cases "n = 0")
    case False
    have "n div 256 < 256 ^ k" using Suc.prems by (simp add: div_less_iff_less_mult mult.commute)
    then have "length (le_digits (n div 256)) \<le> k" by (rule Suc.IH)
    with False show ?thesis by (simp add: le_digits.simps [of n])
  qed simp
qed simp

lemma length_big_Bytes: "n < 256 ^ k \<Longrightarrow> length (big_Bytes n) \<le> k"
  by (simp add: big_Bytes_def length_le_digits)

lemma le_nat_lt: "le_nat bs < 256 ^ length bs"
proof (induction bs)
  case (Cons b bs)
  have "unat b < 256" using unsigned_less [of b, where 'a = nat] by simp
  with Cons have "unat b + 256 * le_nat bs < 256 * (le_nat bs + 1)" by simp
  also have "\<dots> \<le> 256 * 256 ^ length bs" using Cons by (intro mult_left_mono) auto
  finally show ?case by simp
qed simp

lemma le_nat_append: "le_nat (xs @ ys) = le_nat xs + 256 ^ length xs * le_nat ys"
  by (induction xs) (auto simp: algebra_simps)

lemma le_nat_zeros [simp]: "le_nat (replicate k 0) = 0"
  by (induction k) auto

section \<open>Runs of a state machine\<close>

text \<open>
  A component whose operations are events on a state runs over a list of them. The lifting
  of a per-event fact to runs is proved once, in the locale, and obtained for each component
  by interpreting it on that component's step function.
\<close>

definition run :: "('s \<Rightarrow> 'e \<Rightarrow> 's) \<Rightarrow> 's \<Rightarrow> 'e list \<Rightarrow> 's" where
  "run step s es = foldl step s es"

lemma run_simps [simp]:
  "run step s [] = s"
  "run step s (e # es) = run step (step s e) es"
  "run step s (es @ es') = run step (run step s es) es'"
  by (simp_all add: run_def)

locale step_invariant =
  fixes step :: "'s \<Rightarrow> 'e \<Rightarrow> 's"
    and ok :: "'e \<Rightarrow> bool"
    and inv :: "'s \<Rightarrow> bool"
  assumes step_keeps: "inv s \<Longrightarrow> ok e \<Longrightarrow> inv (step s e)"
begin

lemma run_keeps: "inv s \<Longrightarrow> \<forall>e \<in> set es. ok e \<Longrightarrow> inv (run step s es)"
  by (induction es arbitrary: s) (auto intro: step_keeps)

lemma run_prefix_keeps: "inv s \<Longrightarrow> \<forall>e \<in> set es. ok e \<Longrightarrow> inv (run step s (take n es))"
  by (rule run_keeps) (auto dest: in_set_takeD)

end

text \<open>
  A component that answers its events, and an abstract machine that gives the same answers:
  \<open>rep\<close> maps an abstract state to the detailed one that stores it. If every admissible event
  commutes with \<open>rep\<close>, every run gives the same answers and ends in related states.
\<close>

fun answers :: "('s \<Rightarrow> 'e \<Rightarrow> 'o \<times> 's) \<Rightarrow> 's \<Rightarrow> 'e list \<Rightarrow> 'o list \<times> 's" where
  "answers step s [] = ([], s)"
| "answers step s (e # es) =
     (let (o1, s1) = step s e; (os, s2) = answers step s1 es in (o1 # os, s2))"

locale refinement =
  fixes cstep :: "'s \<Rightarrow> 'e \<Rightarrow> 'o \<times> 's"
    and astep :: "'a \<Rightarrow> 'e \<Rightarrow> 'o \<times> 'a"
    and rep :: "'a \<Rightarrow> 's"
    and ok :: "'e \<Rightarrow> bool"
    and inv :: "'a \<Rightarrow> bool"
  assumes step_commutes: "inv a \<Longrightarrow> ok e \<Longrightarrow> cstep (rep a) e = apsnd rep (astep a e)"
    and step_inv: "inv a \<Longrightarrow> ok e \<Longrightarrow> inv (snd (astep a e))"
begin

lemma run_refines:
  "inv a \<Longrightarrow> \<forall>e \<in> set es. ok e \<Longrightarrow> answers cstep (rep a) es = apsnd rep (answers astep a es)"
proof (induction es arbitrary: a)
  case (Cons e es)
  have "inv (snd (astep a e))" using Cons.prems by (simp add: step_inv)
  with Cons show ?case
    by (simp add: step_commutes split_beta Let_def)
qed simp

lemma run_inv: "inv a \<Longrightarrow> \<forall>e \<in> set es. ok e \<Longrightarrow> inv (snd (answers astep a es))"
  by (induction es arbitrary: a) (auto simp: split_beta Let_def intro: step_inv)

lemma same_answers:
  "inv a \<Longrightarrow> \<forall>e \<in> set es. ok e \<Longrightarrow> fst (answers cstep (rep a) es) = fst (answers astep a es)"
  by (simp add: run_refines)

end

section \<open>Lists, options and maps\<close>

lemma sum_list_map_filter_split:
  fixes f :: "'a \<Rightarrow> 'b::comm_monoid_add"
  shows "sum_list (map f (filter P xs)) + sum_list (map f (filter (\<lambda>x. \<not> P x) xs)) = sum_list (map f xs)"
  by (induction xs) (auto simp: algebra_simps)

text \<open>Go's \<open>m[k]\<close> on a missing key is the zero value of the element type.\<close>

definition map_get :: "'v \<Rightarrow> ('k \<rightharpoonup> 'v) \<Rightarrow> 'k \<Rightarrow> 'v" where
  "map_get d m k = (case m k of None \<Rightarrow> d | Some v \<Rightarrow> v)"

lemma map_get_upd [simp]: "map_get d (m(k \<mapsto> v)) k' = (if k' = k then v else map_get d m k')"
  by (simp add: map_get_def)

lemma map_get_empty [simp]: "map_get d Map.empty k = d"
  by (simp add: map_get_def)

text \<open>An order in which \<open>range\<close> may visit the keys of a map.\<close>

definition range_order :: "('k \<rightharpoonup> 'v) \<Rightarrow> 'k list \<Rightarrow> bool" where
  "range_order m keys = (distinct keys \<and> set keys = dom m)"

lemma distinct_singleton_list: "distinct xs \<Longrightarrow> set xs = {x} \<Longrightarrow> xs = [x]"
  by (cases xs; cases "tl xs") (auto split: if_splits)

section \<open>Words\<close>

declare of_nat_unat [simp del]

lemma unat_u64_lt: "unat (x :: u64) < 18446744073709551616"
  using unsigned_less [of x, where 'a = nat] by simp

lemma unat_of_nat_u64 [simp]: "n < 18446744073709551616 \<Longrightarrow> unat (of_nat n :: u64) = n"
  by (simp add: unat_of_nat)

lemma unat_of_int_u64:
  assumes "0 \<le> k" "k < 2 ^ 64"
  shows "int (unat (of_int k :: u64)) = k"
proof -
  obtain n where n: "k = int n" using assms(1) by (metis nonneg_eq_int)
  with assms(2) have "n < 18446744073709551616" by simp
  then show ?thesis by (simp add: n)
qed

lemma unat_byte_lt: "unat (b :: byte) < 256"
  using unsigned_less [of b, where 'a = nat] by simp

lemma uint_byte_lt: "uint (b :: byte) < 256"
  using uint_lt2p [of b] by simp

end
