(* ===== verification/Go_Text.thy ===== *)
theory Go_Text
  imports Pool_Prelude
begin

text \<open>
  The parts of Go's \<^verbatim>\<open>strings\<close>, \<^verbatim>\<open>strconv\<close> and \<^verbatim>\<open>encoding/hex\<close> the program uses, and the
  helpers of \<^verbatim>\<open>src/util/util.go\<close>. \<open>strings_Fields\<close> splits around the ASCII white space
  characters (the Unicode ones take several bytes and do not occur in ASCII text).
\<close>

section \<open>strings\<close>

fun is_prefix_of :: "string \<Rightarrow> string \<Rightarrow> bool" where
  "is_prefix_of [] s = True"
| "is_prefix_of (p # ps) [] = False"
| "is_prefix_of (p # ps) (c # cs) = (p = c \<and> is_prefix_of ps cs)"

fun find_sub :: "string \<Rightarrow> string \<Rightarrow> nat option" where
  "find_sub sep [] = (if sep = [] then Some 0 else None)"
| "find_sub sep (c # cs) = (if is_prefix_of sep (c # cs) then Some 0 else map_option Suc (find_sub sep cs))"

definition strings_Contains :: "string \<Rightarrow> string \<Rightarrow> bool" where
  "strings_Contains s sub = (find_sub sub s \<noteq> None)"

lemma find_sub_Some_le: "find_sub sep s = Some i \<Longrightarrow> sep \<noteq> [] \<Longrightarrow> i < length s"
  by (induction sep s arbitrary: i rule: find_sub.induct) (auto split: if_splits)

text \<open>\<open>strings.Split\<close> for a non-empty separator.\<close>

function strings_Split :: "string \<Rightarrow> string \<Rightarrow> string list" where
  "strings_Split s sep =
     (if sep = [] then map (\<lambda>c. [c]) s
      else case find_sub sep s of
             None \<Rightarrow> [s]
           | Some i \<Rightarrow> take i s # strings_Split (drop (i + length sep) s) sep)"
  by pat_completeness auto

termination
proof (relation "measure (\<lambda>(s, sep). length s)")
  fix s sep :: string and i
  assume "sep \<noteq> []" "find_sub sep s = Some i"
  then have "i < length s" by (simp add: find_sub_Some_le)
  moreover have "0 < length sep" using \<open>sep \<noteq> []\<close> by simp
  ultimately have "length s - (i + length sep) < length s" by linarith
  then show "((drop (i + length sep) s, sep), s, sep) \<in> measure (\<lambda>(s, sep). length s)"
    by simp
qed simp

declare strings_Split.simps [simp del]

fun last_index :: "char \<Rightarrow> string \<Rightarrow> nat option" where
  "last_index c [] = None"
| "last_index c (x # xs) =
     (case last_index c xs of Some i \<Rightarrow> Some (Suc i) | None \<Rightarrow> if x = c then Some 0 else None)"

definition is_ascii_space :: "char \<Rightarrow> bool" where
  "is_ascii_space c = (of_char c \<in> {9, 10, 11, 12, 13, 32 :: nat})"

fun fields_loop :: "string \<Rightarrow> string \<Rightarrow> string list" where
  "fields_loop cur [] = (if cur = [] then [] else [cur])"
| "fields_loop cur (c # cs) =
     (if is_ascii_space c then (if cur = [] then fields_loop [] cs else cur # fields_loop [] cs)
      else fields_loop (cur @ [c]) cs)"

definition strings_Fields :: "string \<Rightarrow> string list" where
  "strings_Fields s = fields_loop [] s"

section \<open>strconv\<close>

definition digit_val :: "char \<Rightarrow> nat option" where
  "digit_val c = (let n = of_char c :: nat in if 48 \<le> n \<and> n \<le> 57 then Some (n - 48) else None)"

fun parse_digits :: "nat \<Rightarrow> string \<Rightarrow> nat option" where
  "parse_digits acc [] = Some acc"
| "parse_digits acc (c # cs) =
     (case digit_val c of None \<Rightarrow> None | Some d \<Rightarrow> parse_digits (10 * acc + d) cs)"

text \<open>\<open>strconv.ParseUint(s, 10, 64)\<close>: a syntax error or a value out of range is \<open>None\<close>.\<close>

definition ParseUint :: "string \<Rightarrow> u64 option" where
  "ParseUint s =
     (if s = [] then None
      else case parse_digits 0 s of
             None \<Rightarrow> None
           | Some n \<Rightarrow> if n < 2 ^ 64 then Some (of_nat n) else None)"

fun format_nat :: "nat \<Rightarrow> string" where
  "format_nat n = (if n < 10 then [char_of (48 + n)] else format_nat (n div 10) @ [char_of (48 + n mod 10)])"

declare format_nat.simps [simp del]

definition FormatUint :: "u64 \<Rightarrow> string" where
  "FormatUint n = format_nat (unat n)"

section \<open>encoding/hex\<close>

definition hex_digit :: "nat \<Rightarrow> char" where
  "hex_digit n = (if n < 10 then char_of (48 + n) else char_of (87 + n))"

definition hex_val :: "char \<Rightarrow> nat option" where
  "hex_val c =
     (let n = of_char c :: nat in
      if 48 \<le> n \<and> n \<le> 57 then Some (n - 48)
      else if 97 \<le> n \<and> n \<le> 102 then Some (n - 87)
      else if 65 \<le> n \<and> n \<le> 70 then Some (n - 55)
      else None)"

definition hex_EncodeToString :: "byte list \<Rightarrow> string" where
  "hex_EncodeToString bs = concat (map (\<lambda>b. [hex_digit (unat b div 16), hex_digit (unat b mod 16)]) bs)"

text \<open>\<open>hex.DecodeString\<close>: \<open>None\<close> stands for its error (a bad digit or an odd length).\<close>

fun hex_DecodeString :: "string \<Rightarrow> byte list option" where
  "hex_DecodeString [] = Some []"
| "hex_DecodeString [c] = None"
| "hex_DecodeString (c # d # cs) =
     (case (hex_val c, hex_val d, hex_DecodeString cs) of
        (Some a, Some b, Some bs) \<Rightarrow> Some (of_nat (16 * a + b) # bs)
      | _ \<Rightarrow> None)"

section \<open>util.go\<close>

definition is_hex_char :: "char \<Rightarrow> bool" where
  "is_hex_char c = (let v = of_char c :: nat in \<not> ((v < 48 \<or> 57 < v) \<and> (v < 97 \<or> 102 < v)))"

definition IsHex :: "string \<Rightarrow> bool" where
  "IsHex s = list_all is_hex_char s"

definition RemovePort :: "string \<Rightarrow> string" where
  "RemovePort a = hd (strings_Split a '':'')"

definition Itob :: "u64 \<Rightarrow> byte list" where
  "Itob v = map (\<lambda>i. ucast (drop_bit (8 * (7 - i)) v)) [0..<8]"

section \<open>Lemmas\<close>

lemma hex_val_digit: "n < 16 \<Longrightarrow> hex_val (hex_digit n) = Some n"
  by (simp add: hex_val_def hex_digit_def Let_def)

lemma hex_roundtrip: "hex_DecodeString (hex_EncodeToString bs) = Some bs"
proof (induction bs)
  case (Cons b bs)
  have d: "unat b div 16 < 16" using unat_byte_lt [of b] by simp
  have "(of_nat (16 * (unat b div 16) + unat b mod 16) :: byte) = b"
    by (simp only: mult_div_mod_eq) (simp add: of_nat_unat)
  with Cons d show ?case by (simp add: hex_EncodeToString_def hex_val_digit)
qed (simp add: hex_EncodeToString_def)

lemma length_hex_EncodeToString [simp]: "length (hex_EncodeToString bs) = 2 * length bs"
  by (induction bs) (auto simp: hex_EncodeToString_def)

text \<open>A string that passes \<open>IsHex\<close> and has even length always decodes.\<close>

lemma is_hex_char_val: "is_hex_char c \<Longrightarrow> \<exists>n. hex_val c = Some n"
  by (auto simp: is_hex_char_def hex_val_def Let_def)

lemma hex_decode_total:
  "IsHex s \<Longrightarrow> even (length s) \<Longrightarrow> \<exists>bs. hex_DecodeString s = Some bs \<and> 2 * length bs = length s"
proof (induction s rule: hex_DecodeString.induct)
  case (3 c d cs)
  then obtain bs where "hex_DecodeString cs = Some bs" "2 * length bs = length cs"
    by (auto simp: IsHex_def)
  moreover obtain a b where "hex_val c = Some a" "hex_val d = Some b"
    using "3.prems"(1) is_hex_char_val [of c] is_hex_char_val [of d] by (auto simp: IsHex_def)
  ultimately show ?case by simp
qed simp_all


lemma is_hex_char_digit: "n < 16 \<Longrightarrow> is_hex_char (hex_digit n)"
  by (auto simp: is_hex_char_def hex_digit_def)

lemma IsHex_hex_EncodeToString: "IsHex (hex_EncodeToString bs)"
proof -
  have "unat b div 16 < 16" for b :: byte
    using unsigned_less [of b, where 'a = nat] by (simp add: less_mult_imp_div_less)
  then show ?thesis by (auto simp: IsHex_def hex_EncodeToString_def list_all_iff is_hex_char_digit)
qed

text \<open>Printing and parsing of decimal numbers.\<close>

lemma parse_digits_append:
  "parse_digits acc (a @ b) = (case parse_digits acc a of None \<Rightarrow> None | Some v \<Rightarrow> parse_digits v b)"
  by (induction acc a rule: parse_digits.induct) (auto split: option.split)

lemma digit_val_of: "d < 10 \<Longrightarrow> digit_val (char_of (48 + d)) = Some d"
  by (simp add: digit_val_def Let_def)

lemma parse_format_nat: "parse_digits 0 (format_nat n) = Some n"
proof (induction n rule: format_nat.induct)
  case (1 n)
  show ?case
  proof (cases "n < 10")
    case True
    then show ?thesis by (simp add: format_nat.simps [of n] digit_val_of)
  next
    case False
    with 1 show ?thesis
      by (simp add: format_nat.simps [of n] parse_digits_append digit_val_of del: char_of_nat)
  qed
qed

lemma format_nat_nonempty [simp]: "format_nat n \<noteq> []"
  by (simp add: format_nat.simps [of n])

lemma ParseUint_FormatUint: "ParseUint (FormatUint n) = Some n"
  using unat_u64_lt [of n] by (simp add: ParseUint_def FormatUint_def parse_format_nat of_nat_unat)

text \<open>Searching and splitting at a single character.\<close>

lemma last_index_notin: "c \<notin> set s \<Longrightarrow> last_index c s = None"
  by (induction s) auto

lemma last_index_append: "c \<notin> set b \<Longrightarrow> last_index c (a @ c # b) = Some (length a)"
  by (induction a) (auto simp: last_index_notin)

lemma find_sub_char: "c \<notin> set a \<Longrightarrow> find_sub [c] (a @ c # b) = Some (length a)"
  by (induction a) auto

lemma find_sub_char_None: "c \<notin> set a \<Longrightarrow> find_sub [c] a = None"
  by (induction a) auto

lemma Contains_char: "strings_Contains s [c] \<longleftrightarrow> c \<in> set s"
  by (induction s) (auto simp: strings_Contains_def)

lemma Split_char_notin: "c \<notin> set a \<Longrightarrow> strings_Split a [c] = [a]"
  by (simp add: strings_Split.simps [of a] find_sub_char_None)

lemma Split_char: "c \<notin> set a \<Longrightarrow> strings_Split (a @ c # b) [c] = a # strings_Split b [c]"
  by (simp add: strings_Split.simps [of "a @ c # b"] find_sub_char)

lemma Split_nonempty [simp]: "strings_Split s [c] \<noteq> []"
  by (simp add: strings_Split.simps [of s] split: option.split)


section \<open>Trimming\<close>

definition strings_TrimPrefix :: "string \<Rightarrow> string \<Rightarrow> string" where
  "strings_TrimPrefix s prefix = (if take (length prefix) s = prefix then drop (length prefix) s else s)"

definition strings_TrimSuffix :: "string \<Rightarrow> string \<Rightarrow> string" where
  "strings_TrimSuffix s suffix =
     (if length suffix \<le> length s \<and> drop (length s - length suffix) s = suffix
      then take (length s - length suffix) s else s)"

lemma TrimPrefix_append [simp]: "strings_TrimPrefix (p @ s) p = s"
  by (simp add: strings_TrimPrefix_def)

end
