(* ===== verification/Go_Float.thy ===== *)
theory Go_Float
  imports Pool_Prelude
begin

text \<open>
  Go's \<open>float64\<close> and \<open>float32\<close>: the IEEE 754 binary formats with rounding to nearest,
  ties to even, as the language prescribes for arithmetic and conversions. A finite value is
  carried by its exact rational; every operation computes exactly and rounds once.

  The sign of zero is not carried. Nothing in the program observes it: no divisor is ever a
  negative zero (all divisors are conversions of unsigned or non-negative integers, constants,
  or were compared with 0 before), and comparisons and integer conversions ignore it.

  Converting a value that the integer type cannot represent is left to the implementation by
  the language specification; such conversions take the implementation's choice as an
  argument (\<open>conv\<close>).
\<close>

section \<open>Rounding to a binary format\<close>

fun flog2 :: "nat \<Rightarrow> nat" where
  "flog2 n = (if n < 2 then 0 else Suc (flog2 (n div 2)))"

declare flog2.simps [simp del]

definition pow2 :: "int \<Rightarrow> rat" where
  "pow2 k = (if 0 \<le> k then 2 ^ nat k else 1 / 2 ^ nat (- k))"

definition ilog2 :: "rat \<Rightarrow> int" where
  "ilog2 q =
     (if 1 \<le> q then int (flog2 (nat \<lfloor>q\<rfloor>))
      else - int (let n = nat \<lceil>1 / q\<rceil> in if n \<le> 1 then 0 else Suc (flog2 (n - 1))))"

definition round_half_even :: "rat \<Rightarrow> int" where
  "round_half_even x =
     (let f = \<lfloor>x\<rfloor>; r = x - of_int f in
      if r < 1 / 2 then f else if 1 / 2 < r then f + 1 else if even f then f else f + 1)"

text \<open>The exponent of the last place of a format with \<open>p\<close> significant bits whose smallest
  positive value is \<open>2 powi emin\<close>, and the rounding of a positive value to its grid.\<close>

definition ulp_exp :: "nat \<Rightarrow> int \<Rightarrow> rat \<Rightarrow> int" where
  "ulp_exp p emin q = max (ilog2 q - (int p - 1)) emin"

definition rnd_pos :: "nat \<Rightarrow> int \<Rightarrow> rat \<Rightarrow> rat" where
  "rnd_pos p emin q =
     (let u = ulp_exp p emin q in of_int (round_half_even (q / pow2 u)) * pow2 u)"

definition rnd :: "nat \<Rightarrow> int \<Rightarrow> rat \<Rightarrow> rat" where
  "rnd p emin q =
     (if q = 0 then 0 else if 0 < q then rnd_pos p emin q else - rnd_pos p emin (- q))"

datatype f64 = NaN | PInf | NInf | Fin rat

definition fround :: "nat \<Rightarrow> int \<Rightarrow> int \<Rightarrow> rat \<Rightarrow> f64" where
  "fround p emin emax q =
     (let r = rnd p emin q in
      if pow2 emax \<le> r then PInf else if r \<le> - pow2 emax then NInf else Fin r)"

abbreviation rnd64 :: "rat \<Rightarrow> rat" where
  "rnd64 \<equiv> rnd 53 (- 1074)"

definition f64_round :: "rat \<Rightarrow> f64" where
  "f64_round q = fround 53 (- 1074) 1024 q"

definition f32_round :: "rat \<Rightarrow> f64" where
  "f32_round q = fround 24 (- 149) 128 q"

section \<open>Arithmetic, comparison and conversion\<close>

fun f64_neg :: "f64 \<Rightarrow> f64" where
  "f64_neg NaN = NaN"
| "f64_neg PInf = NInf"
| "f64_neg NInf = PInf"
| "f64_neg (Fin q) = Fin (- q)"

fun f64_add :: "f64 \<Rightarrow> f64 \<Rightarrow> f64" where
  "f64_add (Fin a) (Fin b) = f64_round (a + b)"
| "f64_add NaN y = NaN"
| "f64_add x NaN = NaN"
| "f64_add PInf NInf = NaN"
| "f64_add NInf PInf = NaN"
| "f64_add PInf y = PInf"
| "f64_add NInf y = NInf"
| "f64_add x PInf = PInf"
| "f64_add x NInf = NInf"

definition f64_inf :: "bool \<Rightarrow> f64" where
  "f64_inf pos = (if pos then PInf else NInf)"

fun f64_sgn :: "f64 \<Rightarrow> int" where
  "f64_sgn NaN = 0"
| "f64_sgn PInf = 1"
| "f64_sgn NInf = -1"
| "f64_sgn (Fin q) = (if 0 < q then 1 else if q < 0 then -1 else 0)"

fun f64_mul :: "f64 \<Rightarrow> f64 \<Rightarrow> f64" where
  "f64_mul (Fin a) (Fin b) = f64_round (a * b)"
| "f64_mul NaN y = NaN"
| "f64_mul x NaN = NaN"
| "f64_mul x y =
     (if f64_sgn x * f64_sgn y = 0 then NaN else f64_inf (0 < f64_sgn x * f64_sgn y))"

fun f64_div :: "f64 \<Rightarrow> f64 \<Rightarrow> f64" where
  "f64_div (Fin a) (Fin b) =
     (if b = 0 then (if a = 0 then NaN else f64_inf (0 < a)) else f64_round (a / b))"
| "f64_div NaN y = NaN"
| "f64_div x NaN = NaN"
| "f64_div (Fin a) y = Fin 0"
| "f64_div x (Fin b) = f64_inf (0 < f64_sgn x * (if b < 0 then -1 else 1))"
| "f64_div x y = NaN"

instantiation f64 :: "{plus, minus, times, inverse, uminus, zero, one}"
begin

definition plus_f64 :: "f64 \<Rightarrow> f64 \<Rightarrow> f64" where "x + y = f64_add x y"
definition uminus_f64 :: "f64 \<Rightarrow> f64" where "- x = f64_neg x"
definition minus_f64 :: "f64 \<Rightarrow> f64 \<Rightarrow> f64" where "x - y = f64_add x (f64_neg y)"
definition times_f64 :: "f64 \<Rightarrow> f64 \<Rightarrow> f64" where "x * y = f64_mul x y"
definition divide_f64 :: "f64 \<Rightarrow> f64 \<Rightarrow> f64" where "x div y = f64_div x y"
definition inverse_f64 :: "f64 \<Rightarrow> f64" where "inverse x = f64_div (Fin 1) x"
definition zero_f64 :: f64 where "0 = Fin 0"
definition one_f64 :: f64 where "1 = Fin 1"

instance ..

end

text \<open>IEEE comparisons: false whenever an operand is NaN.\<close>

instantiation f64 :: ord
begin

fun less_f64 :: "f64 \<Rightarrow> f64 \<Rightarrow> bool" where
  "less_f64 (Fin a) (Fin b) = (a < b)"
| "less_f64 NInf (Fin b) = True"
| "less_f64 NInf PInf = True"
| "less_f64 (Fin a) PInf = True"
| "less_f64 x y = False"

definition less_eq_f64 :: "f64 \<Rightarrow> f64 \<Rightarrow> bool" where
  "less_eq_f64 x y = (x < y \<or> (x = y \<and> x \<noteq> NaN))"

instance ..

end

definition f64_eq :: "f64 \<Rightarrow> f64 \<Rightarrow> bool" where
  "f64_eq x y = (x = y \<and> x \<noteq> NaN)"

definition f64_of_u64 :: "u64 \<Rightarrow> f64" where
  "f64_of_u64 n = f64_round (of_nat (unat n))"

definition f64_of_int :: "int \<Rightarrow> f64" where
  "f64_of_int n = f64_round (of_int n)"

text \<open>A constant of the source, rounded at compile time.\<close>

definition f64_const :: "rat \<Rightarrow> f64" where
  "f64_const q = f64_round q"

definition rat_trunc :: "rat \<Rightarrow> int" where
  "rat_trunc q = (if 0 \<le> q then \<lfloor>q\<rfloor> else \<lceil>q\<rceil>)"

definition u64_of_f64 :: "(f64 \<Rightarrow> u64) \<Rightarrow> f64 \<Rightarrow> u64" where
  "u64_of_f64 conv x =
     (case x of
        Fin q \<Rightarrow> if 0 \<le> rat_trunc q \<and> rat_trunc q < 2 ^ 64 then of_int (rat_trunc q) else conv x
      | _ \<Rightarrow> conv x)"

definition i64_of_f64 :: "(f64 \<Rightarrow> int) \<Rightarrow> f64 \<Rightarrow> int" where
  "i64_of_f64 conv x =
     (case x of
        Fin q \<Rightarrow> if - (2 ^ 63) \<le> rat_trunc q \<and> rat_trunc q < 2 ^ 63 then rat_trunc q else conv x
      | _ \<Rightarrow> conv x)"

section \<open>math\<close>

definition IsNaN :: "f64 \<Rightarrow> bool" where
  "IsNaN x = (x = NaN)"

definition IsInf :: "f64 \<Rightarrow> bool" where
  "IsInf x = (x = PInf \<or> x = NInf)"

text \<open>\<open>math.Round\<close> rounds half away from zero.\<close>

fun math_Round :: "f64 \<Rightarrow> f64" where
  "math_Round (Fin q) = Fin (of_int (if 0 \<le> q then \<lfloor>q + 1 / 2\<rfloor> else - \<lfloor>- q + 1 / 2\<rfloor>))"
| "math_Round x = x"

text \<open>\<open>math.Pow10\<close> multiplies two table entries, each the nearest float of a power of ten.\<close>

definition math_Pow10 :: "int \<Rightarrow> f64" where
  "math_Pow10 n =
     (if 0 \<le> n \<and> n \<le> 308 then
        f64_const (10 ^ (32 * (nat n div 32))) * f64_const (10 ^ (nat n mod 32))
      else if - 323 \<le> n \<and> n \<le> 0 then
        f64_const (1 / 10 ^ (32 * (nat (- n) div 32))) / f64_const (10 ^ (nat (- n) mod 32))
      else if 0 < n then PInf else Fin 0)"

lemmas f64_ops = plus_f64_def minus_f64_def times_f64_def divide_f64_def uminus_f64_def
  zero_f64_def one_f64_def

section \<open>Laws of rounding\<close>

lemma pow2_powi: "pow2 k = 2 powi k"
  by (simp add: pow2_def power_int_def divide_simps)

lemma pow2_pos [simp]: "0 < pow2 k"
  by (simp add: pow2_def)

lemma pow2_nonzero [simp]: "pow2 k \<noteq> 0"
  using pow2_pos [of k] by linarith

lemma pow2_0 [simp]: "pow2 0 = 1"
  by (simp add: pow2_def)

lemma pow2_add: "pow2 (a + b) = pow2 a * pow2 b"
  by (simp add: pow2_powi power_int_add)

lemma pow2_diff: "pow2 (a - b) = pow2 a / pow2 b"
  by (simp add: pow2_powi power_int_diff)

lemma pow2_mono: "a \<le> b \<Longrightarrow> pow2 a \<le> pow2 b"
  by (simp add: pow2_powi power_int_increasing)

lemma pow2_strict_mono: "a < b \<Longrightarrow> pow2 a < pow2 b"
  by (simp add: pow2_powi power_int_strict_increasing)

lemma pow2_less_iff [simp]: "pow2 a < pow2 b \<longleftrightarrow> a < b"
  using pow2_mono [of b a] pow2_strict_mono [of a b] by linarith

lemma pow2_of_nat: "0 \<le> k \<Longrightarrow> pow2 k = of_nat (2 ^ nat k)"
  by (simp add: pow2_def)

lemma pow2_int: "0 \<le> k \<Longrightarrow> pow2 k = of_int (2 ^ nat k)"
  by (simp add: pow2_def)

lemma flog2_bounds:
  assumes "0 < n" shows "2 ^ flog2 n \<le> n \<and> n < 2 ^ Suc (flog2 n)"
  using assms
proof (induction n rule: flog2.induct)
  case (1 n)
  show ?case
  proof (cases "n < 2")
    case True with 1 have "n = 1" by simp
    then show ?thesis by (simp add: flog2.simps)
  next
    case False
    with 1 have "2 ^ flog2 (n div 2) \<le> n div 2 \<and> n div 2 < 2 ^ Suc (flog2 (n div 2))" by simp
    moreover have "2 * (n div 2) \<le> n \<and> n < 2 * (n div 2 + 1)" by arith
    ultimately have "2 * 2 ^ flog2 (n div 2) \<le> n \<and> n < 2 * 2 ^ Suc (flog2 (n div 2))" by linarith
    with False show ?thesis by (simp add: flog2.simps [of n])
  qed
qed

lemma ilog2_bounds:
  assumes "0 < q" shows "pow2 (ilog2 q) \<le> q \<and> q < pow2 (ilog2 q + 1)"
proof (cases "1 \<le> q")
  case True
  let ?n = "nat \<lfloor>q\<rfloor>"
  have n: "0 < ?n" using True by simp
  have "of_int \<lfloor>q\<rfloor> \<le> q" "q < of_int \<lfloor>q\<rfloor> + 1" by linarith+
  then have nq: "of_nat ?n \<le> q" "q < of_nat ?n + 1" using True by (simp_all)
  have il: "ilog2 q = int (flog2 ?n)" using True by (simp add: ilog2_def)
  have "(of_nat (2 ^ flog2 ?n) :: rat) \<le> of_nat ?n" using flog2_bounds [OF n] of_nat_le_iff by blast
  moreover have "(of_nat ?n + 1 :: rat) \<le> of_nat (2 ^ Suc (flog2 ?n))"
    using flog2_bounds [OF n] by (metis Suc_leI of_nat_Suc of_nat_le_iff add.commute)
  moreover have "pow2 (int (flog2 ?n)) = of_nat (2 ^ flog2 ?n)" by (simp add: pow2_def)
  moreover have "pow2 (int (flog2 ?n) + 1) = of_nat (2 ^ Suc (flog2 ?n))" by (simp add: pow2_def nat_add_distrib)
  ultimately show ?thesis unfolding il using nq by linarith
next
  case False
  let ?n = "nat \<lceil>1 / q\<rceil>"
  have inv: "1 < 1 / q" using False assms by simp
  then have "1 < \<lceil>1 / q\<rceil>" by (simp add: less_ceiling_iff)
  then have n2: "2 \<le> ?n" by linarith
  have n: "0 < ?n - 1" using n2 by linarith
  have "of_int \<lceil>1/q\<rceil> \<ge> 1/q" "of_int \<lceil>1/q\<rceil> < 1/q + 1" by linarith+
  moreover have "(of_nat ?n :: rat) = of_int \<lceil>1/q\<rceil>" using inv by simp
  ultimately have nq: "1/q \<le> of_nat ?n" "of_nat ?n < 1/q + 1" by simp_all
  let ?m = "flog2 (?n - 1)"
  have il: "ilog2 q = - int (Suc ?m)" using False n2 by (simp add: ilog2_def Let_def)
  have b: "2 ^ ?m \<le> ?n - 1" "?n - 1 < 2 ^ Suc ?m" using flog2_bounds [OF n] by auto
  have "?n \<le> 2 ^ Suc ?m" using b(2) n2 by linarith
  then have "(of_nat ?n :: rat) \<le> of_nat (2 ^ Suc ?m)" by (simp only: of_nat_le_iff)
  also have "(of_nat (2 ^ Suc ?m) :: rat) = 2 ^ Suc ?m" by simp
  finally have 1: "1/q \<le> 2 ^ Suc ?m" using nq(1) by linarith
  have "2 ^ ?m + 1 \<le> ?n" using b(1) n2 by linarith
  then have "(of_nat (2 ^ ?m + 1) :: rat) \<le> of_nat ?n" by (simp only: of_nat_le_iff)
  then have "(of_nat (2 ^ ?m) + 1 :: rat) \<le> of_nat ?n" by simp
  moreover have "(of_nat (2 ^ ?m) :: rat) = 2 ^ ?m" by simp
  ultimately have 2: "2 ^ ?m < 1/q" using nq(2) by linarith
  have "pow2 (ilog2 q) = 1 / 2 ^ Suc ?m" unfolding il by (simp add: pow2_def nat_add_distrib)
  moreover have "pow2 (ilog2 q + 1) = 1 / 2 ^ ?m" unfolding il by (simp add: pow2_def)
  moreover have "1 / 2 ^ Suc ?m \<le> q" using 1 assms by (simp add: field_simps)
  moreover have "q < 1 / 2 ^ ?m" using 2 assms by (simp add: field_simps)
  ultimately show ?thesis by simp
qed

lemma round_half_even_error: "\<bar>of_int (round_half_even x) - x\<bar> \<le> 1 / 2"
proof -
  have "of_int \<lfloor>x\<rfloor> \<le> x" "x < of_int \<lfloor>x\<rfloor> + 1" by linarith+
  then show ?thesis by (auto simp: round_half_even_def Let_def abs_le_iff)
qed

lemma round_half_even_of_int [simp]: "round_half_even (of_int n) = n"
  by (simp add: round_half_even_def)

lemma round_half_even_mono: "x \<le> y \<Longrightarrow> round_half_even x \<le> round_half_even y"
proof -
  assume xy: "x \<le> y"
  then have fl: "\<lfloor>x\<rfloor> \<le> \<lfloor>y\<rfloor>" by (rule floor_mono)
  have b: "round_half_even x \<le> \<lfloor>x\<rfloor> + 1" "\<lfloor>y\<rfloor> \<le> round_half_even y"
    by (auto simp: round_half_even_def Let_def)
  show ?thesis
  proof (cases "\<lfloor>x\<rfloor> = \<lfloor>y\<rfloor>")
    case True
    with xy show ?thesis by (auto simp: round_half_even_def Let_def)
  next
    case False
    with fl b show ?thesis by linarith
  qed
qed

lemma round_half_even_le: "x \<le> of_int n \<Longrightarrow> round_half_even x \<le> n"
  using round_half_even_mono [of x "of_int n"] by simp

lemma round_half_even_ge: "of_int n \<le> x \<Longrightarrow> n \<le> round_half_even x"
  using round_half_even_mono [of "of_int n" x] by simp

lemma ilog2_mono:
  assumes "0 < q" "q \<le> r" shows "ilog2 q \<le> ilog2 r"
proof -
  have "pow2 (ilog2 q) \<le> q" using ilog2_bounds assms by blast
  also have "\<dots> \<le> r" by fact
  also have "\<dots> < pow2 (ilog2 r + 1)" using ilog2_bounds assms by (meson less_le_trans)
  finally show ?thesis by simp
qed

lemma rnd_pos_error:
  assumes q: "0 < q" and normal: "pow2 (emin + (int p - 1)) \<le> q"
  shows "\<bar>rnd_pos p emin q - q\<bar> \<le> q * pow2 (- int p)"
proof -
  have "pow2 (emin + (int p - 1)) < pow2 (ilog2 q + 1)"
    using normal ilog2_bounds [OF q] by linarith
  then have u: "ulp_exp p emin q = ilog2 q - (int p - 1)" by (simp add: ulp_exp_def)
  let ?u = "ulp_exp p emin q"
  let ?n = "round_half_even (q / pow2 ?u)"
  have "\<bar>of_int ?n - q / pow2 ?u\<bar> \<le> 1 / 2" by (rule round_half_even_error)
  then have "\<bar>of_int ?n - q / pow2 ?u\<bar> * pow2 ?u \<le> 1 / 2 * pow2 ?u"
    by (rule mult_right_mono) (simp add: less_imp_le)
  moreover have "\<bar>of_int ?n - q / pow2 ?u\<bar> * pow2 ?u = \<bar>of_int ?n * pow2 ?u - q\<bar>"
  proof -
    have "\<bar>of_int ?n - q / pow2 ?u\<bar> * pow2 ?u = \<bar>(of_int ?n - q / pow2 ?u) * pow2 ?u\<bar>"
      by (simp add: abs_mult less_imp_le)
    also have "(of_int ?n - q / pow2 ?u) * pow2 ?u = of_int ?n * pow2 ?u - q"
      by (simp add: left_diff_distrib)
    finally show ?thesis .
  qed
  ultimately have "\<bar>rnd_pos p emin q - q\<bar> \<le> 1 / 2 * pow2 ?u"
    by (simp add: rnd_pos_def Let_def)
  also have "1 / 2 * pow2 ?u = pow2 (ilog2 q) * pow2 (- int p)"
  proof -
    have "pow2 ?u = pow2 (ilog2 q + (- int p) + 1)" unfolding u by (simp add: algebra_simps)
    also have "\<dots> = pow2 (ilog2 q) * pow2 (- int p) * pow2 1" by (simp only: pow2_add)
    also have "pow2 1 = 2" by (simp add: pow2_def)
    finally show ?thesis by simp
  qed
  also have "\<dots> \<le> q * pow2 (- int p)"
    using ilog2_bounds [OF q] by (intro mult_right_mono) (auto simp: less_imp_le)
  finally show ?thesis .
qed

lemma rnd_pos_grid:
  assumes q: "0 < q" and e: "0 < p" "ilog2 q < e" "emin \<le> e"
    and low: "emin \<le> e - int p"
  shows "rnd_pos p emin q \<le> pow2 e"
proof -
  let ?u = "ulp_exp p emin q"
  have u: "?u \<le> e" using e low by (auto simp: ulp_exp_def)
  have "q < pow2 e" using ilog2_bounds [OF q] e pow2_mono [of "ilog2 q + 1" e] by simp
  then have "q / pow2 ?u \<le> pow2 (e - ?u)" by (simp add: pow2_diff divide_right_mono less_imp_le)
  also have "pow2 (e - ?u) = of_int (2 ^ nat (e - ?u))" using u by (simp add: pow2_int)
  finally have "round_half_even (q / pow2 ?u) \<le> 2 ^ nat (e - ?u)" by (rule round_half_even_le)
  then have "(of_int (round_half_even (q / pow2 ?u)) :: rat) \<le> of_int (2 ^ nat (e - ?u))"
    by (simp only: of_int_le_iff)
  then have "of_int (round_half_even (q / pow2 ?u)) * pow2 ?u \<le> of_int (2 ^ nat (e - ?u)) * pow2 ?u"
    by (rule mult_right_mono) (simp add: less_imp_le)
  also have "of_int (2 ^ nat (e - ?u)) * pow2 ?u = pow2 e"
    using u by (simp only: pow2_int [symmetric] pow2_add [symmetric] diff_ge_0_iff_ge) simp
  finally show ?thesis by (simp add: rnd_pos_def Let_def)
qed

lemma rnd_pos_mono:
  assumes p: "0 < p" and q: "0 < q" and le: "q \<le> r"
  shows "rnd_pos p emin q \<le> rnd_pos p emin r"
proof -
  have r: "0 < r" using q le by simp
  let ?uq = "ulp_exp p emin q" and ?ur = "ulp_exp p emin r"
  have il: "ilog2 q \<le> ilog2 r" by (rule ilog2_mono [OF q le])
  show ?thesis
  proof (cases "?uq = ?ur")
    case True
    have "q / pow2 ?uq \<le> r / pow2 ?uq" using le by (simp add: divide_right_mono less_imp_le)
    then have "round_half_even (q / pow2 ?uq) \<le> round_half_even (r / pow2 ?uq)"
      by (rule round_half_even_mono)
    then show ?thesis using True by (simp add: rnd_pos_def Let_def mult_right_mono less_imp_le)
  next
    case False
    with il have ur: "?ur = ilog2 r - (int p - 1)" and lt: "ilog2 q < ilog2 r" "emin < ?ur"
      by (auto simp: ulp_exp_def max_def split: if_splits)
    have "rnd_pos p emin q \<le> pow2 (ilog2 r)"
      using q p lt ur by (intro rnd_pos_grid) auto
    also have "pow2 (ilog2 r) \<le> rnd_pos p emin r"
    proof -
      have "pow2 (ilog2 r) / pow2 ?ur \<le> r / pow2 ?ur"
        using ilog2_bounds [OF r] by (simp add: divide_right_mono less_imp_le)
      moreover have "pow2 (ilog2 r) / pow2 ?ur = of_int (2 ^ (p - 1))"
        using p by (simp add: ur flip: pow2_diff) (simp add: pow2_def nat_diff_distrib)
      ultimately have "2 ^ (p - 1) \<le> round_half_even (r / pow2 ?ur)"
        by (intro round_half_even_ge) simp
      then have "(of_int (2 ^ (p - 1)) :: rat) \<le> of_int (round_half_even (r / pow2 ?ur))"
        by (simp only: of_int_le_iff)
      then have "of_int (2 ^ (p - 1)) * pow2 ?ur \<le> rnd_pos p emin r"
        unfolding rnd_pos_def Let_def by (rule mult_right_mono) (simp add: less_imp_le)
      moreover have "of_int (2 ^ (p - 1)) * pow2 ?ur = pow2 (ilog2 r)"
      proof -
        have "(of_int (2 ^ (p - 1)) :: rat) = pow2 (int p - 1)"
          using p by (simp add: pow2_def nat_diff_distrib)
        then show ?thesis by (simp add: ur flip: pow2_add)
      qed
      ultimately show ?thesis by simp
    qed
    finally show ?thesis .
  qed
qed

lemma rnd_pos_exact:
  assumes q: "0 < q" and grid: "q = of_int m * pow2 u" "ulp_exp p emin q \<le> u"
  shows "rnd_pos p emin q = q"
proof -
  let ?v = "ulp_exp p emin q"
  have "q / pow2 ?v = of_int (m * 2 ^ nat (u - ?v))"
  proof -
    have "of_int m * pow2 u / pow2 ?v = of_int m * pow2 (u - ?v)" by (simp add: pow2_diff)
    also have "\<dots> = of_int (m * 2 ^ nat (u - ?v))" using grid(2) by (simp add: pow2_int)
    finally show ?thesis using grid(1) by simp
  qed
  then have "round_half_even (q / pow2 ?v) = m * 2 ^ nat (u - ?v)" by (simp only: round_half_even_of_int)
  then have "of_int (round_half_even (q / pow2 ?v)) = q / pow2 ?v"
    using \<open>q / pow2 ?v = _\<close> by simp
  then show ?thesis by (simp add: rnd_pos_def Let_def)
qed


lemma rnd_pos_nonneg: "0 < q \<Longrightarrow> 0 \<le> rnd_pos p emin q"
proof -
  assume "0 < q"
  then have "0 \<le> q / pow2 (ulp_exp p emin q)" by (simp add: less_imp_le)
  then have "0 \<le> round_half_even (q / pow2 (ulp_exp p emin q))"
    using round_half_even_ge [of 0] by simp
  then show ?thesis by (simp add: rnd_pos_def Let_def less_imp_le)
qed

lemma rnd_0 [simp]: "rnd p emin 0 = 0"
  by (simp add: rnd_def)

lemma rnd_nonneg: "0 \<le> q \<Longrightarrow> 0 \<le> rnd p emin q"
  by (auto simp: rnd_def rnd_pos_nonneg)

lemma rnd_mono:
  assumes p: "0 < p" and le: "q \<le> r"
  shows "rnd p emin q \<le> rnd p emin r"
proof -
  consider "0 < q" | "q \<le> 0" "0 \<le> r" | "r < 0" by linarith
  then show ?thesis
  proof cases
    case 1
    with le show ?thesis using rnd_pos_mono [OF p 1 le] by (simp add: rnd_def)
  next
    case 2
    then have "rnd p emin q \<le> 0" by (auto simp: rnd_def rnd_pos_nonneg)
    with 2 rnd_nonneg [of r p emin] show ?thesis by linarith
  next
    case 3
    with le have "0 < - r" "- r \<le> - q" by simp_all
    with 3 le rnd_pos_mono [OF p, of "- r" "- q" emin] show ?thesis by (simp add: rnd_def)
  qed
qed

lemma rnd_pos_small_int:
  assumes "0 < m" "m \<le> 2 ^ p" "emin \<le> 0" "0 < p"
  shows "rnd_pos p emin (of_int m) = of_int m"
proof (cases "m = 2 ^ p")
  case True
  have "pow2 (int p) = of_int m" using True by (simp add: pow2_def)
  then have "pow2 (ilog2 (of_int m)) \<le> pow2 (int p)" using ilog2_bounds [of "of_int m"] assms(1) by simp
  then have il: "ilog2 (of_int m) \<le> int p" using pow2_less_iff [of "int p"] by (meson not_le)
  have "(of_int m :: rat) = of_int (2 ^ (p - 1)) * pow2 1"
    using True assms(4) by (cases p) (auto simp: pow2_def)
  moreover have "ulp_exp p emin (of_int m) \<le> 1" using il assms by (simp add: ulp_exp_def)
  ultimately show ?thesis using assms(1) by (intro rnd_pos_exact) simp_all
next
  case False
  with assms have "(of_int m :: rat) < of_int (2 ^ p)" by (simp only: of_int_less_iff)
  also have "(of_int (2 ^ p) :: rat) = pow2 (int p)" by (simp add: pow2_def)
  finally have lt: "of_int m < pow2 (int p)" .
  have "pow2 (ilog2 (of_int m)) \<le> of_int m" using ilog2_bounds [of "of_int m"] assms(1) by simp
  from this lt have "pow2 (ilog2 (of_int m)) < pow2 (int p)" by (rule le_less_trans)
  then show ?thesis using assms
    by (intro rnd_pos_exact [where m = m and u = 0]) (auto simp: ulp_exp_def)
qed

lemma rnd_small_int:
  assumes "\<bar>m\<bar> \<le> 2 ^ p" "emin \<le> 0" "0 < p"
  shows "rnd p emin (of_int m) = of_int m"
proof -
  consider "m = 0" | "0 < m" | "m < 0" by linarith
  then show ?thesis
  proof cases
    case 2 with assms rnd_pos_small_int [of m p emin] show ?thesis by (simp add: rnd_def)
  next
    case 3 with assms rnd_pos_small_int [of "- m" p emin] show ?thesis by (simp add: rnd_def)
  qed simp
qed


lemma rnd64_of_int: "\<bar>m\<bar> \<le> 2 ^ 53 \<Longrightarrow> rnd64 (of_int m) = of_int m"
  by (rule rnd_small_int) auto

lemma rnd64_of_nat: "n \<le> 2 ^ 53 \<Longrightarrow> rnd64 (of_nat n) = of_nat n"
  using rnd64_of_int [of "int n"] by simp

definition eps64 :: rat where
  "eps64 = 1 / 2 ^ 53"

definition tiny64 :: rat where
  "tiny64 = 1 / 2 ^ 200"

lemma rnd64_error:
  assumes "tiny64 \<le> q"
  shows "\<bar>rnd64 q - q\<bar> \<le> q * eps64"
proof -
  have q: "0 < q" using assms by (rule less_le_trans [rotated]) (simp add: tiny64_def)
  have "pow2 (- 1074 + (int 53 - 1)) \<le> pow2 (- 200)" by (rule pow2_mono) simp
  also have "pow2 (- 200) = tiny64" by (simp add: pow2_def tiny64_def)
  finally have "pow2 (- 1074 + (int 53 - 1)) \<le> q" using assms by linarith
  then have "\<bar>rnd_pos 53 (- 1074) q - q\<bar> \<le> q * pow2 (- int 53)" by (rule rnd_pos_error [OF q])
  moreover have "pow2 (- int 53) = eps64" by (simp add: pow2_def eps64_def)
  moreover have "rnd64 q = rnd_pos 53 (- 1074) q" using q by (simp add: rnd_def)
  ultimately show ?thesis by simp
qed

text \<open>What the payment code needs of rounding, whatever the format.\<close>

locale rounding =
  fixes rd :: "rat \<Rightarrow> rat" and eps :: rat and tiny :: rat
  assumes eps_range: "0 < eps" "eps < 1"
    and rd_0: "rd 0 = 0"
    and rd_mono: "x \<le> y \<Longrightarrow> rd x \<le> rd y"
    and rd_error: "tiny \<le> x \<Longrightarrow> \<bar>rd x - x\<bar> \<le> x * eps"
begin

lemma rd_nonneg: "0 \<le> x \<Longrightarrow> 0 \<le> rd x"
  using rd_mono [of 0 x] rd_0 by simp

lemma rd_le: "x = 0 \<or> tiny \<le> x \<Longrightarrow> rd x \<le> x * (1 + eps)"
  using rd_error [of x] rd_0 by (auto simp: algebra_simps abs_le_iff)

lemma rd_ge: "x = 0 \<or> tiny \<le> x \<Longrightarrow> x * (1 - eps) \<le> rd x"
  using rd_error [of x] rd_0 by (auto simp: algebra_simps abs_le_iff)

text \<open>A part \<open>d\<close> of a whole \<open>D\<close>, as the code computes its percentage.\<close>

lemma rd_ratio_le:
  assumes d: "d = 0 \<or> tiny \<le> d" "0 \<le> d" and D: "tiny \<le> D" "0 < D"
    and q: "d = 0 \<or> tiny \<le> rd d / rd D"
  shows "rd (rd d / rd D) \<le> d / D * ((1 + eps) ^ 2 / (1 - eps))"
proof -
  have Dge: "D * (1 - eps) \<le> rd D" using rd_ge D by simp
  have Dpos: "0 < D * (1 - eps)" using D eps_range by simp
  have "rd (rd d / rd D) \<le> rd d / rd D * (1 + eps)"
    using q rd_0 by (intro rd_le) auto
  also have "rd d / rd D \<le> d * (1 + eps) / (D * (1 - eps))"
    using rd_le [OF d(1)] Dge Dpos d eps_range by (intro frac_le) auto
  then have "rd d / rd D * (1 + eps) \<le> d * (1 + eps) / (D * (1 - eps)) * (1 + eps)"
    using eps_range by (intro mult_right_mono) auto
  also have "\<dots> = d / D * ((1 + eps) ^ 2 / (1 - eps))"
    using D eps_range by (simp add: field_simps power2_eq_square)
  finally show ?thesis .
qed

end

interpretation r64: rounding rnd64 eps64 tiny64
proof unfold_locales
  show "0 < eps64" "eps64 < 1" by (simp_all add: eps64_def)
qed (simp_all add: rnd_mono rnd64_error)


lemma rnd64_pow2:
  assumes "- 1074 \<le> k"
  shows "rnd64 (pow2 k) = pow2 k"
proof -
  have "pow2 (ilog2 (pow2 k)) \<le> pow2 k" using ilog2_bounds [of "pow2 k"] by simp
  then have "ilog2 (pow2 k) \<le> k" using pow2_less_iff [of k] by (meson not_le)
  with assms have "rnd_pos 53 (- 1074) (pow2 k) = pow2 k"
    by (intro rnd_pos_exact [where m = 1 and u = k]) (simp_all add: ulp_exp_def)
  then show ?thesis by (simp add: rnd_def)
qed

lemma f64_round_Fin:
  assumes "0 \<le> q" "q \<le> pow2 1000"
  shows "f64_round q = Fin (rnd64 q)"
proof -
  have "rnd64 q \<le> pow2 1000" using r64.rd_mono [OF assms(2)] by (simp add: rnd64_pow2)
  also have "pow2 1000 < pow2 1024" by simp
  finally have hi: "\<not> pow2 1024 \<le> rnd64 q" by simp
  have "- pow2 1024 < 0" by simp
  then have lo: "\<not> rnd64 q \<le> - pow2 1024" using r64.rd_nonneg [OF assms(1)] by linarith
  show ?thesis using hi lo by (simp add: f64_round_def fround_def)
qed

lemma pow2_64_le: "2 ^ 64 \<le> pow2 1000"
proof -
  have "(2 ^ 64 :: rat) = pow2 64" by (simp add: pow2_def)
  also have "\<dots> \<le> pow2 1000" by (rule pow2_mono) simp
  finally show ?thesis .
qed

lemma of_nat_u64_lt: "(of_nat (unat (n :: u64)) :: rat) < 2 ^ 64"
proof -
  have "(of_nat (unat n) :: rat) < of_nat (2 ^ 64)" using unat_u64_lt [of n] by (simp only: of_nat_less_iff) simp
  then show ?thesis by simp
qed

lemma f64_of_u64_Fin: "f64_of_u64 n = Fin (rnd64 (of_nat (unat n)))"
  unfolding f64_of_u64_def using of_nat_u64_lt [of n] pow2_64_le
  by (intro f64_round_Fin) auto

lemma f64_of_u64_exact: "unat n \<le> 2 ^ 53 \<Longrightarrow> f64_of_u64 n = Fin (of_nat (unat n))"
  by (simp add: f64_of_u64_Fin rnd64_of_nat del: of_nat_unat)

lemma rnd64_of_nat_ge1: "0 < n \<Longrightarrow> 1 \<le> rnd64 (of_nat n)"
  using r64.rd_mono [of 1 "of_nat n"] rnd64_of_nat [of 1] by simp

lemma rnd64_u64_le: "rnd64 (of_nat (unat (n :: u64))) \<le> 2 ^ 64"
proof -
  have "rnd64 (of_nat (unat n)) \<le> rnd64 (pow2 64)"
    using of_nat_u64_lt [of n] by (intro r64.rd_mono) (simp add: pow2_def)
  also have "rnd64 (pow2 64) = pow2 64" by (rule rnd64_pow2) simp
  finally show ?thesis by (simp add: pow2_def)
qed

text \<open>The quotient of two 64-bit counts, as the code forms percentages.\<close>

definition ratio64 :: "nat \<Rightarrow> nat \<Rightarrow> rat" where
  "ratio64 d D = rnd64 (rnd64 (of_nat d) / rnd64 (of_nat D))"

lemma f64_ratio:
  assumes "D \<noteq> 0"
  shows "f64_of_u64 d / f64_of_u64 D = Fin (ratio64 (unat d) (unat D))"
proof -
  have D: "1 \<le> rnd64 (of_nat (unat D))" using assms by (intro rnd64_of_nat_ge1) (simp add: unat_gt_0)
  have "rnd64 (of_nat (unat d)) / rnd64 (of_nat (unat D)) \<le> 2 ^ 64 / 1"
    using D rnd64_u64_le [of d] r64.rd_nonneg [of "of_nat (unat d)"] by (intro frac_le) auto
  then have le: "rnd64 (of_nat (unat d)) / rnd64 (of_nat (unat D)) \<le> pow2 1000"
    using pow2_64_le by linarith
  have "0 \<le> rnd64 (of_nat (unat d)) / rnd64 (of_nat (unat D))"
    using D r64.rd_nonneg [of "of_nat (unat d)"] by simp
  from f64_round_Fin [OF this le] D show ?thesis
    by (simp add: f64_of_u64_Fin f64_ops ratio64_def)
qed

lemma ratio64_le:
  assumes "0 < D" "D < 2 ^ 64" "d < 2 ^ 64"
  shows "ratio64 d D \<le> of_nat d / of_nat D * ((1 + eps64) ^ 2 / (1 - eps64))"
  unfolding ratio64_def
proof (rule r64.rd_ratio_le)
  show "of_nat d = 0 \<or> tiny64 \<le> (of_nat d :: rat)"
  proof (cases "d = 0")
    case False
    then have "1 \<le> (of_nat d :: rat)" by simp
    moreover have "tiny64 \<le> 1" by (simp add: tiny64_def)
    ultimately show ?thesis by linarith
  qed simp
  have "1 \<le> (of_nat D :: rat)" using assms by simp
  moreover have "tiny64 \<le> 1" by (simp add: tiny64_def)
  ultimately show "tiny64 \<le> (of_nat D :: rat)" by linarith
  show "of_nat d = 0 \<or> tiny64 \<le> rnd64 (of_nat d) / rnd64 (of_nat D)"
  proof (cases "d = 0")
    case False
    have "rnd64 (of_nat D) \<le> 2 ^ 64"
      using rnd64_u64_le [of "of_nat D"] assms by (simp add: unat_of_nat)
    moreover have "1 \<le> rnd64 (of_nat d)" "1 \<le> rnd64 (of_nat D)"
      using False assms rnd64_of_nat_ge1 by auto
    ultimately have "1 / 2 ^ 64 \<le> rnd64 (of_nat d) / rnd64 (of_nat D)"
      by (intro frac_le) auto
    moreover have "tiny64 \<le> 1 / 2 ^ 64" by (simp add: tiny64_def)
    ultimately show ?thesis by linarith
  qed simp
qed (use assms in auto)

end
