(* ===== verification/Ledger.thy ===== *)
theory Ledger
  imports Go_Text Go_Float
begin

text \<open>
  \<^verbatim>\<open>src/pkg/ledger\<close>: the SQLite ledger. A table is the list of its rows in insertion order and
  every statement of \<^verbatim>\<open>ledger.go\<close> is an operation on these lists, with the constraints of
  \<^verbatim>\<open>schema.sql\<close>: primary keys, UNIQUE, NOT NULL, CHECK and foreign keys (which the schema
  script switches on for the only connection).

  Three things of \<^verbatim>\<open>database/sql\<close> matter and are written out. A \<open>uint64\<close> argument with its high
  bit set is refused when it is bound. The pool holds one connection, so a statement issued while
  a transaction holds it waits for ever (\<open>Blocked\<close>). And rows of equal sort key come in an
  unspecified order, so a query with ORDER BY takes the order as a parameter, with
  \<open>orders_by\<close> as its contract.

  A database file may have been created before the current script (every CREATE TABLE says
  IF NOT EXISTS), so which tables and columns exist is a field of the state; \<open>schema_sql\<close> is
  what the script of the repository creates. Unix times are integers; the time of a call is an
  argument.
\<close>

section \<open>Rows (models.go)\<close>

record BlockFound =
  bfHeight :: u64
  bfHash :: string
  bfRewardTotal :: u64
  bfTimestamp :: int
  bfFoundAt :: int
  bfProcessedAt :: "int option"
  bfStatus :: string

record Share =
  shID :: u64
  shBlockHeight :: "u64 option"
  shMinerAddr :: string
  shWorkerID :: string
  shDifficulty :: u64
  shTimestamp :: int

record Distribution =
  diID :: u64
  diBlockHeight :: u64
  diMinerAddr :: string
  diSharesContrib :: u64
  diPercentage :: f64
  diRewardGross :: u64
  diRewardNet :: u64
  diCalculatedAt :: int

record Payment =
  paID :: u64
  paBlockHeight :: "u64 option"
  paRecipientAddr :: string
  paAmount :: u64
  paFee :: u64
  paTxID :: "string option"
  paStatus :: string
  paCreatedAt :: int
  paSentAt :: "int option"
  paConfirmedAt :: "int option"
  paUpdatedAt :: "int option"

record ProcessedTransfer =
  ptTxID :: string
  ptHeight :: u64
  ptAmount :: u64
  ptProcessedAt :: int

record Balance =
  baMinerAddr :: string
  baPending :: u64
  baConfirmed :: u64
  baTotalPaid :: u64
  baLastUpdated :: int

record PoolFee =
  pfBlockHeight :: u64
  pfFeeAmount :: u64
  pfCollectedAt :: int

record PoolStats =
  psTimestamp :: int
  psTotalHashrate :: u64
  psNetworkHashrate :: u64
  psNetworkDifficulty :: u64
  psConnectedMiners :: int
  psConnectedWorkers :: int
  psBlocksFound24h :: int

section \<open>State and results\<close>

record schema =
  sharesHeightNullable :: bool
  hasDistributions :: bool
  hasPoolFees :: bool
  paymentsUpdatedAt :: bool

text \<open>The tables \<^verbatim>\<open>schema.sql\<close> creates: NOT NULL on \<open>shares.block_height\<close>, no table
  \<open>distributions\<close> and no table \<open>pool_fees\<close> (\<^verbatim>\<open>schema_broken.sql\<close> has them), no column
  \<open>updated_at\<close> in \<open>payments\<close>.\<close>

definition schema_sql :: schema where
  "schema_sql = \<lparr>sharesHeightNullable = False, hasDistributions = False, hasPoolFees = False,
     paymentsUpdatedAt = False\<rparr>"

text \<open>A database that has them. (No script of the repository creates the tables
  \<open>miner_hashrate_history\<close> and \<open>worker_hashrate_history\<close>: statements on them fail.)\<close>

definition schema_full :: schema where
  "schema_full = \<lparr>sharesHeightNullable = True, hasDistributions = True, hasPoolFees = True,
     paymentsUpdatedAt = True\<rparr>"

record LedgerDB =
  lschema :: schema
  txOpen :: bool
  blocks_found :: "BlockFound list"
  processed_transfers :: "ProcessedTransfer list"
  balances :: "Balance list"
  shares :: "Share list"
  nextShareID :: u64
  distributions :: "Distribution list"
  nextDistID :: u64
  payments :: "Payment list"
  nextPaymentID :: u64
  pool_fees :: "PoolFee list"
  pool_stats_history :: "PoolStats list"
  blockchain_info :: "(u64 \<times> u64 \<times> u64) option"
  pool_config :: "string \<rightharpoonup> string"

definition NewLedgerDB :: "schema \<Rightarrow> LedgerDB" where
  "NewLedgerDB sc =
     \<lparr>lschema = sc, txOpen = False, blocks_found = [], processed_transfers = [], balances = [],
      shares = [], nextShareID = 1, distributions = [], nextDistID = 1, payments = [], nextPaymentID = 1,
      pool_fees = [], pool_stats_history = [],
      blockchain_info = Some (0, 0, 1), pool_config = [''last_processed_height'' \<mapsto> ''0'']\<rparr>"

datatype sql_error =
    HighBitUint64
  | NoSuchTable string
  | NoSuchColumn string
  | NotNullFailed string
  | CheckFailed string
  | UniqueFailed string
  | ForeignKeyFailed
  | IntegerOverflow
  | ScanFailed
  | DatabaseFull
  | ParseUintFailed

datatype 'a res = Ok 'a | Err sql_error | Blocked

fun res_bind :: "'a res \<Rightarrow> ('a \<Rightarrow> 'b res) \<Rightarrow> 'b res" where
  "res_bind (Ok x) f = f x"
| "res_bind (Err e) f = Err e"
| "res_bind Blocked f = Blocked"

text \<open>Binding the \<open>uint64\<close> arguments of a statement.\<close>

definition bindable :: "u64 \<Rightarrow> bool" where
  "bindable x = (x < 9223372036854775808)"

text \<open>A reading and a writing statement: both wait for the connection.\<close>

definition query :: "u64 list \<Rightarrow> (LedgerDB \<Rightarrow> 'a res) \<Rightarrow> LedgerDB \<Rightarrow> 'a res" where
  "query args q l =
     (if txOpen l then Blocked
      else if \<not> list_all bindable args then Err HighBitUint64
      else q l)"

definition exec :: "u64 list \<Rightarrow> (LedgerDB \<Rightarrow> unit res \<times> LedgerDB) \<Rightarrow> LedgerDB \<Rightarrow> unit res \<times> LedgerDB" where
  "exec args q l =
     (if txOpen l then (Blocked, l)
      else if \<not> list_all bindable args then (Err HighBitUint64, l)
      else q l)"

definition orders_by :: "('a \<Rightarrow> int) \<Rightarrow> ('a list \<Rightarrow> 'a list) \<Rightarrow> bool" where
  "orders_by key order = (\<forall>xs. mset (order xs) = mset xs \<and> sorted (map key (order xs)))"

text \<open>\<open>WithTransaction\<close>: the transaction takes the connection; a function that never returns
  leaves it taken. Otherwise it is given back and an error rolls the tables back.\<close>

definition WithTransaction :: "(LedgerDB \<Rightarrow> unit res \<times> LedgerDB) \<Rightarrow> LedgerDB \<Rightarrow> unit res \<times> LedgerDB" where
  "WithTransaction fn l =
     (if txOpen l then (Blocked, l)
      else case fn (l\<lparr>txOpen := True\<rparr>) of
             (Ok _, l') \<Rightarrow> (Ok (), l'\<lparr>txOpen := False\<rparr>)
           | (Err e, l') \<Rightarrow> (Err e, l)
           | (Blocked, l') \<Rightarrow> (Blocked, l'))"

section \<open>Transfers\<close>

definition IsTransferProcessed :: "string \<Rightarrow> LedgerDB \<Rightarrow> bool res" where
  "IsTransferProcessed txid =
     query [] (\<lambda>l. Ok (0 < length (filter (\<lambda>r. ptTxID r = txid) (processed_transfers l))))"

definition MarkTransferProcessed :: "int \<Rightarrow> string \<Rightarrow> u64 \<Rightarrow> u64 \<Rightarrow> LedgerDB \<Rightarrow> unit res \<times> LedgerDB" where
  "MarkTransferProcessed now txid height amount =
     exec [height, amount] (\<lambda>l.
       (Ok (), if list_ex (\<lambda>r. ptTxID r = txid) (processed_transfers l) then l
               else l\<lparr>processed_transfers := processed_transfers l @
                  [\<lparr>ptTxID = txid, ptHeight = height, ptAmount = amount, ptProcessedAt = now\<rparr>]\<rparr>))"

section \<open>Blocks\<close>

definition IsBlockProcessed :: "u64 \<Rightarrow> LedgerDB \<Rightarrow> bool res" where
  "IsBlockProcessed height =
     query [height] (\<lambda>l. Ok (0 < length (filter (\<lambda>b. bfHeight b = height \<and> bfStatus b \<in> {''completed'', ''orphaned''})
       (blocks_found l))))"

definition block_statuses :: "string set" where
  "block_statuses = {''pending'', ''processing'', ''completed'', ''orphaned''}"

text \<open>INSERT OR IGNORE: a row that violates a constraint is skipped without an error.\<close>

definition insert_block :: "BlockFound \<Rightarrow> LedgerDB \<Rightarrow> LedgerDB" where
  "insert_block block l =
     (if list_ex (\<lambda>b. bfHeight b = bfHeight block \<or> bfHash b = bfHash block) (blocks_found l)
         \<or> bfStatus block \<notin> block_statuses then l
      else l\<lparr>blocks_found := blocks_found l @ [block\<lparr>bfProcessedAt := None\<rparr>]\<rparr>)"

definition CreateBlock :: "BlockFound \<Rightarrow> LedgerDB \<Rightarrow> unit res \<times> LedgerDB" where
  "CreateBlock block = exec [bfHeight block, bfRewardTotal block] (\<lambda>l. (Ok (), insert_block block l))"

definition AddBlockFound :: "int \<Rightarrow> BlockFound \<Rightarrow> LedgerDB \<Rightarrow> unit res \<times> LedgerDB" where
  "AddBlockFound now block =
     exec [bfHeight block, bfRewardTotal block] (\<lambda>l. (Ok (), insert_block (block\<lparr>bfFoundAt := now\<rparr>) l))"

definition GetBlock :: "u64 \<Rightarrow> LedgerDB \<Rightarrow> BlockFound option res" where
  "GetBlock height = query [height] (\<lambda>l. Ok (find (\<lambda>b. bfHeight b = height) (blocks_found l)))"

definition MarkBlockProcessed :: "int \<Rightarrow> u64 \<Rightarrow> LedgerDB \<Rightarrow> unit res \<times> LedgerDB" where
  "MarkBlockProcessed now height =
     exec [height] (\<lambda>l. (Ok (), l\<lparr>blocks_found := map (\<lambda>b.
       if bfHeight b = height then b\<lparr>bfProcessedAt := Some now, bfStatus := ''completed''\<rparr> else b) (blocks_found l)\<rparr>))"

definition has_block :: "LedgerDB \<Rightarrow> u64 \<Rightarrow> bool" where
  "has_block l height = list_ex (\<lambda>b. bfHeight b = height) (blocks_found l)"

definition fk_ok :: "LedgerDB \<Rightarrow> u64 option \<Rightarrow> bool" where
  "fk_ok l h = (case h of None \<Rightarrow> True | Some height \<Rightarrow> has_block l height)"

definition opt_arg :: "u64 option \<Rightarrow> u64 list" where
  "opt_arg h = (case h of None \<Rightarrow> [] | Some x \<Rightarrow> [x])"

section \<open>Shares\<close>

text \<open>An AUTOINCREMENT key that has reached the largest signed integer makes an insert fail.\<close>

definition AddShare :: "Share \<Rightarrow> LedgerDB \<Rightarrow> unit res \<times> LedgerDB" where
  "AddShare share =
     exec (opt_arg (shBlockHeight share) @ [shDifficulty share]) (\<lambda>l.
       if shBlockHeight share = None \<and> \<not> sharesHeightNullable (lschema l)
       then (Err (NotNullFailed ''shares.block_height''), l)
       else if \<not> bindable (nextShareID l) then (Err DatabaseFull, l)
       else if \<not> fk_ok l (shBlockHeight share) then (Err ForeignKeyFailed, l)
       else (Ok (), l\<lparr>shares := shares l @ [share\<lparr>shID := nextShareID l\<rparr>], nextShareID := nextShareID l + 1\<rparr>))"

definition GetSharesInWindow :: "(Share list \<Rightarrow> Share list) \<Rightarrow> int \<Rightarrow> LedgerDB \<Rightarrow> Share list res" where
  "GetSharesInWindow order windowStart =
     query [] (\<lambda>l. Ok (order (filter (\<lambda>s. windowStart \<le> shTimestamp s) (shares l))))"

section \<open>Distributions\<close>

definition CreateDistribution :: "Distribution \<Rightarrow> LedgerDB \<Rightarrow> unit res \<times> LedgerDB" where
  "CreateDistribution di =
     exec [diBlockHeight di, diSharesContrib di, diRewardGross di, diRewardNet di] (\<lambda>l.
       if \<not> hasDistributions (lschema l) then (Err (NoSuchTable ''distributions''), l)
       else if \<not> bindable (nextDistID l) then (Err DatabaseFull, l)
       else if \<not> has_block l (diBlockHeight di) then (Err ForeignKeyFailed, l)
       else (Ok (), l\<lparr>distributions :=
           filter (\<lambda>d. \<not> (diBlockHeight d = diBlockHeight di \<and> diMinerAddr d = diMinerAddr di)) (distributions l)
             @ [di\<lparr>diID := nextDistID l\<rparr>],
         nextDistID := nextDistID l + 1\<rparr>))"

definition GetDistributionsForBlock :: "u64 \<Rightarrow> LedgerDB \<Rightarrow> Distribution list res" where
  "GetDistributionsForBlock height =
     query [height] (\<lambda>l. if \<not> hasDistributions (lschema l) then Err (NoSuchTable ''distributions'')
       else Ok (filter (\<lambda>d. diBlockHeight d = height) (distributions l)))"

section \<open>Payments\<close>

definition payment_statuses :: "string set" where
  "payment_statuses = {''pending'', ''sent'', ''confirmed'', ''failed''}"

definition CreatePayment :: "Payment \<Rightarrow> LedgerDB \<Rightarrow> unit res \<times> LedgerDB" where
  "CreatePayment payment =
     exec (opt_arg (paBlockHeight payment) @ [paAmount payment, paFee payment]) (\<lambda>l.
       if paStatus payment \<notin> payment_statuses then (Err (CheckFailed ''payments.status''), l)
       else if \<not> bindable (nextPaymentID l) then (Err DatabaseFull, l)
       else if \<not> fk_ok l (paBlockHeight payment) then (Err ForeignKeyFailed, l)
       else (Ok (), l\<lparr>payments := payments l @ [payment\<lparr>paID := nextPaymentID l, paTxID := None,
           paSentAt := None, paConfirmedAt := None, paUpdatedAt := None\<rparr>],
         nextPaymentID := nextPaymentID l + 1\<rparr>))"

definition GetPendingPayments :: "(Payment list \<Rightarrow> Payment list) \<Rightarrow> LedgerDB \<Rightarrow> Payment list res" where
  "GetPendingPayments order =
     query [] (\<lambda>l. Ok (order (filter (\<lambda>p. paStatus p = ''pending'') (payments l))))"

text \<open>Updating the row with the given id; \<open>txid\<close> is UNIQUE, so giving it the id of a
  transaction another row already has is refused.\<close>

definition set_payment :: "u64 \<Rightarrow> (Payment \<Rightarrow> Payment) \<Rightarrow> LedgerDB \<Rightarrow> unit res \<times> LedgerDB" where
  "set_payment pid upd l =
     (let rows = map (\<lambda>p. if paID p = pid then upd p else p) (payments l) in
      if list_ex (\<lambda>p. paID p = pid \<and> paStatus (upd p) \<notin> payment_statuses) (payments l)
      then (Err (CheckFailed ''payments.status''), l)
      else if list_ex (\<lambda>p. paID p = pid \<and> paTxID (upd p) \<noteq> None \<and>
                list_ex (\<lambda>q. paID q \<noteq> pid \<and> paTxID q = paTxID (upd p)) (payments l)) (payments l)
      then (Err (UniqueFailed ''payments.txid''), l)
      else (Ok (), l\<lparr>payments := rows\<rparr>))"

definition UpdatePaymentStatus ::
  "int \<Rightarrow> u64 \<Rightarrow> string \<Rightarrow> string option \<Rightarrow> LedgerDB \<Rightarrow> unit res \<times> LedgerDB" where
  "UpdatePaymentStatus now paymentID status txid =
     exec [paymentID] (\<lambda>l.
       if \<not> paymentsUpdatedAt (lschema l) then (Err (NoSuchColumn ''updated_at''), l)
       else if status = ''sent'' \<and> txid \<noteq> None then
         set_payment paymentID (\<lambda>p. p\<lparr>paStatus := status, paTxID := txid, paSentAt := Some now, paUpdatedAt := Some now\<rparr>) l
       else if status = ''confirmed'' then
         set_payment paymentID (\<lambda>p. p\<lparr>paStatus := status, paConfirmedAt := Some now, paUpdatedAt := Some now\<rparr>) l
       else
         set_payment paymentID (\<lambda>p. p\<lparr>paStatus := status, paUpdatedAt := Some now\<rparr>) l)"

section \<open>Balances and fees\<close>

definition GetBalance :: "int \<Rightarrow> string \<Rightarrow> LedgerDB \<Rightarrow> Balance res" where
  "GetBalance now minerAddr =
     query [] (\<lambda>l. Ok (case find (\<lambda>b. baMinerAddr b = minerAddr) (balances l) of
         Some b \<Rightarrow> b
       | None \<Rightarrow> \<lparr>baMinerAddr = minerAddr, baPending = 0, baConfirmed = 0, baTotalPaid = 0, baLastUpdated = now\<rparr>))"

text \<open>The statements \<^verbatim>\<open>master.go\<close> sends directly: INSERT OR REPLACE of a balance and INSERT of a
  fee.\<close>

definition ReplaceBalance :: "Balance \<Rightarrow> LedgerDB \<Rightarrow> unit res \<times> LedgerDB" where
  "ReplaceBalance b =
     exec [baPending b, baConfirmed b, baTotalPaid b] (\<lambda>l.
       (Ok (), l\<lparr>balances := filter (\<lambda>r. baMinerAddr r \<noteq> baMinerAddr b) (balances l) @ [b]\<rparr>))"

definition InsertPoolFee :: "PoolFee \<Rightarrow> LedgerDB \<Rightarrow> unit res \<times> LedgerDB" where
  "InsertPoolFee f =
     exec [pfBlockHeight f, pfFeeAmount f] (\<lambda>l.
       if \<not> hasPoolFees (lschema l) then (Err (NoSuchTable ''pool_fees''), l)
       else if \<not> has_block l (pfBlockHeight f) then (Err ForeignKeyFailed, l)
       else (Ok (), l\<lparr>pool_fees := pool_fees l @ [f]\<rparr>))"

section \<open>Statistics and reporting\<close>

record BlockInfo =
  biHeight :: u64
  biHash :: string
  biRewardTotal :: u64
  biTimestamp :: int
  biStatus :: string

definition block_info :: "BlockFound \<Rightarrow> BlockInfo" where
  "block_info b = \<lparr>biHeight = bfHeight b, biHash = bfHash b, biRewardTotal = bfRewardTotal b,
     biTimestamp = bfTimestamp b, biStatus = bfStatus b\<rparr>"

text \<open>Heights are unique, so ORDER BY height DESC has one result.\<close>

definition GetRecentBlocks :: "nat \<Rightarrow> LedgerDB \<Rightarrow> BlockInfo list res" where
  "GetRecentBlocks limit =
     query [] (\<lambda>l. Ok (take limit (map block_info (rev (sort_key bfHeight (blocks_found l))))))"

definition GetMinerSharesInWindow :: "(Share list \<Rightarrow> Share list) \<Rightarrow> string \<Rightarrow> int \<Rightarrow> LedgerDB \<Rightarrow> Share list res" where
  "GetMinerSharesInWindow order minerAddr startTime =
     query [] (\<lambda>l. Ok (order (filter (\<lambda>s. shMinerAddr s = minerAddr \<and> startTime \<le> shTimestamp s) (shares l))))"

definition GetActiveWorkers :: "string \<Rightarrow> int \<Rightarrow> LedgerDB \<Rightarrow> string list res" where
  "GetActiveWorkers minerAddr since =
     query [] (\<lambda>l. Ok (remdups (map shWorkerID
       (filter (\<lambda>s. shMinerAddr s = minerAddr \<and> since \<le> shTimestamp s) (shares l)))))"

record Withdrawal =
  wdTxID :: string
  wdAmount :: u64
  wdTimestamp :: int

definition GetMinerWithdrawals :: "(Payment list \<Rightarrow> Payment list) \<Rightarrow> string \<Rightarrow> nat \<Rightarrow> LedgerDB \<Rightarrow> Withdrawal list res" where
  "GetMinerWithdrawals order minerAddr limit =
     query [] (\<lambda>l.
       if \<not> paymentsUpdatedAt (lschema l) then Err (NoSuchColumn ''updated_at'')
       else Ok (map (\<lambda>p. \<lparr>wdTxID = (case paTxID p of Some t \<Rightarrow> t | None \<Rightarrow> []), wdAmount = paAmount p,
                 wdTimestamp = (case paUpdatedAt p of Some t \<Rightarrow> t | None \<Rightarrow> 0)\<rparr>)
              (take limit (order (filter (\<lambda>p. paRecipientAddr p = minerAddr \<and> paStatus p = ''sent'' \<and> paTxID p \<noteq> None)
                 (payments l))))))"

definition GetActiveMinerCount :: "int \<Rightarrow> LedgerDB \<Rightarrow> nat res" where
  "GetActiveMinerCount since =
     query [] (\<lambda>l. Ok (length (remdups (map shMinerAddr (filter (\<lambda>s. since \<le> shTimestamp s) (shares l))))))"

definition GetActiveWorkerCount :: "int \<Rightarrow> LedgerDB \<Rightarrow> nat res" where
  "GetActiveWorkerCount since =
     query [] (\<lambda>l. Ok (length (remdups (map (\<lambda>s. shMinerAddr s @ '':'' @ shWorkerID s)
       (filter (\<lambda>s. since \<le> shTimestamp s) (shares l))))))"

text \<open>SUM over stored integers: an error if the total exceeds a signed 64-bit integer.\<close>

definition sql_sum :: "u64 list \<Rightarrow> u64 res" where
  "sql_sum xs = (let t = sum_list (map unat xs) in if t < 2 ^ 63 then Ok (of_nat t) else Err IntegerOverflow)"

fun res_map :: "('a \<Rightarrow> 'b res) \<Rightarrow> 'a list \<Rightarrow> 'b list res" where
  "res_map f [] = Ok []"
| "res_map f (x # xs) = res_bind (f x) (\<lambda>y. res_bind (res_map f xs) (\<lambda>ys. Ok (y # ys)))"

record TopMinerAPI =
  tmMinerAddr :: string
  tmShareCount :: u64
  tmSharesInWindow :: u64
  tmWorkerCount :: nat
  tmPercentage :: f64
  tmLastShareTime :: int

record tempMiner =
  tpAddr :: string
  tpWorkers :: nat
  tpSharesInWindow :: u64
  tpPplnsWeight :: u64
  tpLastShareTime :: int

text \<open>One group of a GROUP BY miner, and the row it yields.\<close>

definition miner_group :: "Share list \<Rightarrow> string \<Rightarrow> tempMiner res" where
  "miner_group rows addr =
     (let g = filter (\<lambda>s. shMinerAddr s = addr) rows in
      res_bind (sql_sum (map shDifficulty g)) (\<lambda>w.
        Ok \<lparr>tpAddr = addr, tpWorkers = length (remdups (map shWorkerID g)), tpSharesInWindow = of_nat (length g),
            tpPplnsWeight = w, tpLastShareTime = Max (set (map shTimestamp g))\<rparr>))"

definition GetTopMinersForAPI ::
  "(tempMiner list \<Rightarrow> tempMiner list) \<Rightarrow> int \<Rightarrow> nat \<Rightarrow> LedgerDB \<Rightarrow> TopMinerAPI list res" where
  "GetTopMinersForAPI order now limit =
     query [] (\<lambda>l.
       let rows = filter (\<lambda>s. now - 21600 \<le> shTimestamp s) (shares l) in
       res_bind (res_map (miner_group rows) (remdups (map shMinerAddr rows))) (\<lambda>groups.
         let tempMiners = take limit (order groups);
             totalWeight = sum_list (map tpPplnsWeight tempMiners)
         in Ok (map (\<lambda>tm. \<lparr>tmMinerAddr = tpAddr tm,
              tmShareCount = of_nat (length (filter (\<lambda>s. shMinerAddr s = tpAddr tm) (shares l))),
              tmSharesInWindow = tpSharesInWindow tm, tmWorkerCount = tpWorkers tm,
              tmPercentage = (if 0 < totalWeight
                then f64_of_u64 (tpPplnsWeight tm) / f64_of_u64 totalWeight * Fin 100 else Fin 0),
              tmLastShareTime = tpLastShareTime tm\<rparr>) tempMiners)))"

record WorkerStats =
  wsWorkerID :: string
  wsShareCount :: u64
  wsSharesInWindow :: u64
  wsLastShareTime :: int
  wsPercentage :: f64
  wsHashrate :: f64

record tempWorker =
  twId :: string
  twTotalShares :: u64
  twSharesInWindow :: u64
  twWindowDiff :: u64
  twLastShareTime :: int

definition worker_group :: "int \<Rightarrow> Share list \<Rightarrow> string \<Rightarrow> tempWorker res" where
  "worker_group windowStart rows wid =
     (let g = filter (\<lambda>s. shWorkerID s = wid) rows;
          win = filter (\<lambda>s. windowStart \<le> shTimestamp s) g in
      res_bind (sql_sum (map shDifficulty win)) (\<lambda>d.
        Ok \<lparr>twId = wid, twTotalShares = of_nat (length g), twSharesInWindow = of_nat (length win),
            twWindowDiff = d, twLastShareTime = Max (set (map shTimestamp g))\<rparr>))"

definition GetMinerWorkerStats ::
  "(tempWorker list \<Rightarrow> tempWorker list) \<Rightarrow> int \<Rightarrow> string \<Rightarrow> int \<Rightarrow> LedgerDB \<Rightarrow> WorkerStats list res" where
  "GetMinerWorkerStats order now minerAddr windowStart =
     query [] (\<lambda>l.
       let rows = filter (\<lambda>s. shMinerAddr s = minerAddr) (shares l) in
       res_bind (res_map (worker_group windowStart rows) (remdups (map shWorkerID rows))) (\<lambda>groups.
         let tempWorkers = order groups;
             totalShares = sum_list (map twTotalShares tempWorkers);
             windowDuration = (if now - windowStart \<le> 0 then 1 else now - windowStart)
         in Ok (map (\<lambda>tw. \<lparr>wsWorkerID = twId tw, wsShareCount = twTotalShares tw,
              wsSharesInWindow = twSharesInWindow tw, wsLastShareTime = twLastShareTime tw,
              wsPercentage = (if 0 < totalShares
                then f64_of_u64 (twTotalShares tw) / f64_of_u64 totalShares * Fin 100 else Fin 0),
              wsHashrate = f64_of_u64 (twWindowDiff tw) / f64_of_int windowDuration\<rparr>) tempWorkers)))"

section \<open>Pool statistics history\<close>

text \<open>The hashrates are converted to \<open>int64\<close>, so a value from \<open>2 ^ 63\<close> on is stored as a
  negative number, which no longer scans into a \<open>uint64\<close>.\<close>

definition StorePoolStats :: "PoolStats \<Rightarrow> LedgerDB \<Rightarrow> unit res \<times> LedgerDB" where
  "StorePoolStats st =
     exec [] (\<lambda>l. (Ok (), l\<lparr>pool_stats_history :=
       filter (\<lambda>r. psTimestamp r \<noteq> psTimestamp st) (pool_stats_history l) @ [st]\<rparr>))"

definition GetPoolStatsHistory :: "int \<Rightarrow> int \<Rightarrow> LedgerDB \<Rightarrow> PoolStats list res" where
  "GetPoolStatsHistory now hours =
     query [] (\<lambda>l. res_map (\<lambda>r. if bindable (psTotalHashrate r) \<and> bindable (psNetworkHashrate r) \<and> bindable (psNetworkDifficulty r)
         then Ok r else Err ScanFailed)
       (sort_key psTimestamp (filter (\<lambda>r. now - hours * 3600 < psTimestamp r) (pool_stats_history l))))"

definition StoreMinerHashrate :: "LedgerDB \<Rightarrow> unit res \<times> LedgerDB" where
  "StoreMinerHashrate = exec [] (\<lambda>l. (Err (NoSuchTable ''miner_hashrate_history''), l))"

definition GetMinerHashrateHistory :: "LedgerDB \<Rightarrow> (int \<times> f64) list res" where
  "GetMinerHashrateHistory = query [] (\<lambda>l. Err (NoSuchTable ''miner_hashrate_history''))"

text \<open>The three deletions run one after the other and the first that fails ends the call.\<close>

definition CleanupOldChartData :: "int \<Rightarrow> int \<Rightarrow> LedgerDB \<Rightarrow> unit res \<times> LedgerDB" where
  "CleanupOldChartData now days =
     exec [] (\<lambda>l. (Err (NoSuchTable ''miner_hashrate_history''),
       l\<lparr>pool_stats_history := filter (\<lambda>r. \<not> psTimestamp r < now - days * 24 * 3600) (pool_stats_history l)\<rparr>))"

section \<open>Round shares, chain state, configuration\<close>

definition last_block_time :: "LedgerDB \<Rightarrow> int" where
  "last_block_time l =
     (let ts = map bfTimestamp (filter (\<lambda>b. bfStatus b = ''completed'') (blocks_found l))
      in if ts = [] then 0 else Max (set ts))"

definition GetRoundShares :: "LedgerDB \<Rightarrow> u64 res" where
  "GetRoundShares =
     query [] (\<lambda>l. sql_sum (map shDifficulty (filter (\<lambda>s. last_block_time l < shTimestamp s) (shares l))))"

definition GetBlockchainInfo :: "LedgerDB \<Rightarrow> (u64 \<times> u64 \<times> u64) res" where
  "GetBlockchainInfo =
     query [] (\<lambda>l. Ok (case blockchain_info l of None \<Rightarrow> (0, 0, 1) | Some r \<Rightarrow> r))"

definition UpdateBlockchainInfo :: "u64 \<Rightarrow> u64 \<Rightarrow> u64 \<Rightarrow> LedgerDB \<Rightarrow> unit res \<times> LedgerDB" where
  "UpdateBlockchainInfo height blockReward difficulty =
     exec [height, blockReward, difficulty] (\<lambda>l.
       (Ok (), case blockchain_info l of None \<Rightarrow> l
               | Some _ \<Rightarrow> l\<lparr>blockchain_info := Some (height, blockReward, difficulty)\<rparr>))"

definition GetLastProcessedHeight :: "LedgerDB \<Rightarrow> u64 res" where
  "GetLastProcessedHeight =
     query [] (\<lambda>l. case pool_config l ''last_processed_height'' of
         None \<Rightarrow> Ok 0
       | Some v \<Rightarrow> (case ParseUint v of None \<Rightarrow> Err ParseUintFailed | Some h \<Rightarrow> Ok h))"

definition UpdateLastProcessedHeight :: "u64 \<Rightarrow> LedgerDB \<Rightarrow> unit res \<times> LedgerDB" where
  "UpdateLastProcessedHeight height =
     exec [] (\<lambda>l. (Ok (), l\<lparr>pool_config := (pool_config l)(''last_processed_height'' \<mapsto> FormatUint height)\<rparr>))"


section \<open>Operations as events\<close>

text \<open>Every writing statement of the package as an event on the ledger.\<close>

datatype ledger_op =
    OpMarkTransfer int string u64 u64
  | OpCreateBlock BlockFound
  | OpAddBlock int BlockFound
  | OpMarkBlock int u64
  | OpAddShare Share
  | OpCreateDistribution Distribution
  | OpCreatePayment Payment
  | OpUpdatePayment int u64 string "string option"
  | OpReplaceBalance Balance
  | OpInsertPoolFee PoolFee
  | OpStorePoolStats PoolStats
  | OpCleanup int int
  | OpUpdateChain u64 u64 u64
  | OpSetHeight u64

fun ledger_exec :: "ledger_op \<Rightarrow> LedgerDB \<Rightarrow> unit res \<times> LedgerDB" where
  "ledger_exec (OpMarkTransfer now txid h a) = MarkTransferProcessed now txid h a"
| "ledger_exec (OpCreateBlock b) = CreateBlock b"
| "ledger_exec (OpAddBlock now b) = AddBlockFound now b"
| "ledger_exec (OpMarkBlock now h) = MarkBlockProcessed now h"
| "ledger_exec (OpAddShare s) = AddShare s"
| "ledger_exec (OpCreateDistribution d) = CreateDistribution d"
| "ledger_exec (OpCreatePayment p) = CreatePayment p"
| "ledger_exec (OpUpdatePayment now i st t) = UpdatePaymentStatus now i st t"
| "ledger_exec (OpReplaceBalance b) = ReplaceBalance b"
| "ledger_exec (OpInsertPoolFee f) = InsertPoolFee f"
| "ledger_exec (OpStorePoolStats s) = StorePoolStats s"
| "ledger_exec (OpCleanup now d) = CleanupOldChartData now d"
| "ledger_exec (OpUpdateChain h r d) = UpdateBlockchainInfo h r d"
| "ledger_exec (OpSetHeight h) = UpdateLastProcessedHeight h"

definition ledger_step :: "LedgerDB \<Rightarrow> ledger_op \<Rightarrow> LedgerDB" where
  "ledger_step l e = snd (ledger_exec e l)"

lemmas ledger_write_defs = MarkTransferProcessed_def CreateBlock_def AddBlockFound_def MarkBlockProcessed_def
  AddShare_def CreateDistribution_def CreatePayment_def UpdatePaymentStatus_def ReplaceBalance_def
  InsertPoolFee_def StorePoolStats_def CleanupOldChartData_def UpdateBlockchainInfo_def
  UpdateLastProcessedHeight_def insert_block_def set_payment_def

lemma snd_exec: "snd (exec args q l) = (if txOpen l \<or> \<not> list_all bindable args then l else snd (q l))"
  by (simp add: exec_def)

section \<open>The invariant of the tables\<close>

definition blocks_wf :: "LedgerDB \<Rightarrow> bool" where
  "blocks_wf l = (distinct (map bfHeight (blocks_found l)) \<and> distinct (map bfHash (blocks_found l)) \<and>
     (\<forall>b \<in> set (blocks_found l). bfStatus b \<in> block_statuses))"

text \<open>An AUTOINCREMENT key: distinct, and below the next one.\<close>

definition ids_below :: "('a \<Rightarrow> u64) \<Rightarrow> 'a list \<Rightarrow> u64 \<Rightarrow> bool" where
  "ids_below f xs n = (distinct (map f xs) \<and> (\<forall>x \<in> set xs. f x < n))"

definition shares_wf :: "LedgerDB \<Rightarrow> bool" where
  "shares_wf l = (ids_below shID (shares l) (nextShareID l) \<and>
     (\<forall>s \<in> set (shares l). bindable (shDifficulty s)))"

definition dists_wf :: "LedgerDB \<Rightarrow> bool" where
  "dists_wf l = (distinct (map (\<lambda>d. (diBlockHeight d, diMinerAddr d)) (distributions l)) \<and>
     ids_below diID (distributions l) (nextDistID l))"

definition tx_unique :: "Payment list \<Rightarrow> bool" where
  "tx_unique ps = (\<forall>p \<in> set ps. \<forall>q \<in> set ps. paTxID p \<noteq> None \<longrightarrow> paTxID p = paTxID q \<longrightarrow> paID p = paID q)"

definition payments_wf :: "LedgerDB \<Rightarrow> bool" where
  "payments_wf l = (ids_below paID (payments l) (nextPaymentID l) \<and>
     (\<forall>p \<in> set (payments l). paStatus p \<in> payment_statuses) \<and>
     tx_unique (payments l))"

definition transfers_wf :: "LedgerDB \<Rightarrow> bool" where
  "transfers_wf l = distinct (map ptTxID (processed_transfers l))"

definition balances_wf :: "LedgerDB \<Rightarrow> bool" where
  "balances_wf l = (distinct (map baMinerAddr (balances l)) \<and>
     (\<forall>b \<in> set (balances l). bindable (baPending b) \<and> bindable (baConfirmed b) \<and> bindable (baTotalPaid b)))"

definition ledger_wf :: "LedgerDB \<Rightarrow> bool" where
  "ledger_wf l = (blocks_wf l \<and> shares_wf l \<and> dists_wf l \<and> payments_wf l \<and> transfers_wf l \<and> balances_wf l)"

lemmas table_wf_defs = blocks_wf_def shares_wf_def dists_wf_def payments_wf_def transfers_wf_def balances_wf_def

lemma bindable_unat: "bindable x \<longleftrightarrow> unat x < 9223372036854775808"
  by (simp add: bindable_def word_less_nat_alt)

lemma bindable_succ: "bindable n \<Longrightarrow> n < n + 1"
  by (simp add: bindable_unat word_less_nat_alt unat_word_ariths)

lemma ids_below_snoc:
  assumes "ids_below f xs n" "bindable n" "f y = n"
  shows "ids_below f (xs @ [y]) (n + 1)"
  using assms bindable_succ [OF assms(2)] by (auto simp: ids_below_def intro: less_trans)

lemma ids_below_filter: "ids_below f xs n \<Longrightarrow> ids_below f (filter P xs) n"
  by (auto simp: ids_below_def distinct_map_filter)

lemma map_key_upd: "(\<And>x. f (g x) = f x) \<Longrightarrow> map f (map g xs) = map f xs"
  by simp

lemma ids_below_upd:
  assumes "\<And>x. f (g x) = f x"
  shows "ids_below f (map g xs) n = ids_below f xs n"
  by (simp add: ids_below_def assms comp_def)

lemma ids_below_empty [simp]: "ids_below f [] n"
  by (simp add: ids_below_def)

text \<open>Only the operations on a table touch it.\<close>

lemma blocks_found_step:
  "blocks_found (ledger_step l e) = (case e of
       OpCreateBlock b \<Rightarrow> if txOpen l \<or> \<not> list_all bindable [bfHeight b, bfRewardTotal b] then blocks_found l
         else blocks_found (insert_block b l)
     | OpAddBlock now b \<Rightarrow> if txOpen l \<or> \<not> list_all bindable [bfHeight b, bfRewardTotal b] then blocks_found l
         else blocks_found (insert_block (b\<lparr>bfFoundAt := now\<rparr>) l)
     | OpMarkBlock now h \<Rightarrow> if txOpen l \<or> \<not> bindable h then blocks_found l
         else map (\<lambda>b. if bfHeight b = h then b\<lparr>bfProcessedAt := Some now, bfStatus := ''completed''\<rparr> else b) (blocks_found l)
     | _ \<Rightarrow> blocks_found l)"
  by (cases e; simp add: ledger_step_def ledger_write_defs snd_exec Let_def split: option.split)

lemma shares_step:
  "shares (ledger_step l e) = shares l \<and> nextShareID (ledger_step l e) = nextShareID l \<or>
   (\<exists>s. e = OpAddShare s \<and> bindable (nextShareID l) \<and> bindable (shDifficulty s) \<and>
     shares (ledger_step l e) = shares l @ [s\<lparr>shID := nextShareID l\<rparr>] \<and>
     nextShareID (ledger_step l e) = nextShareID l + 1)"
  by (cases e; simp add: ledger_step_def ledger_write_defs snd_exec Let_def split: option.split)

lemma dists_step:
  "distributions (ledger_step l e) = distributions l \<and> nextDistID (ledger_step l e) = nextDistID l \<or>
   (\<exists>d. e = OpCreateDistribution d \<and> bindable (nextDistID l) \<and>
     distributions (ledger_step l e) =
       filter (\<lambda>r. \<not> (diBlockHeight r = diBlockHeight d \<and> diMinerAddr r = diMinerAddr d)) (distributions l)
         @ [d\<lparr>diID := nextDistID l\<rparr>] \<and>
     nextDistID (ledger_step l e) = nextDistID l + 1)"
  by (cases e; simp add: ledger_step_def ledger_write_defs snd_exec Let_def split: option.split)

lemma transfers_step:
  "processed_transfers (ledger_step l e) = processed_transfers l \<or>
   (\<exists>now txid h a. e = OpMarkTransfer now txid h a \<and> txid \<notin> ptTxID ` set (processed_transfers l) \<and>
     processed_transfers (ledger_step l e) = processed_transfers l @
       [\<lparr>ptTxID = txid, ptHeight = h, ptAmount = a, ptProcessedAt = now\<rparr>])"
  by (cases e; simp add: ledger_step_def ledger_write_defs snd_exec Let_def list_ex_iff image_iff Bex_def Ball_def
      split: option.split) metis

lemma balances_step:
  "balances (ledger_step l e) = balances l \<or>
   (\<exists>b. e = OpReplaceBalance b \<and> bindable (baPending b) \<and> bindable (baConfirmed b) \<and> bindable (baTotalPaid b) \<and>
     balances (ledger_step l e) = filter (\<lambda>r. baMinerAddr r \<noteq> baMinerAddr b) (balances l) @ [b])"
  by (cases e; simp add: ledger_step_def ledger_write_defs snd_exec Let_def split: option.split)

lemma payments_step:
  "payments (ledger_step l e) = payments l \<and> nextPaymentID (ledger_step l e) = nextPaymentID l \<or>
   (\<exists>p. e = OpCreatePayment p \<and> bindable (nextPaymentID l) \<and> paStatus p \<in> payment_statuses \<and>
     payments (ledger_step l e) = payments l @ [p\<lparr>paID := nextPaymentID l, paTxID := None,
           paSentAt := None, paConfirmedAt := None, paUpdatedAt := None\<rparr>] \<and>
     nextPaymentID (ledger_step l e) = nextPaymentID l + 1) \<or>
   (\<exists>now i st t upd. e = OpUpdatePayment now i st t \<and> ledger_step l e = snd (set_payment i upd l) \<and>
     (\<forall>p. paID (upd p) = paID p))"
proof (cases e)
  case (OpUpdatePayment now i st t)
  then show ?thesis
    by (auto simp: ledger_step_def UpdatePaymentStatus_def snd_exec)
qed (simp_all add: ledger_step_def ledger_write_defs snd_exec Let_def split: option.split)

section \<open>Every operation keeps the invariant\<close>

lemma insert_block_wf: "blocks_wf l \<Longrightarrow> blocks_wf (insert_block b l)"
  by (auto simp: insert_block_def blocks_wf_def list_ex_iff)

lemma mark_block_wf:
  assumes "blocks_wf l"
  shows "blocks_wf (l\<lparr>blocks_found := map (\<lambda>b. if bfHeight b = h
    then b\<lparr>bfProcessedAt := Some now, bfStatus := ''completed''\<rparr> else b) (blocks_found l)\<rparr>)"
    (is "blocks_wf (l\<lparr>blocks_found := map ?g _\<rparr>)")
proof -
  have "map bfHeight (map ?g xs) = map bfHeight xs" "map bfHash (map ?g xs) = map bfHash xs" for xs
    by (rule map_key_upd, simp)+
  then show ?thesis using assms by (auto simp: blocks_wf_def block_statuses_def simp del: map_map)
qed

lemma blocks_wf_step: "blocks_wf l \<Longrightarrow> blocks_wf (ledger_step l e)"
  using insert_block_wf [of l] mark_block_wf [of l]
  by (cases e) (auto simp: blocks_wf_def blocks_found_step)

lemma shares_wf_step: "shares_wf l \<Longrightarrow> shares_wf (ledger_step l e)"
  using shares_step [of l e] by (auto simp: shares_wf_def intro!: ids_below_snoc)

lemma dists_wf_step: "dists_wf l \<Longrightarrow> dists_wf (ledger_step l e)"
  using dists_step [of l e]
  by (auto simp: dists_wf_def distinct_map_filter intro!: ids_below_snoc ids_below_filter)

lemma transfers_wf_step: "transfers_wf l \<Longrightarrow> transfers_wf (ledger_step l e)"
  using transfers_step [of l e] by (auto simp: transfers_wf_def)

lemma balances_wf_step: "balances_wf l \<Longrightarrow> balances_wf (ledger_step l e)"
  using balances_step [of l e] by (auto simp: balances_wf_def distinct_map_filter)

lemma set_payment_wf:
  assumes wf: "payments_wf l" and upd: "\<And>p. paID (upd p) = paID p"
  shows "payments_wf (snd (set_payment i upd l))"
proof (cases "fst (set_payment i upd l) = Ok ()")
  case True
  let ?g = "\<lambda>p. if paID p = i then upd p else p"
  have ids: "ids_below paID (map ?g (payments l)) (nextPaymentID l)"
    using wf upd by (subst ids_below_upd) (auto simp: payments_wf_def)
  have eq: "p = q" if "p \<in> set (payments l)" "q \<in> set (payments l)" "paID p = paID q" for p q
    using wf that by (auto simp: payments_wf_def ids_below_def distinct_map inj_on_def)
  have st: "paStatus (upd p) \<in> payment_statuses"
    and tx: "paTxID (upd p) \<noteq> None \<Longrightarrow> q \<in> set (payments l) \<Longrightarrow> paID q \<noteq> i \<Longrightarrow> paTxID q \<noteq> paTxID (upd p)"
    if "p \<in> set (payments l)" "paID p = i" for p q
    using True that by (fastforce simp: set_payment_def Let_def list_ex_iff split: if_splits)+
  have old: "paID p = paID q"
    if "p \<in> set (payments l)" "q \<in> set (payments l)" "paTxID p \<noteq> None" "paTxID p = paTxID q" for p q
    using wf that unfolding payments_wf_def tx_unique_def by blast
  have uniq: "paID (?g p) = paID (?g q)"
    if pq: "p \<in> set (payments l)" "q \<in> set (payments l)" "paTxID (?g p) \<noteq> None" "paTxID (?g p) = paTxID (?g q)" for p q
  proof -
    consider "paID p = i" "paID q = i" | "paID p = i" "paID q \<noteq> i" | "paID p \<noteq> i" "paID q = i"
      | "paID p \<noteq> i" "paID q \<noteq> i" by blast
    then show ?thesis
    proof cases
      case 1 then show ?thesis by (simp add: upd)
    next
      case 2 with tx [of p q] pq show ?thesis by simp
    next
      case 3 with tx [of q p] pq show ?thesis by simp
    next
      case 4 with old [of p q] pq show ?thesis by simp
    qed
  qed
  have "snd (set_payment i upd l) = l\<lparr>payments := map ?g (payments l)\<rparr>"
    using True by (simp add: set_payment_def Let_def split: if_splits)
  moreover have "\<forall>r \<in> set (map ?g (payments l)). paStatus r \<in> payment_statuses"
    using st wf by (auto simp: payments_wf_def)
  moreover have "tx_unique (map ?g (payments l))"
    unfolding tx_unique_def set_map ball_simps using uniq by blast
  ultimately show ?thesis using ids by (simp add: payments_wf_def)
next
  case False
  then show ?thesis using wf by (auto simp: set_payment_def Let_def split: if_splits)
qed

lemma tx_unique_snoc:
  assumes "tx_unique ps" "paTxID r = None"
  shows "tx_unique (ps @ [r])"
  unfolding tx_unique_def
proof (intro ballI impI)
  fix p q
  assume "p \<in> set (ps @ [r])" "q \<in> set (ps @ [r])" and tx: "paTxID p \<noteq> None" "paTxID p = paTxID q"
  then have "p \<in> set ps" "q \<in> set ps" using assms(2) by force+
  with assms(1) tx show "paID p = paID q" unfolding tx_unique_def by blast
qed

lemma payments_wf_step:
  assumes "payments_wf l"
  shows "payments_wf (ledger_step l e)"
  using payments_step [of l e]
proof (elim disjE exE conjE)
  fix now i st t upd
  assume "ledger_step l e = snd (set_payment i upd l)" "\<forall>p. paID (upd p) = paID p"
  with set_payment_wf [OF assms] show ?thesis by simp
next
  fix p :: Payment
  let ?p = "p\<lparr>paID := nextPaymentID l, paTxID := None, paSentAt := None, paConfirmedAt := None, paUpdatedAt := None\<rparr>"
  assume p: "bindable (nextPaymentID l)" "paStatus p \<in> payment_statuses"
    "payments (ledger_step l e) = payments l @ [?p]" "nextPaymentID (ledger_step l e) = nextPaymentID l + 1"
  have "ids_below paID (payments l @ [?p]) (nextPaymentID l + 1)"
    using assms p(1) by (intro ids_below_snoc) (simp_all add: payments_wf_def)
  moreover have "\<forall>q \<in> set (payments l @ [?p]). paStatus q \<in> payment_statuses"
    using assms p(2) by (simp add: payments_wf_def)
  moreover have "tx_unique (payments l @ [?p])"
    using assms by (intro tx_unique_snoc) (simp_all add: payments_wf_def)
  ultimately show ?thesis by (simp only: payments_wf_def p(3,4) simp_thms)
qed (use assms in \<open>simp add: payments_wf_def\<close>)

interpretation ledgerRun: step_invariant ledger_step "\<lambda>_. True" ledger_wf
  by unfold_locales
    (simp add: ledger_wf_def blocks_wf_step shares_wf_step dists_wf_step payments_wf_step transfers_wf_step balances_wf_step)

lemma NewLedgerDB_wf: "ledger_wf (NewLedgerDB sc)"
  by (simp add: ledger_wf_def table_wf_defs tx_unique_def NewLedgerDB_def)


section \<open>Properties\<close>

text \<open>
  C8: Whatever statements the program sends to a fresh ledger, in whatever order, whether they
  succeed or fail, its tables stay well-formed: block heights and hashes are unique and carry a
  legal status, transfers are recorded once, a miner has one balance and one distribution per
  block, row ids are unique, no two payments share a transaction id, and no difficulty of a share
  and no balance, paid or pending, exceeds a signed 64-bit integer.
\<close>
theorem ledger_stays_wf: "ledger_wf (run ledger_step (NewLedgerDB sc) ops)"
  by (rule ledgerRun.run_keeps) (simp_all add: NewLedgerDB_wf)

text \<open>The parts of a payment that no statement may change.\<close>

definition audit :: "Payment \<Rightarrow> u64 \<times> u64 option \<times> string \<times> u64 \<times> u64 \<times> int" where
  "audit p = (paID p, paBlockHeight p, paRecipientAddr p, paAmount p, paFee p, paCreatedAt p)"

definition extends_trail :: "LedgerDB \<Rightarrow> LedgerDB \<Rightarrow> bool" where
  "extends_trail l l' = ((\<exists>new. map audit (payments l') = map audit (payments l) @ new) \<and>
     (\<exists>new. processed_transfers l' = processed_transfers l @ new))"

lemma set_payment_audit:
  assumes "\<And>p. audit (upd p) = audit p"
  shows "map audit (payments (snd (set_payment i upd l))) = map audit (payments l)"
  using assms by (simp add: set_payment_def Let_def)

lemma payments_trail_step: "\<exists>new. map audit (payments (ledger_step l e)) = map audit (payments l) @ new"
proof (cases e)
  case (OpUpdatePayment now i st t)
  have "map audit (payments (ledger_step l e)) = map audit (payments l)"
    by (simp add: OpUpdatePayment ledger_step_def UpdatePaymentStatus_def snd_exec set_payment_audit audit_def)
  then show ?thesis by simp
qed (simp_all add: ledger_step_def ledger_write_defs snd_exec Let_def split: option.split)

lemma extends_trail_step: "extends_trail l0 l \<Longrightarrow> extends_trail l0 (ledger_step l e)"
  using payments_trail_step [of l e] transfers_step [of l e]
  unfolding extends_trail_def by (metis append.assoc)

interpretation trailRun: step_invariant ledger_step "\<lambda>_. True" "extends_trail l0"
  by unfold_locales (simp add: extends_trail_step)

text \<open>
  C9: The audit trail is append-only. No sequence of statements removes or reorders a payment,
  or changes its id, block, recipient, amount, fee or creation time, and no sequence of
  statements forgets a processed transfer: a transfer that was reported as processed once is
  reported as processed ever after.
\<close>
theorem audit_trail_append_only:
  assumes "IsTransferProcessed txid l = Ok True"
  shows "extends_trail l (run ledger_step l ops) \<and>
    IsTransferProcessed txid (run ledger_step l ops)
      = (if txOpen (run ledger_step l ops) then Blocked else Ok True)"
proof -
  have t: "extends_trail l (run ledger_step l ops)"
    by (rule trailRun.run_keeps) (simp_all add: extends_trail_def)
  moreover have "\<exists>r \<in> set (processed_transfers l). ptTxID r = txid"
    using assms by (auto simp: IsTransferProcessed_def query_def filter_empty_conv split: if_splits)
  ultimately show ?thesis
    by (auto simp: extends_trail_def IsTransferProcessed_def query_def filter_empty_conv)
qed

definition sample_ledger :: LedgerDB where
  "sample_ledger = snd (MarkTransferProcessed 5 ''tx'' 7 100 (NewLedgerDB schema_sql))"

lemma audit_trail_append_only_witness:
  "IsTransferProcessed ''tx'' (run ledger_step sample_ledger [OpSetHeight 7]) = Ok True"
proof -
  have "IsTransferProcessed ''tx'' sample_ledger = Ok True"
    by (simp add: sample_ledger_def IsTransferProcessed_def MarkTransferProcessed_def NewLedgerDB_def
        query_def exec_def bindable_def)
  from audit_trail_append_only [OF this, of "[OpSetHeight 7]"]
  show ?thesis by (simp add: ledger_step_def UpdateLastProcessedHeight_def exec_def sample_ledger_def
      MarkTransferProcessed_def NewLedgerDB_def bindable_def)
qed

text \<open>
  The height up to which transfers were processed survives a restart: what
  \<open>GetLastProcessedHeight\<close> parses from the configuration table is the number
  \<open>UpdateLastProcessedHeight\<close> printed there, for every 64-bit height, and nothing else of the
  ledger changes.
\<close>
theorem last_processed_height_roundtrip:
  assumes "\<not> txOpen l"
  shows "UpdateLastProcessedHeight h l =
      (Ok (), l\<lparr>pool_config := (pool_config l)(''last_processed_height'' \<mapsto> FormatUint h)\<rparr>) \<and>
    GetLastProcessedHeight (snd (UpdateLastProcessedHeight h l)) = Ok h"
  using assms
  by (simp add: UpdateLastProcessedHeight_def GetLastProcessedHeight_def exec_def query_def ParseUint_FormatUint)

lemma last_processed_height_roundtrip_witness:
  "GetLastProcessedHeight (snd (UpdateLastProcessedHeight 18446744073709551615 (NewLedgerDB schema_sql)))
    = Ok 18446744073709551615"
proof -
  have "\<not> txOpen (NewLedgerDB schema_sql)" by (simp add: NewLedgerDB_def)
  from last_processed_height_roundtrip [OF this] show ?thesis by blast
qed

end
