(* ===== verification/Go_Time.thy ===== *)
theory Go_Time
  imports Go_Float "HOL-Library.Signed_Division"
begin

text \<open>
  Go's \<^verbatim>\<open>time\<close>: an instant is its number of nanoseconds since the Unix epoch, a \<open>Duration\<close> a
  signed 64-bit number of nanoseconds. Arithmetic on durations wraps; the difference of two
  instants (\<open>Sub\<close>, \<open>Since\<close>) saturates at the largest and the smallest duration.
\<close>

type_synonym instant = int
type_synonym duration = int

definition i64 :: "int \<Rightarrow> int" where
  "i64 x = (x + 2 ^ 63) mod 2 ^ 64 - 2 ^ 63"

definition time_Sub :: "instant \<Rightarrow> instant \<Rightarrow> duration" where
  "time_Sub t u = max (- (2 ^ 63)) (min (2 ^ 63 - 1) (t - u))"

definition Second :: duration where "Second = 1000000000"
definition Millisecond :: duration where "Millisecond = 1000000"

definition Minutes :: "int \<Rightarrow> duration" where
  "Minutes n = i64 (n * (60 * Second))"

definition Seconds :: "duration \<Rightarrow> f64" where
  "Seconds d = f64_of_int (d sdiv Second) + f64_of_int (d smod Second) / f64_const 1000000000"

definition Milliseconds :: "duration \<Rightarrow> int" where
  "Milliseconds d = d sdiv Millisecond"

text \<open>The zero \<open>time.Time\<close> is midnight of January 1 of the year 1.\<close>

definition zero_time :: instant where
  "zero_time = - 62135596800 * Second"

lemma i64_id: "- (2 ^ 63) \<le> x \<Longrightarrow> x < 2 ^ 63 \<Longrightarrow> i64 x = x"
  by (simp add: i64_def)

lemma i64_range: "- (2 ^ 63) \<le> i64 x \<and> i64 x < 2 ^ 63"
proof -
  have "0 \<le> (x + 2 ^ 63) mod 2 ^ 64" "(x + 2 ^ 63) mod 2 ^ 64 < 2 ^ 64" by simp_all
  then show ?thesis by (simp add: i64_def)
qed

lemma Minutes_small: "0 \<le> n \<Longrightarrow> n \<le> 100000000 \<Longrightarrow> Minutes n = n * 60000000000"
  by (simp add: Minutes_def Second_def i64_id)

lemma time_Sub_small: "\<bar>t - u\<bar> < 2 ^ 63 \<Longrightarrow> time_Sub t u = t - u"
  by (simp add: time_Sub_def)

lemma time_Sub_le: "0 \<le> t - u \<Longrightarrow> time_Sub t u \<le> t - u"
  by (simp add: time_Sub_def)

end
