(* ===== verification/Ledger_Models.thy ===== *)
theory Ledger_Models
  imports Ledger Go_Time
begin

text \<open>
  What \<^verbatim>\<open>src/pkg/ledger/models.go\<close> and \<^verbatim>\<open>src/pkg/ledger/migrate.go\<close> offer beside the statements: the
  methods that mark a block or a payment in memory (they make the same changes as the statements on
  the tables), workers, the top miners, whose view no script creates, and the placeholder of the
  migration.
\<close>

section \<open>Blocks and payments\<close>

definition IsProcessed :: "BlockFound \<Rightarrow> bool" where
  "IsProcessed b = (bfProcessedAt b \<noteq> None)"

definition MarkProcessed :: "int \<Rightarrow> BlockFound \<Rightarrow> BlockFound" where
  "MarkProcessed now b = b\<lparr>bfProcessedAt := Some now, bfStatus := ''completed''\<rparr>"

definition MarkSent :: "int \<Rightarrow> string \<Rightarrow> Payment \<Rightarrow> Payment" where
  "MarkSent now txid p = p\<lparr>paTxID := Some txid, paSentAt := Some now, paStatus := ''sent''\<rparr>"

definition MarkConfirmed :: "int \<Rightarrow> Payment \<Rightarrow> Payment" where
  "MarkConfirmed now p = p\<lparr>paConfirmedAt := Some now, paStatus := ''confirmed''\<rparr>"

section \<open>Workers\<close>

record Worker =
  woID :: u64
  woMinerAddr :: string
  woWorkerID :: string
  woDeviceInfo :: "string option"
  woFirstSeen :: int
  woLastSeen :: int
  woUserAgent :: "string option"
  woIPAddress :: "string option"
  woTotalShares :: u64
  woValidShares :: u64
  woStaleShares :: u64
  woInvalidShares :: u64
  woStatus :: string

definition UpdateLastSeen :: "int \<Rightarrow> Worker \<Rightarrow> Worker" where
  "UpdateLastSeen now w = w\<lparr>woLastSeen := now\<rparr>"

definition IsOnline :: "int \<Rightarrow> Worker \<Rightarrow> bool" where
  "IsOnline now w = (now - woLastSeen w < 300)"

lemma seen_worker_online: "IsOnline t (UpdateLastSeen now w) \<longleftrightarrow> t < now + 300"
  by (auto simp: IsOnline_def UpdateLastSeen_def)

section \<open>Top miners and migration\<close>

record TopMiner =
  toMinerAddr :: string
  toWorkerCount :: int
  toAvgHashrate :: u64
  toTotalShares :: u64
  toCountryName :: "string option"
  toCountryCode :: "string option"

definition GetTopMiners :: "nat \<Rightarrow> LedgerDB \<Rightarrow> TopMiner list res" where
  "GetTopMiners limit = query [] (\<lambda>l. Err (NoSuchTable ''top_miners_24h''))"

record MigrationStats =
  AddressesFound :: int
  BalancesMigrated :: int
  SharesMigrated :: int
  BlocksMigrated :: int
  ErrorsEncountered :: int

definition MigrateFromBoltDB :: "string \<Rightarrow> LedgerDB \<Rightarrow> MigrationStats res \<times> LedgerDB" where
  "MigrateFromBoltDB boltDBPath l =
     (Ok \<lparr>AddressesFound = 0, BalancesMigrated = 0, SharesMigrated = 0, BlocksMigrated = 0, ErrorsEncountered = 0\<rparr>, l)"

text \<open>The number of balances is only logged.\<close>

definition ValidateMigration :: "LedgerDB \<Rightarrow> unit res" where
  "ValidateMigration l = res_bind (query [] (\<lambda>l. Ok (length (balances l))) l) (\<lambda>_. Ok ())"

text \<open>What \<open>DebugStats\<close> logs, at the time \<open>now\<close>. \<open>MIN\<close> over no rows is \<open>NULL\<close>, which does not scan;
  \<open>indexes\<close> are the names and definitions that \<open>sqlite_master\<close> lists.\<close>

datatype debug_line = TotalShares nat | OldestShareAge duration | IndexesHeader | IndexLine string string

definition DebugStats :: "instant \<Rightarrow> (string \<times> string) list \<Rightarrow> LedgerDB \<Rightarrow> debug_line list res" where
  "DebugStats now indexes =
     query [] (\<lambda>l.
       let ts = map shTimestamp (shares l) in
       Ok (TotalShares (length ts) #
           (if ts \<noteq> [] \<and> 0 < Min (set ts) then [OldestShareAge (time_Sub now (Min (set ts) * Second))] else []) @
           IndexesHeader # map (\<lambda>(name, sql). IndexLine name sql) indexes))"

section \<open>The methods and the statements agree\<close>

lemma MarkBlockProcessed_method:
  assumes "MarkBlockProcessed now height l = (Ok (), l')"
  shows "blocks_found l' = map (\<lambda>b. if bfHeight b = height then MarkProcessed now b else b) (blocks_found l)"
proof -
  have "(Ok (), l') = (Ok (), l\<lparr>blocks_found := map (\<lambda>b. if bfHeight b = height
      then b\<lparr>bfProcessedAt := Some now, bfStatus := ''completed''\<rparr> else b) (blocks_found l)\<rparr>)"
    using assms by (simp add: MarkBlockProcessed_def exec_def split: if_split_asm)
  then show ?thesis by (simp add: MarkProcessed_def)
qed

lemma MarkProcessed_IsProcessed: "IsProcessed (MarkProcessed now b)"
  by (simp add: IsProcessed_def MarkProcessed_def)

lemma guarded_write:
  "(if P then (Err e, l) else if Q then (Err f, l) else (Ok (), x)) = (Ok (), l') \<Longrightarrow> l' = x"
  by (simp split: if_split_asm)

lemma set_payment_Ok:
  assumes "set_payment i upd l = (Ok (), l')"
  shows "payments l' = map (\<lambda>p. if paID p = i then upd p else p) (payments l)"
  using guarded_write [OF assms [unfolded set_payment_def Let_def]] by simp

lemma UpdatePaymentStatus_sent:
  assumes "UpdatePaymentStatus now i ''sent'' (Some t) l = (Ok (), l')"
  shows "payments l' = map (\<lambda>p. if paID p = i then (MarkSent now t p)\<lparr>paUpdatedAt := Some now\<rparr> else p) (payments l)"
proof -
  have "set_payment i (\<lambda>p. p\<lparr>paStatus := ''sent'', paTxID := Some t, paSentAt := Some now, paUpdatedAt := Some now\<rparr>) l = (Ok (), l')"
    using assms by (simp add: UpdatePaymentStatus_def exec_def split: if_split_asm)
  from set_payment_Ok [OF this] show ?thesis by (simp add: MarkSent_def)
qed

lemma UpdatePaymentStatus_confirmed:
  assumes "UpdatePaymentStatus now i ''confirmed'' txid l = (Ok (), l')"
  shows "payments l' = map (\<lambda>p. if paID p = i then (MarkConfirmed now p)\<lparr>paUpdatedAt := Some now\<rparr> else p) (payments l)"
proof -
  have "set_payment i (\<lambda>p. p\<lparr>paStatus := ''confirmed'', paConfirmedAt := Some now, paUpdatedAt := Some now\<rparr>) l = (Ok (), l')"
    using assms by (simp add: UpdatePaymentStatus_def exec_def split: if_split_asm)
  from set_payment_Ok [OF this] show ?thesis by (simp add: MarkConfirmed_def)
qed

end
