(* ===== verification/Serializer.thy ===== *)
theory Serializer
  imports Pool_Prelude
begin

text \<open>
  The package \<^verbatim>\<open>serializer\<close> (\<^verbatim>\<open>src/serializer/serializer.go\<close>,
  \<^verbatim>\<open>src/serializer/deserializer.go\<close>): a writer that appends to a byte slice and a reader with
  a sticky error. The routines of Go's \<^verbatim>\<open>encoding/binary\<close> they call (little-endian integers
  and unsigned varints) are modelled as the standard library defines them. The text of an
  error (which starts with the caller's file and line) is modelled by its kind.
\<close>

section \<open>encoding/binary\<close>

definition le_bytes :: "nat \<Rightarrow> 'a::len word \<Rightarrow> byte list" where
  "le_bytes k w = map (\<lambda>i. ucast (drop_bit (8 * i) w)) [0..<k]"

fun le_value :: "byte list \<Rightarrow> 'a::len word" where
  "le_value [] = 0"
| "le_value (b # bs) = ucast b OR push_bit 8 (le_value bs)"

function AppendUvarint :: "byte list \<Rightarrow> u64 \<Rightarrow> byte list" where
  "AppendUvarint buf x =
     (if x < 128 then buf @ [ucast x]
      else AppendUvarint (buf @ [ucast x OR 128]) (drop_bit 7 x))"
  by pat_completeness auto
termination
proof (relation "measure (\<lambda>(buf, x). unat x)")
  fix buf and x :: u64
  assume "\<not> x < 128"
  then have "128 \<le> unat x" by (simp add: word_less_nat_alt)
  then show "((buf @ [ucast x OR 128], drop_bit 7 x), (buf, x)) \<in> measure (\<lambda>(buf, x). unat x)"
    by (simp only: in_measure case_prod_conv unat_drop_bit_eq drop_bit_nat_def) simp
qed simp

declare AppendUvarint.simps [simp del]

text \<open>
  \<open>Uvarint\<close> scans for the last byte of a varint. The second result is the number of bytes
  read, 0 when the buffer ends inside the varint, negative on overflow.
\<close>

fun uvarint_loop :: "nat \<Rightarrow> u64 \<Rightarrow> byte list \<Rightarrow> u64 \<times> int" where
  "uvarint_loop i x [] = (0, 0)"
| "uvarint_loop i x (b # bs) =
     (if i = 10 then (0, - (int i + 1))
      else if b < 128 then
        (if i = 9 \<and> 1 < b then (0, - (int i + 1))
         else (x OR push_bit (7 * i) (ucast b), int i + 1))
      else uvarint_loop (Suc i) (x OR push_bit (7 * i) (ucast (b AND 127))) bs)"

definition Uvarint :: "byte list \<Rightarrow> u64 \<times> int" where
  "Uvarint bs = uvarint_loop 0 0 bs"

definition put_uvarint :: "u64 \<Rightarrow> byte list" where
  "put_uvarint x = AppendUvarint [] x"

lemma AppendUvarint_prefix: "AppendUvarint (pre @ buf) x = pre @ AppendUvarint buf x"
proof (induction buf x rule: AppendUvarint.induct)
  case (1 buf x)
  show ?case
  proof (cases "x < 128")
    case True
    then show ?thesis by (simp add: AppendUvarint.simps)
  next
    case False
    with "1" have "AppendUvarint (pre @ buf @ [ucast x OR 128]) (drop_bit 7 x)
        = pre @ AppendUvarint (buf @ [ucast x OR 128]) (drop_bit 7 x)" by simp
    with False show ?thesis
      by (simp add: AppendUvarint.simps [of "pre @ buf" x] AppendUvarint.simps [of buf x])
  qed
qed

lemma AppendUvarint_put: "AppendUvarint buf x = buf @ put_uvarint x"
  using AppendUvarint_prefix [of buf "[]" x] by (simp add: put_uvarint_def)

lemma put_uvarint_unfold:
  "put_uvarint x = (if x < 128 then [ucast x] else (ucast x OR 128) # put_uvarint (drop_bit 7 x))"
  by (subst put_uvarint_def, subst AppendUvarint.simps) (simp add: AppendUvarint_put)


lemma ucast_or_push:
  "ucast (ucast (drop_bit m w) :: byte) OR push_bit 8 (drop_bit (m + 8) w) = drop_bit m (w::'a::len word)"
proof (rule bit_word_eqI)
  fix n assume "n < LENGTH('a)"
  then show "bit (ucast (ucast (drop_bit m w) :: byte) OR push_bit 8 (drop_bit (m + 8) w)) n
      = bit (drop_bit m w) n"
    by (cases "n < 8") (auto simp: bit_simps not_less)
qed

lemma or128_mask: "(b OR 128 :: byte) AND 127 = take_bit 7 b"
proof -
  have a: "(128 :: byte) = push_bit 7 1" and b: "(127 :: byte) = mask 7" by (simp_all add: mask_eq_exp_minus_1)
  show ?thesis
  proof (rule bit_word_eqI)
    fix n
    have "\<not> bit (push_bit 7 1 :: byte) n" if "n < 7" using that by (simp only: bit_push_bit_iff) simp
    then show "bit ((b OR 128) AND 127) n = bit (take_bit 7 b) n"
      unfolding a b
      by (auto simp only: bit_and_iff bit_or_iff bit_mask_iff bit_take_bit_iff)
        (auto dest: bit_imp_le_length)
  qed
qed

lemma push_bit_split7:
  "push_bit s (ucast (take_bit 7 (ucast (n :: u64) :: byte)) :: u64) OR push_bit (s + 7) (drop_bit 7 n) = push_bit s n"
proof (rule bit_word_eqI)
  fix k assume "k < LENGTH(64)"
  then show "bit (push_bit s (ucast (take_bit 7 (ucast n :: byte)) :: u64)
      OR push_bit (s + 7) (drop_bit 7 n)) k = bit (push_bit s n) k"
    by (cases "k < s + 7") (auto simp: bit_simps not_less)
qed

lemma or128_not_less: "\<not> (b OR 128 :: byte) < 128"
proof
  assume "(b OR 128) < 128"
  then have "unat (b OR 128) < 128" by (simp add: word_less_nat_alt)
  then have "\<not> bit (unat (b OR 128)) 7" by (simp add: bit_nat_def)
  moreover have "bit (b OR 128) 7"
  proof -
    have a: "(128 :: byte) = push_bit 7 1" by simp
    show ?thesis unfolding a by (simp add: bit_simps)
  qed
  ultimately show False by (simp add: bit_unsigned_iff)
qed

lemma ucast_byte_small:
  "x < 128 \<Longrightarrow> (ucast (x::u64) :: byte) < 128 \<and> (ucast (ucast x :: byte) :: u64) = x"
proof -
  assume a: "x < 128"
  then have "unat x < 128" by (simp add: word_less_nat_alt)
  then have "unat (ucast x :: byte) = unat x" by (simp add: unsigned_ucast_eq unsigned_take_bit_eq take_bit_nat_eq_self)
  then show ?thesis using a by (simp add: word_less_nat_alt word_unat_eq_iff unsigned_ucast_eq unsigned_take_bit_eq take_bit_nat_eq_self)
qed

lemma uvarint_loop_put:
  assumes "i < 10" and "unat n < 2 ^ (64 - 7 * i)"
  shows "uvarint_loop i x (put_uvarint n @ rest)
    = (x OR push_bit (7 * i) n, int i + int (length (put_uvarint n)))"
  using assms
proof (induction i x "put_uvarint n" arbitrary: n rule: uvarint_loop.induct)
  case (1 i x) then show ?case by (metis list.distinct(1) put_uvarint_unfold)
next
  case (2 i x b bs)
  show ?case
  proof (cases "n < 128")
    case True
    then have p: "put_uvarint n = [ucast n]" by (simp add: put_uvarint_unfold [of n])
    have "i = 9 \<longrightarrow> \<not> 1 < (ucast n :: byte)"
    proof
      assume "i = 9"
      with 2 have "unat n < 2" by simp
      then show "\<not> 1 < (ucast n :: byte)" by (simp add: word_less_nat_alt unsigned_ucast_eq unsigned_take_bit_eq take_bit_nat_eq_self)
    qed
    then show ?thesis using p ucast_byte_small [OF True] 2 by auto
  next
    case False
    then have p: "put_uvarint n = (ucast n OR 128) # put_uvarint (drop_bit 7 n)" by (subst put_uvarint_unfold) simp
    with 2(2) have b: "b = ucast n OR 128" and bs: "bs = put_uvarint (drop_bit 7 n)" by auto
    have big: "128 \<le> unat n" using False by (simp add: word_less_nat_alt)
    have i9: "i < 9" 
    proof (rule ccontr)
      assume "\<not> i < 9" with 2 have "i = 9" by simp
      with 2 big show False by simp
    qed
    have lt: "unat (drop_bit 7 n) < 2 ^ (64 - 7 * Suc i)"
    proof -
      have "unat n < 128 * 2 ^ (64 - 7 * Suc i)"
      proof -
        have "64 - 7 * i = 7 + (64 - 7 * Suc i)" using i9 by simp
        then have "(2::nat) ^ (64 - 7 * i) = 128 * 2 ^ (64 - 7 * Suc i)" by (simp only: power_add) simp
        with 2 show ?thesis by simp
      qed
      then show ?thesis by (simp only: unat_drop_bit_eq drop_bit_nat_def) (simp add: div_less_iff_less_mult mult.commute)
    qed
    have nb: "\<not> b < 128" "i \<noteq> 10" using or128_not_less b i9 by auto
    have IH: "uvarint_loop (Suc i) (x OR push_bit (7 * i) (ucast (b AND 127))) (put_uvarint (drop_bit 7 n) @ rest) =
       ((x OR push_bit (7 * i) (ucast (b AND 127))) OR push_bit (7 * Suc i) (drop_bit 7 n), int (Suc i) + int (length (put_uvarint (drop_bit 7 n))))"
      using 2(1) [OF nb(2) nb(1) bs] i9 lt by simp
    show ?thesis using IH nb p b push_bit_split7 [of "7 * i" n]
      by (simp add: or128_mask or.assoc add.commute)
  qed
qed

lemma Uvarint_put: "Uvarint (put_uvarint n @ rest) = (n, int (length (put_uvarint n)))"
  using uvarint_loop_put [of 0 n 0 rest] unat_u64_lt [of n] by (simp add: Uvarint_def)

lemma le_value_drop:
  assumes "LENGTH('a) \<le> 8 * k" and "j \<le> k"
  shows "le_value (map (\<lambda>i. ucast (drop_bit (8 * i) w)) [j..<k]) = drop_bit (8 * j) (w :: 'a::len word)"
  using assms(2)
proof (induction rule: inc_induct)
  case base
  show ?case using assms(1) by (simp add: drop_bit_word_beyond)
next
  case (step n)
  then have "[n..<k] = n # [Suc n..<k]" by (simp add: upt_conv_Cons)
  with step.IH show ?case using ucast_or_push [of "8 * n" w] by (simp add: add.commute)
qed

lemma le_value_le_bytes:
  "LENGTH('a) \<le> 8 * k \<Longrightarrow> le_value (le_bytes k (w :: 'a::len word)) = w"
  using le_value_drop [of k 0 w] by (simp add: le_bytes_def)

lemma length_le_bytes [simp]: "length (le_bytes k w) = k"
  by (simp add: le_bytes_def)

lemma put_uvarint_nonempty [simp]: "put_uvarint n \<noteq> []"
  by (subst put_uvarint_unfold) simp

lemma put_uvarint_length [simp]: "0 < length (put_uvarint n)"
  by simp

lemma length_put_uvarint_bits: "unat n < 2 ^ (7 * k) \<Longrightarrow> 0 < k \<Longrightarrow> length (put_uvarint n) \<le> k"
proof (induction k arbitrary: n)
  case (Suc k)
  show ?case
  proof (cases "n < 128")
    case True then show ?thesis by (simp add: put_uvarint_unfold [of n])
  next
    case False
    then have n: "128 \<le> unat n" by (simp add: word_less_nat_alt)
    have "unat (drop_bit 7 n) < 2 ^ (7 * k)"
      using Suc.prems(1) by (simp add: unsigned_drop_bit_eq drop_bit_eq_div unat_div power_add less_mult_imp_div_less mult.commute)
    moreover have "0 < k" using Suc.prems(1) n by (cases k) auto
    ultimately have "length (put_uvarint (drop_bit 7 n)) \<le> k" by (rule Suc.IH)
    with False show ?thesis by (subst put_uvarint_unfold) simp
  qed
qed simp

lemma length_put_uvarint: "length (put_uvarint n) \<le> 10"
proof (rule length_put_uvarint_bits)
  have "unat n < 2 ^ 64" using unsigned_less [of n, where 'a = nat] by simp
  then show "unat n < 2 ^ (7 * 10)" by simp
qed simp
section \<open>The writer\<close>

record Serializer =
  sData :: "byte list"

definition AddUint8 :: "Serializer \<Rightarrow> byte \<Rightarrow> Serializer" where
  "AddUint8 s n = s\<lparr>sData := sData s @ [n]\<rparr>"

definition AddUint16 :: "Serializer \<Rightarrow> u16 \<Rightarrow> Serializer" where
  "AddUint16 s n = s\<lparr>sData := sData s @ le_bytes 2 n\<rparr>"

definition AddUint32 :: "Serializer \<Rightarrow> u32 \<Rightarrow> Serializer" where
  "AddUint32 s n = s\<lparr>sData := sData s @ le_bytes 4 n\<rparr>"

definition AddUint64 :: "Serializer \<Rightarrow> u64 \<Rightarrow> Serializer" where
  "AddUint64 s n = s\<lparr>sData := sData s @ le_bytes 8 n\<rparr>"

definition AddUvarint :: "Serializer \<Rightarrow> u64 \<Rightarrow> Serializer" where
  "AddUvarint s n = s\<lparr>sData := AppendUvarint (sData s) n\<rparr>"

definition AddFixedByteArray :: "Serializer \<Rightarrow> byte list \<Rightarrow> nat \<Rightarrow> Serializer go" where
  "AddFixedByteArray s a n =
     (if length a \<noteq> n then Panic (Explicit ''invalid length'')
      else Ret (s\<lparr>sData := sData s @ a\<rparr>))"

definition AddByteSlice :: "Serializer \<Rightarrow> byte list \<Rightarrow> Serializer" where
  "AddByteSlice s a = s\<lparr>sData := AppendUvarint (sData s) (of_nat (length a)) @ a\<rparr>"

definition AddString :: "Serializer \<Rightarrow> string \<Rightarrow> Serializer" where
  "AddString s a = AddByteSlice s (bytes_of_string a)"

definition AddBigInt :: "Serializer \<Rightarrow> nat \<Rightarrow> Serializer" where
  "AddBigInt s n =
     (let bin = big_Bytes n in s\<lparr>sData := AppendUvarint (sData s) (of_nat (length bin)) @ bin\<rparr>)"

definition AddBool :: "Serializer \<Rightarrow> bool \<Rightarrow> Serializer" where
  "AddBool s b = (if b then s\<lparr>sData := sData s @ [1]\<rparr> else s\<lparr>sData := sData s @ [0]\<rparr>)"

section \<open>The reader\<close>

datatype deser_error =
    InvalidLength
  | InvalidUvarint
  | InvalidUvarintLength
  | InvalidBinaryLength
  | InvalidBooleanValue

record Deserializer =
  Data :: "byte list"
  Error :: "deser_error option"

definition ReadUint8 :: "Deserializer \<Rightarrow> byte \<times> Deserializer" where
  "ReadUint8 s =
     (if Error s \<noteq> None then (0, s)
      else if length (Data s) < 1 then (0, s\<lparr>Error := Some InvalidLength\<rparr>)
      else (hd (Data s), s\<lparr>Data := drop 1 (Data s)\<rparr>))"

definition ReadUint16 :: "Deserializer \<Rightarrow> u16 \<times> Deserializer" where
  "ReadUint16 s =
     (if Error s \<noteq> None then (0, s)
      else if length (Data s) < 2 then (0, s\<lparr>Error := Some InvalidLength\<rparr>)
      else (le_value (take 2 (Data s)), s\<lparr>Data := drop 2 (Data s)\<rparr>))"

definition ReadUint32 :: "Deserializer \<Rightarrow> u32 \<times> Deserializer" where
  "ReadUint32 s =
     (if Error s \<noteq> None then (0, s)
      else if length (Data s) < 4 then (0, s\<lparr>Error := Some InvalidLength\<rparr>)
      else (le_value (take 4 (Data s)), s\<lparr>Data := drop 4 (Data s)\<rparr>))"

definition ReadUint64 :: "Deserializer \<Rightarrow> u64 \<times> Deserializer" where
  "ReadUint64 s =
     (if Error s \<noteq> None then (0, s)
      else if length (Data s) < 8 then (0, s\<lparr>Error := Some InvalidLength\<rparr>)
      else (le_value (take 8 (Data s)), s\<lparr>Data := drop 8 (Data s)\<rparr>))"

text \<open>The code tests \<open>x < 0\<close>, so a varint cut off by the end of the buffer (\<open>x = 0\<close>)
  reads as 0 and consumes nothing.\<close>

definition ReadUvarint :: "Deserializer \<Rightarrow> u64 \<times> Deserializer" where
  "ReadUvarint s =
     (if Error s \<noteq> None then (0, s)
      else if length (Data s) < 1 then (0, s\<lparr>Error := Some InvalidLength\<rparr>)
      else (case Uvarint (Data s) of (d, x) \<Rightarrow>
        if x < 0 then (0, s\<lparr>Error := Some InvalidUvarint\<rparr>)
        else (d, s\<lparr>Data := drop (nat x) (Data s)\<rparr>)))"

definition ReadFixedByteArray :: "Deserializer \<Rightarrow> nat \<Rightarrow> byte list \<times> Deserializer" where
  "ReadFixedByteArray s n =
     (if Error s \<noteq> None then ([], s)
      else if length (Data s) < n then ([], s\<lparr>Error := Some InvalidLength\<rparr>)
      else (take n (Data s), s\<lparr>Data := drop n (Data s)\<rparr>))"

text \<open>
  The length is compared after the conversion \<open>int(length)\<close>, which is negative from
  \<open>2 ^ 63\<close> on; the slice expression then takes the unsigned value, out of any bounds.
\<close>

definition ReadByteSlice :: "Deserializer \<Rightarrow> (byte list \<times> Deserializer) go" where
  "ReadByteSlice s =
     (if Error s \<noteq> None then Ret ([], s)
      else if length (Data s) < 1 then Ret ([], s\<lparr>Error := Some InvalidLength\<rparr>)
      else (case Uvarint (Data s) of (len, rd) \<Rightarrow>
        if rd < 0 then Ret ([], s\<lparr>Error := Some InvalidUvarintLength\<rparr>)
        else (let s' = s\<lparr>Data := drop (nat rd) (Data s)\<rparr> in
          if int (length (Data s')) < sint len then Ret ([], s'\<lparr>Error := Some InvalidBinaryLength\<rparr>)
          else if length (Data s') < unat len then Panic SliceBoundsOutOfRange
          else Ret (take (unat len) (Data s'), s'\<lparr>Data := drop (unat len) (Data s')\<rparr>))))"

definition ReadString :: "Deserializer \<Rightarrow> (string \<times> Deserializer) go" where
  "ReadString s = go_map (\<lambda>(b, s'). (string_of_bytes b, s')) (ReadByteSlice s)"

definition ReadBool :: "Deserializer \<Rightarrow> bool \<times> Deserializer" where
  "ReadBool s =
     (if Error s \<noteq> None then (False, s)
      else if length (Data s) < 1 then (False, s\<lparr>Error := Some InvalidLength\<rparr>)
      else (let b = hd (Data s); s' = s\<lparr>Data := drop 1 (Data s)\<rparr> in
        if b = 1 then (True, s')
        else if b = 0 then (False, s')
        else (False, s'\<lparr>Error := Some InvalidBooleanValue\<rparr>)))"

lemmas writer_defs = AddUint8_def AddUint16_def AddUint32_def AddUint64_def AddUvarint_def
  AddByteSlice_def AddString_def AddBigInt_def AddBool_def

lemmas reader_defs = ReadUint8_def ReadUint16_def ReadUint32_def ReadUint64_def ReadUvarint_def
  ReadFixedByteArray_def ReadByteSlice_def ReadString_def ReadBool_def


section \<open>Codecs: a writer and the reader that inverts it\<close>

text \<open>
  The interface the record formats rely on. \<open>get\<close> is a reader in the panic monad,
  \<open>put\<close> the bytes the matching writer appends; the law says that reading what was
  written returns the value and leaves the reader just behind it, without an error.
\<close>

locale codec =
  fixes put :: "'a \<Rightarrow> byte list"
    and get :: "Deserializer \<Rightarrow> ('a \<times> Deserializer) go"
    and valid :: "'a \<Rightarrow> bool"
  assumes get_put:
    "valid x \<Longrightarrow> get \<lparr>Data = put x @ rest, Error = None\<rparr> = Ret (x, \<lparr>Data = rest, Error = None\<rparr>)"
begin

lemma put_prefix_free:
  assumes "valid x" "valid y" "put x @ r = put y @ r'"
  shows "x = y \<and> r = r'"
proof -
  have "get \<lparr>Data = put x @ r, Error = None\<rparr> = get \<lparr>Data = put y @ r', Error = None\<rparr>"
    by (simp only: assms(3))
  then show ?thesis by (simp add: get_put assms(1,2))
qed

lemma put_inj: "valid x \<Longrightarrow> valid y \<Longrightarrow> put x = put y \<Longrightarrow> x = y"
  using put_prefix_free [of x y "[]" "[]"] by simp

end

text \<open>Reading a counted sequence, as the loops of the record formats do.\<close>

fun read_n :: "(Deserializer \<Rightarrow> ('a \<times> Deserializer) go) \<Rightarrow> nat \<Rightarrow> Deserializer \<Rightarrow> ('a list \<times> Deserializer) go" where
  "read_n get 0 d = Ret ([], d)"
| "read_n get (Suc n) d =
     go_bind (get d) (\<lambda>(x, d'). go_bind (read_n get n d') (\<lambda>(xs, d''). Ret (x # xs, d'')))"

context codec
begin

lemma read_n_put:
  assumes "\<forall>x \<in> set xs. valid x"
  shows "read_n get (length xs) \<lparr>Data = concat (map put xs) @ rest, Error = None\<rparr>
    = Ret (xs, \<lparr>Data = rest, Error = None\<rparr>)"
  using assms by (induction xs) (auto simp: get_put)

end

text \<open>Two codecs in sequence are a codec for pairs.\<close>

definition get_pair ::
  "(Deserializer \<Rightarrow> ('a \<times> Deserializer) go) \<Rightarrow> (Deserializer \<Rightarrow> ('b \<times> Deserializer) go)
   \<Rightarrow> Deserializer \<Rightarrow> (('a \<times> 'b) \<times> Deserializer) go" where
  "get_pair getA getB d = go_bind (getA d) (\<lambda>(a, d'). go_bind (getB d') (\<lambda>(b, d''). Ret ((a, b), d'')))"

locale codec_pair = fst: codec putA getA validA + snd: codec putB getB validB
  for putA :: "'a \<Rightarrow> byte list" and getA and validA
  and putB :: "'b \<Rightarrow> byte list" and getB and validB

sublocale codec_pair \<subseteq> pair: codec "\<lambda>(a, b). putA a @ putB b" "get_pair getA getB" "\<lambda>(a, b). validA a \<and> validB b"
  by unfold_locales (auto simp: get_pair_def fst.get_put snd.get_put)

text \<open>The bytes each writer appends.\<close>

definition put_bytes :: "byte list \<Rightarrow> byte list" where
  "put_bytes a = put_uvarint (of_nat (length a)) @ a"

definition put_string :: "string \<Rightarrow> byte list" where
  "put_string a = put_bytes (bytes_of_string a)"

lemma writer_appends [codec_simps]:
  "AddUint8 s n = s\<lparr>sData := sData s @ [n]\<rparr>"
  "AddUint64 s m = s\<lparr>sData := sData s @ le_bytes 8 m\<rparr>"
  "AddUvarint s k = s\<lparr>sData := sData s @ put_uvarint k\<rparr>"
  "AddByteSlice s a = s\<lparr>sData := sData s @ put_bytes a\<rparr>"
  "AddString s t = s\<lparr>sData := sData s @ put_string t\<rparr>"
  "AddBool s b = s\<lparr>sData := sData s @ [if b then 1 else 0]\<rparr>"
  by (simp_all add: writer_defs AppendUvarint_put put_bytes_def put_string_def)

lemma sint_of_nat_u64: "n < 9223372036854775808 \<Longrightarrow> sint (of_nat n :: u64) = int n"
  by (simp add: signed_of_nat signed_take_bit_int_eq_self)

interpretation u8: codec "\<lambda>n. [n]" "\<lambda>d. Ret (ReadUint8 d)" "\<lambda>_. True"
  by unfold_locales (simp add: ReadUint8_def)

interpretation u16: codec "le_bytes 2 :: u16 \<Rightarrow> _" "\<lambda>d. Ret (ReadUint16 d)" "\<lambda>_. True"
  by unfold_locales (simp add: ReadUint16_def le_value_le_bytes)

interpretation u32: codec "le_bytes 4 :: u32 \<Rightarrow> _" "\<lambda>d. Ret (ReadUint32 d)" "\<lambda>_. True"
  by unfold_locales (simp add: ReadUint32_def le_value_le_bytes)

interpretation u64: codec "le_bytes 8 :: u64 \<Rightarrow> _" "\<lambda>d. Ret (ReadUint64 d)" "\<lambda>_. True"
  by unfold_locales (simp add: ReadUint64_def le_value_le_bytes)

interpretation uvarint: codec put_uvarint "\<lambda>d. Ret (ReadUvarint d)" "\<lambda>_. True"
  by unfold_locales (simp add: ReadUvarint_def Uvarint_put Suc_le_eq)

interpretation bool: codec "\<lambda>b. [if b then 1 else 0]" "\<lambda>d. Ret (ReadBool d)" "\<lambda>_. True"
  by unfold_locales (simp add: ReadBool_def)

interpretation bytes: codec put_bytes ReadByteSlice "\<lambda>a. length a < 9223372036854775808"
  by unfold_locales
    (simp add: ReadByteSlice_def put_bytes_def Uvarint_put sint_of_nat_u64 Suc_le_eq)

interpretation str: codec put_string ReadString "\<lambda>a. length a < 9223372036854775808"
  by unfold_locales (simp add: ReadString_def put_string_def bytes.get_put)

interpretation fixed: codec id "\<lambda>d. Ret (ReadFixedByteArray d n)" "\<lambda>a. length a = n"
  by unfold_locales (simp add: ReadFixedByteArray_def)

text \<open>The laws in the shape the record proofs rewrite with.\<close>

lemma ReadUint8_put [codec_simps]:
  "ReadUint8 \<lparr>Data = n # rest, Error = None\<rparr> = (n, \<lparr>Data = rest, Error = None\<rparr>)"
  using u8.get_put [of n rest] by simp

lemma ReadUint64_put [codec_simps]:
  "ReadUint64 \<lparr>Data = le_bytes 8 w @ rest, Error = None\<rparr> = (w, \<lparr>Data = rest, Error = None\<rparr>)"
  "ReadUint64 \<lparr>Data = le_bytes 8 w, Error = None\<rparr> = (w, \<lparr>Data = [], Error = None\<rparr>)"
  using u64.get_put [of w rest] u64.get_put [of w "[]"] by simp_all

lemma ReadUvarint_put [codec_simps]:
  "ReadUvarint \<lparr>Data = put_uvarint n @ rest, Error = None\<rparr> = (n, \<lparr>Data = rest, Error = None\<rparr>)"
  "ReadUvarint \<lparr>Data = put_uvarint n, Error = None\<rparr> = (n, \<lparr>Data = [], Error = None\<rparr>)"
  using uvarint.get_put [of n rest] uvarint.get_put [of n "[]"] by simp_all

lemma ReadBool_put [codec_simps]:
  "ReadBool \<lparr>Data = (if b then 1 else 0) # rest, Error = None\<rparr> = (b, \<lparr>Data = rest, Error = None\<rparr>)"
  using bool.get_put [of b rest] by simp

lemma ReadFixedByteArray_put [codec_simps]:
  "length a = n \<Longrightarrow>
   ReadFixedByteArray \<lparr>Data = a @ rest, Error = None\<rparr> n = (a, \<lparr>Data = rest, Error = None\<rparr>)"
  using fixed.get_put [of a n rest] by simp

lemma ReadString_put [codec_simps]:
  "length a < 9223372036854775808 \<Longrightarrow>
   ReadString \<lparr>Data = put_string a @ rest, Error = None\<rparr> = Ret (a, \<lparr>Data = rest, Error = None\<rparr>)"
  by (rule str.get_put)

text \<open>How many bytes a varint read accounts for: at least one, unless the buffer ended inside it,
  which takes at most ten bytes.\<close>

lemma uvarint_loop_count:
  assumes "i \<le> 10" "uvarint_loop i x bs = (v, n)"
  shows "n < 0 \<or> int i < n \<and> n \<le> int (i + length bs) \<or> n = 0 \<and> i + length bs \<le> 10"
  using assms by (induction i x bs rule: uvarint_loop.induct) (auto split: if_splits)

lemma Uvarint_count:
  "Uvarint bs = (v, n) \<Longrightarrow> n < 0 \<or> 0 < n \<and> n \<le> int (length bs) \<or> n = 0 \<and> length bs \<le> 10"
  using uvarint_loop_count [of 0 0 bs v n] by (simp add: Uvarint_def)

text \<open>After an error every reader returns its zero value and leaves the reader alone.\<close>

lemma sticky_error [simp]:
  assumes "Error d \<noteq> None"
  shows "ReadUint8 d = (0, d)" "ReadUint16 d = (0, d)" "ReadUint32 d = (0, d)"
    "ReadUint64 d = (0, d)" "ReadUvarint d = (0, d)" "ReadFixedByteArray d n = ([], d)"
    "ReadByteSlice d = Ret ([], d)" "ReadString d = Ret ([], d)" "ReadBool d = (False, d)"
  using assms by (simp_all add: reader_defs string_of_bytes_def)


section \<open>Properties\<close>

lemma sint_u64:
  "sint (x :: u64) = (if unat x < 9223372036854775808 then int (unat x)
     else int (unat x) - 18446744073709551616)"
proof -
  have x: "sint x = sint (of_nat (unat x) :: u64)" by (simp add: of_nat_unat)
  show ?thesis
  proof (cases "unat x < 9223372036854775808")
    case True
    with x show ?thesis by (simp add: sint_of_nat_u64)
  next
    case False
    have "sint x = signed_take_bit 63 (int (unat x))" by (subst x) (simp add: signed_of_nat)
    also have "\<dots> = (int (unat x) + 9223372036854775808) mod 18446744073709551616 - 9223372036854775808"
      by (simp add: signed_take_bit_eq_take_bit_shift take_bit_eq_mod)
    also have "(int (unat x) + 9223372036854775808) mod 18446744073709551616
        = (int (unat x) - 9223372036854775808) mod 18446744073709551616"
      using mod_add_self2 [of "int (unat x) - 9223372036854775808" 18446744073709551616] by (simp add: add.commute)
    also have "\<dots> = int (unat x) - 9223372036854775808"
      using False unat_u64_lt [of x] by (intro mod_pos_pos_trivial) auto
    finally show ?thesis using False by simp
  qed
qed

text \<open>
  A byte slice or string read panics exactly when no error is pending, the buffer is not
  empty and the length prefix, a complete varint, is at least \<open>2 ^ 63\<close>: the only
  reader of the package that a malformed message can make panic.
\<close>
theorem ReadByteSlice_panics_iff:
  assumes "length (Data d) < 9223372036854775808"
  shows "ReadByteSlice d = Panic p \<longleftrightarrow>
    Error d = None \<and> Data d \<noteq> [] \<and> 0 \<le> snd (Uvarint (Data d)) \<and>
    9223372036854775808 \<le> unat (fst (Uvarint (Data d))) \<and> p = SliceBoundsOutOfRange"
proof -
  obtain len rd where u: "Uvarint (Data d) = (len, rd)" by (cases "Uvarint (Data d)")
  show ?thesis
    using assms unat_u64_lt [of len] by (auto simp: ReadByteSlice_def u Let_def sint_u64 Suc_le_eq)
qed

lemma ReadByteSlice_panics_iff_witness:
  "length (Data \<lparr>Data = replicate 9 128 @ [1], Error = None\<rparr>) < 9223372036854775808 \<and>
   ReadByteSlice \<lparr>Data = replicate 9 128 @ [1], Error = None\<rparr> = Panic SliceBoundsOutOfRange"
proof -
  have "Uvarint (replicate 9 128 @ [1]) = (9223372036854775808, 10)" by code_simp
  then show ?thesis
    using ReadByteSlice_panics_iff [of "\<lparr>Data = replicate 9 128 @ [1], Error = None\<rparr>" SliceBoundsOutOfRange]
    by simp
qed

text \<open>
  The fields of a message are read back in the order they were written: reading with the
  six readers what the six writers appended to any prefix returns the values, whatever
  follows, and no error is raised.
\<close>
theorem fields_roundtrip:
  assumes "length t < 9223372036854775808" "length a < 9223372036854775808"
  shows "\<exists>out. sData (AddBool (AddByteSlice (AddString (AddUvarint (AddUint64 (AddUint8 s n) m) k) t) a) b)
      = sData s @ out \<and>
    (case ReadUint8 \<lparr>Data = out @ rest, Error = None\<rparr> of (n', d1) \<Rightarrow>
     case ReadUint64 d1 of (m', d2) \<Rightarrow> case ReadUvarint d2 of (k', d3) \<Rightarrow>
     go_bind (ReadString d3) (\<lambda>(t', d4). go_bind (ReadByteSlice d4) (\<lambda>(a', d5).
       case ReadBool d5 of (b', d6) \<Rightarrow> Ret (n', m', k', t', a', b', d6))))
    = Ret (n, m, k, t, a, b, \<lparr>Data = rest, Error = None\<rparr>)"
  by (rule exI [of _ "[n] @ le_bytes 8 m @ put_uvarint k @ put_string t @ put_bytes a @ [if b then 1 else 0]"])
    (use assms in \<open>simp add: codec_simps bytes.get_put\<close>)

lemma fields_roundtrip_witness:
  "\<exists>out. sData (AddBool (AddByteSlice (AddString (AddUvarint (AddUint64 (AddUint8 \<lparr>sData = []\<rparr> 7) 9) 300) ''w'') [1, 2]) True)
      = out \<and>
    (case ReadUint8 \<lparr>Data = out @ [5], Error = None\<rparr> of (n', d1) \<Rightarrow>
     case ReadUint64 d1 of (m', d2) \<Rightarrow> case ReadUvarint d2 of (k', d3) \<Rightarrow>
     go_bind (ReadString d3) (\<lambda>(t', d4). go_bind (ReadByteSlice d4) (\<lambda>(a', d5).
       case ReadBool d5 of (b', d6) \<Rightarrow> Ret (n', m', k', t', a', b', d6))))
    = Ret (7, 9, 300, ''w'', [1, 2], True, \<lparr>Data = [5], Error = None\<rparr>)"
  using fields_roundtrip [of "''w''" "[1, 2]" "\<lparr>sData = []\<rparr>" 7 9 300 True "[5]"] by simp

end
