(* ===== verification/Template.thy ===== *)
theory Template
  imports Go_Text Serializer
begin

text \<open>
  \<^verbatim>\<open>src/template/template.go\<close>: conversions between difficulties, targets and hashes. A
  difficulty \<open>d\<close> is sent to a miner as the target \<open>(2 ^ 32 - 1) div d\<close>; a hash, read as a
  little-endian number, has the difficulty \<open>(2 ^ 256 - 1) div hash\<close>.
\<close>

section \<open>Slices\<close>

text \<open>\<open>reverse\<close> swaps in place; \<open>reverse2\<close> writes into a fresh zeroed slice and, as its loop
  stops before the two indices meet, never writes the middle byte of an odd-length slice.\<close>

function reverse_loop :: "byte list \<Rightarrow> nat \<Rightarrow> nat \<Rightarrow> byte list" where
  "reverse_loop b i j =
     (if i < j then reverse_loop (b[i := b ! j, j := b ! i]) (i + 1) (j - 1) else b)"
  by pat_completeness auto
termination
  by (relation "measure (\<lambda>(b, i, j). j)") auto

definition reverse :: "byte list \<Rightarrow> byte list" where
  "reverse b = (if b = [] then [] else reverse_loop b 0 (length b - 1))"

function reverse2_loop :: "byte list \<Rightarrow> byte list \<Rightarrow> nat \<Rightarrow> nat \<Rightarrow> byte list" where
  "reverse2_loop b c i j =
     (if i < j then reverse2_loop b (c[i := b ! j, j := b ! i]) (i + 1) (j - 1) else c)"
  by pat_completeness auto
termination
  by (relation "measure (\<lambda>(b, c, i, j). j)") auto

definition reverse2 :: "byte list \<Rightarrow> byte list" where
  "reverse2 b = (if b = [] then [] else reverse2_loop b (replicate (length b) 0) 0 (length b - 1))"

declare reverse_loop.simps [simp del] reverse2_loop.simps [simp del]

section \<open>Difficulty and target\<close>

definition pad4 :: "byte list \<Rightarrow> byte list" where
  "pad4 buf = buf @ replicate (4 - length buf) 0"

definition DiffToShortTarget :: "u64 \<Rightarrow> string" where
  "DiffToShortTarget d =
     (if d = 0 then ''ffffffff''
      else hex_EncodeToString (pad4 (reverse (big_Bytes (4294967295 div unat d)))))"

definition DiffToTarget :: "u64 \<Rightarrow> byte list" where
  "DiffToTarget d =
     (if d = 0 then replicate 8 255
      else pad4 (reverse (big_Bytes (18446744073709551615 div unat d))))"

definition maxTarget :: nat where
  "maxTarget = 2 ^ 256 - 1"

text \<open>
  \<open>diff.Int64() == 0\<close> tests the low 64 bits of the number. A quotient that does not fit
  a \<open>uint64\<close> panics.
\<close>

definition HashToDiff :: "byte list \<Rightarrow> u64 go" where
  "HashToDiff hash =
     (let diff = big_SetBytes (reverse2 hash) in
      if diff mod 2 ^ 64 = 0 then Ret 0
      else let q = maxTarget div diff in
        if q < 2 ^ 64 then Ret (of_nat q)
        else Panic (Explicit ''THIS SHOULD NEVER HAPPEN''))"

definition ShortDiffToDiff :: "byte list \<Rightarrow> u64 go" where
  "ShortDiffToDiff shortDiff =
     (if length shortDiff \<noteq> 4 then Panic (Fatal ''short diff length is not 4'')
      else let diff = ucast (le_value shortDiff :: u32) :: u64 in
        if diff = 0 then Ret 0 else Ret (4294967295 div diff))"

definition MidDiffToDiff :: "byte list \<Rightarrow> u64 go" where
  "MidDiffToDiff midDiff =
     (if length midDiff \<noteq> 8 then Panic (Fatal ''mid diff length is not 8'')
      else let diff = (le_value midDiff :: u64) in
        if diff = 0 then Ret 0 else Ret (18446744073709551615 div diff))"

section \<open>The loops reverse\<close>

lemma length_reverse_loop [simp]: "length (reverse_loop b i j) = length b"
  by (induction b i j rule: reverse_loop.induct) (subst reverse_loop.simps, simp)

lemma nth_reverse_loop:
  assumes "i + j + 1 = length b" "k < length b"
  shows "reverse_loop b i j ! k = (if i \<le> k \<and> k \<le> j then b ! (length b - 1 - k) else b ! k)"
  using assms
proof (induction b i j rule: reverse_loop.induct)
  case (1 b i j)
  show ?case
  proof (cases "i < j")
    case True
    let ?b = "b[i := b ! j, j := b ! i]"
    have "reverse_loop ?b (i + 1) (j - 1) ! k
        = (if i + 1 \<le> k \<and> k \<le> j - 1 then ?b ! (length ?b - 1 - k) else ?b ! k)"
      using "1" True by simp
    moreover have "i < length b" "j < length b" "j = length b - 1 - i" using "1.prems" by auto
    ultimately show ?thesis using True "1.prems"
      by (subst reverse_loop.simps) (auto simp: nth_list_update)
  next
    case False
    then show ?thesis using "1.prems" by (subst reverse_loop.simps) (auto intro!: arg_cong [where f = "nth b"])
  qed
qed

lemma reverse_rev: "reverse b = rev b"
proof (cases "b = []")
  case False
  then show ?thesis
    by (intro nth_equalityI) (auto simp: reverse_def nth_reverse_loop rev_nth)
qed (simp add: reverse_def)


lemma length_reverse2_loop [simp]: "length (reverse2_loop b c i j) = length c"
  by (induction b c i j rule: reverse2_loop.induct) (subst reverse2_loop.simps, simp)

lemma nth_reverse2_loop:
  assumes "i + j + 1 = length b" "length c = length b" "k < length b"
  shows "reverse2_loop b c i j ! k
    = (if i \<le> k \<and> k \<le> j \<and> 2 * k + 1 \<noteq> length b then b ! (length b - 1 - k) else c ! k)"
  using assms
proof (induction b c i j rule: reverse2_loop.induct)
  case (1 b c i j)
  show ?case
  proof (cases "i < j")
    case True
    let ?c = "c[i := b ! j, j := b ! i]"
    have "reverse2_loop b ?c (i + 1) (j - 1) ! k
        = (if i + 1 \<le> k \<and> k \<le> j - 1 \<and> 2 * k + 1 \<noteq> length b then b ! (length b - 1 - k) else ?c ! k)"
      using "1" True by simp
    moreover have "i < length b" "j < length b" "j = length b - 1 - i" using "1.prems" by auto
    ultimately show ?thesis using True "1.prems"
      by (subst reverse2_loop.simps) (auto simp: nth_list_update)
  next
    case False
    then show ?thesis using "1.prems" by (subst reverse2_loop.simps) auto
  qed
qed

lemma reverse2_rev:
  assumes "even (length b)"
  shows "reverse2 b = rev b"
proof (cases "b = []")
  case False
  have odd: "Suc (2 * k) \<noteq> length b" for k using assms by presburger
  show ?thesis
    using False by (intro nth_equalityI) (auto simp: reverse2_def nth_reverse2_loop rev_nth odd)
qed (simp add: reverse2_def)

section \<open>The difficulty of a hash\<close>

lemma big_SetBytes_reverse2: "even (length h) \<Longrightarrow> big_SetBytes (reverse2 h) = le_nat h"
  by (simp add: big_SetBytes_def reverse2_rev)

lemma maxTarget_div_small: "0 < v \<Longrightarrow> maxTarget div v < 2 ^ 64 \<longleftrightarrow> 2 ^ 192 \<le> v"
  by (simp add: maxTarget_def div_less_iff_less_mult) linarith

text \<open>
  C38: \<open>HashToDiff\<close> on a 32-byte hash, on every branch: the difficulty is the integer quotient
  of the maximal target by the hash read as a little-endian number; a hash whose low eight
  bytes are zero counts as difficulty 0; and a hash below \<open>2 ^ 192\<close> with some non-zero low byte
  panics, because its difficulty does not fit 64 bits.
\<close>
theorem HashToDiff_spec:
  assumes "length hash = 32"
  shows "HashToDiff hash =
    (let v = le_nat hash in
     if v mod 2 ^ 64 = 0 then Ret 0
     else if v < 2 ^ 192 then Panic (Explicit ''THIS SHOULD NEVER HAPPEN'')
     else Ret (of_nat (maxTarget div v)))"
proof -
  have v: "big_SetBytes (reverse2 hash) = le_nat hash" using assms by (simp add: big_SetBytes_reverse2)
  show ?thesis
  proof (cases "le_nat hash mod 2 ^ 64 = 0")
    case False
    then have "0 < le_nat hash" by (auto intro: gr0I)
    from maxTarget_div_small [OF this] False show ?thesis
      by (simp add: HashToDiff_def v Let_def not_less del: of_nat_power)
  qed (simp add: HashToDiff_def v)
qed

lemma HashToDiff_spec_witness:
  "length (1 # replicate 31 (0::byte)) = 32 \<and>
   HashToDiff (1 # replicate 31 0) = Panic (Explicit ''THIS SHOULD NEVER HAPPEN'')"
  using HashToDiff_spec [of "1 # replicate 31 0"] by simp

section \<open>Targets sent to miners\<close>

lemma length_pad4: "length b \<le> 4 \<Longrightarrow> length (pad4 b) = 4"
  by (simp add: pad4_def)

lemma le_nat_pad4 [simp]: "le_nat (pad4 b) = le_nat b"
  by (simp add: pad4_def le_nat_append)

lemma unat_le_value:
  assumes "8 * length bs \<le> LENGTH('a)"
  shows "unat (le_value bs :: 'a::len word) = le_nat bs"
  using assms
proof (induction bs)
  case (Cons b bs)
  let ?r = "le_value bs :: 'a word"
  have IH: "unat ?r = le_nat bs" using Cons by simp
  have lt: "unat b + 256 * le_nat bs < 2 ^ LENGTH('a)"
  proof -
    have "le_nat (b # bs) < 256 ^ length (b # bs)" by (rule le_nat_lt)
    also have "\<dots> = 2 ^ (8 * length (b # bs))" by (simp only: power_mult) simp
    also have "\<dots> \<le> 2 ^ LENGTH('a)" using Cons.prems by (intro power_increasing) auto
    finally show ?thesis by simp
  qed
  have b8: "unat (ucast b :: 'a word) = unat b"
  proof -
    have "2 ^ 8 \<le> (2 :: nat) ^ LENGTH('a)" using Cons.prems by (intro power_increasing) auto
    then have "unat b < 2 ^ LENGTH('a)" using unat_byte_lt [of b] by simp
    then show ?thesis by (simp add: unsigned_ucast_eq take_bit_nat_eq_self)
  qed
  have "(ucast b :: 'a word) AND push_bit 8 ?r = 0"
    by (rule bit_word_eqI) (auto simp: bit_simps dest: bit_imp_le_length)
  then have "le_value (b # bs) = (ucast b :: 'a word) + push_bit 8 ?r"
    by (simp add: disjunctive_add_eq_or)
  also have "push_bit 8 ?r = of_nat (256 * le_nat bs)"
    by (simp add: push_bit_eq_mult flip: IH) (simp add: of_nat_unat)
  also have "(ucast b :: 'a word) = of_nat (unat b)" by (simp flip: b8) (simp add: of_nat_unat)
  finally have "le_value (b # bs) = (of_nat (unat b + 256 * le_nat bs) :: 'a word)" by simp
  then have "unat (le_value (b # bs) :: 'a word) = unat (of_nat (unat b + 256 * le_nat bs) :: 'a word)" by simp
  also have "\<dots> = unat b + 256 * le_nat bs"
    using lt by (simp only: unat_of_nat take_bit_nat_eq_self mod_less)
  finally show ?case by simp
qed simp

lemma short_target_bytes:
  assumes "d \<noteq> 0"
  obtains t where "hex_DecodeString (DiffToShortTarget d) = Some t" "length t = 4"
    "le_nat t = 4294967295 div unat d"
proof
  let ?t = "pad4 (reverse (big_Bytes (4294967295 div unat d)))"
  show "hex_DecodeString (DiffToShortTarget d) = Some ?t"
    using assms by (simp add: DiffToShortTarget_def hex_roundtrip)
  have "4294967295 div unat d \<le> 4294967295" by (rule div_le_dividend)
  then have "4294967295 div unat d < 256 ^ 4" by (simp del: div_le_dividend)
  then show "length ?t = 4" by (intro length_pad4) (simp add: reverse_rev length_big_Bytes)
  show "le_nat ?t = 4294967295 div unat d"
    by (simp add: reverse_rev big_Bytes_def)
qed

lemma ShortDiffToDiff_value:
  assumes "length t = 4"
  shows "ShortDiffToDiff t = Ret (of_nat (4294967295 div le_nat t))"
proof -
  let ?d = "ucast (le_value t :: u32) :: u64"
  have lt: "le_nat t < 4294967296" using le_nat_lt [of t] assms by simp
  have u: "unat ?d = le_nat t"
    using assms unat_le_value [of t, where 'a = 32] lt
    by (simp add: unsigned_ucast_eq unsigned_take_bit_eq take_bit_nat_eq_self)
  have "4294967295 div le_nat t < 18446744073709551616"
    by (rule le_less_trans [OF div_le_dividend]) simp
  then have "(4294967295 div ?d) = of_nat (4294967295 div le_nat t)"
    by (simp add: word_unat_eq_iff unat_div_distrib u)
  then show ?thesis
    using assms u by (auto simp: ShortDiffToDiff_def Let_def word_unat_eq_iff)
qed


lemma div_div_ge: "0 < d \<Longrightarrow> d \<le> m \<Longrightarrow> d \<le> m div (m div d)" for d m :: nat
  by (simp add: less_eq_div_iff_mult_less_eq mult.commute div_greater_zero_iff)

text \<open>
  C39: The job target a miner is given, decoded back the way the slave decodes short targets:
  for a difficulty between 1 and \<open>2 ^ 32 - 1\<close> it is four bytes holding the quotient of
  \<open>2 ^ 32 - 1\<close> by the difficulty, and the difficulty read from it is never below the assigned
  one; for a larger difficulty the target is zero and reads back as 0.
\<close>
theorem DiffToShortTarget_ShortDiffToDiff:
  assumes "d \<noteq> 0"
  shows "\<exists>t d'. hex_DecodeString (DiffToShortTarget d) = Some t \<and> length t = 4 \<and>
    le_nat t = 4294967295 div unat d \<and> ShortDiffToDiff t = Ret d' \<and>
    (if unat d \<le> 4294967295 then d \<le> d' \<and> unat d' = 4294967295 div (4294967295 div unat d)
     else le_nat t = 0 \<and> d' = 0)"
proof -
  obtain t where t: "hex_DecodeString (DiffToShortTarget d) = Some t" "length t = 4"
    "le_nat t = 4294967295 div unat d" using short_target_bytes [OF assms] .
  let ?q = "4294967295 div (4294967295 div unat d)"
  have "?q < 18446744073709551616" by (rule le_less_trans [OF div_le_dividend]) simp
  then have q: "unat (of_nat ?q :: u64) = ?q" by (rule unat_of_nat_u64)
  have "0 < unat d" using assms by (simp add: word_unat_eq_iff)
  then have ge: "unat d \<le> ?q" if "unat d \<le> 4294967295" using that by (rule div_div_ge)
  show ?thesis
    by (rule exI [of _ t], rule exI [of _ "of_nat ?q"])
      (use t q ge ShortDiffToDiff_value [OF t(2)] in \<open>auto simp: word_le_nat_alt\<close>)
qed

lemma DiffToShortTarget_ShortDiffToDiff_witness:
  "\<exists>t d'. hex_DecodeString (DiffToShortTarget 5000) = Some t \<and> length t = 4 \<and>
     ShortDiffToDiff t = Ret d' \<and> 5000 \<le> d'"
  using DiffToShortTarget_ShortDiffToDiff [of 5000] by auto

end
