(* ===== verification/Slave_Config.thy ===== *)
theory Slave_Config
  imports Go_Time
begin

text \<open>
  The fields of \<^verbatim>\<open>config.Config\<close> and \<^verbatim>\<open>config.SlaveConfig\<close> (\<^verbatim>\<open>src/config/config.go\<close>) that the slave
  reads. They are filled from a JSON file at start-up and never written afterwards, so the
  operations of the slave take them as an argument.
\<close>

record SlaveConfig =
  MinDiff :: u64
  ShareTargetTime :: u64
  TemplateTimeout :: int
  SlaveFee :: f64
  DaemonPoolSize :: int
  DaemonPoolMaxAge :: int
  MaxSharesPerSecond :: f64
  BadShareRatio :: f64
  BanDurationMinutes :: int
  ShareWindowMinutes :: int
  ShareTimingWindowSize :: int

record Config =
  PoolAddress :: string
  FeeAddress :: string
  UseP2Pool :: bool
  AlgoName :: string
  SlaveCfg :: SlaveConfig

text \<open>
  A configuration of the shape of the distributed examples: difficulty from 1000, a share every
  30 seconds, at most 10 shares a second, one bad share in six, bans of an hour.
\<close>

definition sample_SlaveConfig :: SlaveConfig where
  "sample_SlaveConfig =
     \<lparr>MinDiff = 1000, ShareTargetTime = 30, TemplateTimeout = 60, SlaveFee = Fin 1,
      DaemonPoolSize = 5, DaemonPoolMaxAge = 5, MaxSharesPerSecond = Fin 10,
      BadShareRatio = Fin (1 / 4), BanDurationMinutes = 60, ShareWindowMinutes = 10,
      ShareTimingWindowSize = 100\<rparr>"

definition sample_Config :: Config where
  "sample_Config =
     \<lparr>PoolAddress = ''pool'', FeeAddress = ''fees'', UseP2Pool = False, AlgoName = ''rx/0'',
      SlaveCfg = sample_SlaveConfig\<rparr>"

end
