(* ===== verification/Stratum.thy ===== *)
theory Stratum
  imports Template Slave_Config
begin

text \<open>
  The stratum server of the slave: the state of a miner's connection and the list of connections
  (\<^verbatim>\<open>src/stratum/server.go\<close>), and the messages exchanged with miners (\<^verbatim>\<open>src/stratum/types.go\<close>,
  \<^verbatim>\<open>src/template/template.go\<close>). Messages are values of a datatype: their JSON text, the sockets and
  TLS are not modelled.
\<close>

section \<open>Jobs and connections\<close>

record Job =
  jobAlgo :: string
  jobBlob :: string
  jobHeight :: u64
  jobJobID :: string
  jobSeedHash :: string
  jobTarget :: string

record ConnJob =
  cjBlob :: "byte list"
  cjHashingBlob :: "byte list"
  cjDiff :: u64
  cjJobID :: string
  cjNicehashByte :: byte

record Connection =
  connId :: u64
  connIsTls :: bool
  CurrentJob :: ConnJob
  LastJob :: ConnJob
  NextDiff :: f64
  LastShare :: int
  Score :: int
  Nicehash :: bool

definition zero_ConnJob :: ConnJob where
  "zero_ConnJob = \<lparr>cjBlob = [], cjHashingBlob = [], cjDiff = 0, cjJobID = '''', cjNicehashByte = 0\<rparr>"

text \<open>A connection as the accept loops create it.\<close>

definition accept_conn :: "bool \<Rightarrow> u64 \<Rightarrow> Connection" where
  "accept_conn isTls i =
     \<lparr>connId = i, connIsTls = isTls, CurrentJob = zero_ConnJob, LastJob = zero_ConnJob,
      NextDiff = Fin 0, LastShare = 0, Score = 0, Nicehash = False\<rparr>"

section \<open>Connection identifiers\<close>

definition be_uint64 :: "byte list \<Rightarrow> u64" where
  "be_uint64 bs = of_nat (le_nat (rev (take 8 bs)))"

text \<open>\<open>randomUint64\<close> on the eight random bytes.\<close>

definition randomUint64 :: "byte list \<Rightarrow> u64" where
  "randomUint64 b = be_uint64 b AND 0x7FFFFFFFFFFFFFFF"

lemma randomUint64_lt: "unat (randomUint64 b) < 2 ^ 63"
proof -
  have "randomUint64 b \<le> 0x7FFFFFFFFFFFFFFF" unfolding randomUint64_def by (rule word_and_le1)
  then have "unat (randomUint64 b) \<le> unat (0x7FFFFFFFFFFFFFFF :: u64)" by (simp add: word_le_nat_alt)
  then show ?thesis by simp
qed

section \<open>The list of connections\<close>

record Server =
  Connections :: "Connection list"
  closed :: "u64 list"

text \<open>\<open>closed\<close> records the sockets \<open>Kick\<close> closes, by identifier.\<close>

fun kick_loop :: "u64 \<Rightarrow> Connection list \<Rightarrow> Connection list \<Rightarrow> u64 list \<Rightarrow> Connection list \<times> u64 list" where
  "kick_loop i [] acc cl = (acc, cl)"
| "kick_loop i (v # vs) acc cl =
     (if connId v = i then kick_loop i vs acc (cl @ [connId v]) else kick_loop i vs (acc @ [v]) cl)"

definition Kick :: "u64 \<Rightarrow> Server \<Rightarrow> Server" where
  "Kick i s =
     (let (conns, cl) = kick_loop i (Connections s) [] (closed s) in s\<lparr>Connections := conns, closed := cl\<rparr>)"

definition handleConnection :: "Connection \<Rightarrow> Server \<Rightarrow> Server" where
  "handleConnection c s = s\<lparr>Connections := Connections s @ [c]\<rparr>"

lemma kick_loop_eq:
  "kick_loop i vs acc cl =
     (acc @ filter (\<lambda>v. connId v \<noteq> i) vs, cl @ map connId (filter (\<lambda>v. connId v = i) vs))"
  by (induction vs arbitrary: acc cl) auto

lemma Kick_removes:
  "Connections (Kick i s) = filter (\<lambda>v. connId v \<noteq> i) (Connections s)"
  "closed (Kick i s) = closed s @ map connId (filter (\<lambda>v. connId v = i) (Connections s))"
  by (simp_all add: Kick_def kick_loop_eq)

lemma Kick_idem: "Kick i (Kick i s) = Kick i s"
  by (simp add: Kick_def kick_loop_eq)

section \<open>Messages\<close>

record loginReq =
  lrLogin :: string
  lrPass :: string
  lrAgent :: string
  lrNicehashSupport :: bool

record JobResultRequest =
  jrJobID :: string
  jrNonce :: string
  jrResult :: string

record RequestJob =
  rjID :: u64
  rjMethod :: string
  rjParams :: JobResultRequest

text \<open>What the slave sends to a miner.\<close>

datatype reply =
    LoginResponse u64 Job "string list"
  | JobNotification Job
  | ReplyError "u64 option" int string
  | ReplyStatus u64 string

section \<open>Sending\<close>

text \<open>\<open>SendBytes\<close> returns the error of the write (the flag); \<open>Send\<close> drops it and always returns nil. What
  reaches the miner is the first component.\<close>

definition SendBytes :: "bool \<Rightarrow> 'a \<Rightarrow> 'a list \<times> bool" where
  "SendBytes writeOk a = (if writeOk then ([a], False) else ([], True))"

definition Send :: "bool \<Rightarrow> 'a \<Rightarrow> 'a list \<times> bool" where
  "Send writeOk a = (fst (SendBytes writeOk a), False)"

text \<open>So the callers that kick a client when \<open>Send\<close> fails never do.\<close>

lemma Send_never_fails [simp]: "snd (Send writeOk a) = False"
  by (simp add: Send_def)

end
