(* ===== verification/Jobs.thy ===== *)
theory Jobs
  imports Stratum
begin

text \<open>
  How the slave makes jobs: \<open>GetJob\<close> (\<^verbatim>\<open>src/cmd/slave/conn.go\<close>), the shared NiceHash job
  (\<^verbatim>\<open>src/cmd/slave/nicehash.go\<close>), the refresher and the distribution of new jobs
  (\<^verbatim>\<open>src/cmd/slave/slave.go\<close>). What the daemon answers and the random job identifiers are
  arguments.
\<close>

record Infos =
  infoHeight :: u64
  infoFutureHeight :: u64
  infoSeedHash :: string
  infoDifficulty :: u64
  infoBlockReward :: u64
  infoMajorVersion :: u64
  infoLastTemplateAt :: int

record BlockTemplate =
  btBlocktemplateBlob :: string
  btBlockhashingBlob :: string
  btSeedHash :: string
  btDifficulty :: u64
  btHeight :: u64
  btExpectedReward :: u64

datatype job_error = RpcError string | HexError

definition template_info :: "BlockTemplate \<Rightarrow> Infos \<Rightarrow> Infos" where
  "template_info tmpl info =
     info\<lparr>infoSeedHash := btSeedHash tmpl, infoDifficulty := btDifficulty tmpl,
          infoFutureHeight := btHeight tmpl, infoBlockReward := btExpectedReward tmpl\<rparr>"

section \<open>Plain jobs\<close>

definition GetJob ::
  "string \<Rightarrow> string + BlockTemplate \<Rightarrow> byte list \<Rightarrow> u64 \<Rightarrow> Infos \<Rightarrow> (job_error + Job \<times> byte list) \<times> Infos" where
  "GetJob algo rpc rb jobDiff info =
     (case rpc of
        Inl e \<Rightarrow> (Inl (RpcError e), info)
      | Inr tmpl \<Rightarrow>
          (case hex_DecodeString (btBlocktemplateBlob tmpl) of
             None \<Rightarrow> (Inl HexError, info)
           | Some blob \<Rightarrow>
               let info = template_info tmpl info in
               (Inr (\<lparr>jobAlgo = algo, jobBlob = btBlockhashingBlob tmpl, jobHeight = infoHeight info,
                      jobJobID = hex_EncodeToString rb, jobSeedHash = btSeedHash tmpl,
                      jobTarget = DiffToShortTarget jobDiff\<rparr>, blob), info)))"

section \<open>NiceHash jobs\<close>

record NicehashJob =
  nhHashingBlob :: "byte list"
  nhTemplateBlob :: "byte list"
  nhHeight :: u64
  nhSeedHash :: string
  nhLastNonce :: byte

definition zero_NicehashJob :: NicehashJob where
  "zero_NicehashJob = \<lparr>nhHashingBlob = [], nhTemplateBlob = [], nhHeight = 0, nhSeedHash = '''', nhLastNonce = 0\<rparr>"

text \<open>The job handed out for the shared blob. The nonce byte is written into the blob that the
  shared job keeps: the two slices have the same array.\<close>

definition nicehash_job :: "string \<Rightarrow> byte list \<Rightarrow> u64 \<Rightarrow> NicehashJob \<Rightarrow> Job" where
  "nicehash_job algo rb jobDiff nh =
     \<lparr>jobAlgo = algo, jobBlob = hex_EncodeToString (nhHashingBlob nh), jobHeight = nhHeight nh,
      jobJobID = hex_EncodeToString rb, jobSeedHash = nhSeedHash nh, jobTarget = DiffToShortTarget jobDiff\<rparr>"

type_synonym nh_result = "job_error + Job \<times> byte list \<times> byte"

definition GetNicehashJob ::
  "string \<Rightarrow> string + BlockTemplate \<Rightarrow> byte list \<Rightarrow> u64 \<Rightarrow> NicehashJob \<times> Infos
     \<Rightarrow> (nh_result \<times> NicehashJob \<times> Infos) go" where
  "GetNicehashJob algo rpc rb jobDiff = (\<lambda>(nh, info).
     if nhLastNonce nh = 255 \<or> nhLastNonce nh = 0 then
       (case rpc of
          Inl e \<Rightarrow> Ret (Inl (RpcError e), nh, info)
        | Inr tmpl \<Rightarrow>
            (case hex_DecodeString (btBlocktemplateBlob tmpl) of
               None \<Rightarrow> Ret (Inl HexError, nh, info)
             | Some blocktemplateBlob \<Rightarrow>
                 let info = template_info tmpl info in
                 (case hex_DecodeString (btBlockhashingBlob tmpl) of
                    None \<Rightarrow> Ret (Inl HexError, nh, info)
                  | Some blobBin \<Rightarrow>
                      go_bind (go_update blobBin 42 1) (\<lambda>blobBinNonce.
                      let nh = \<lparr>nhHashingBlob = blobBinNonce, nhTemplateBlob = blocktemplateBlob,
                                nhHeight = btHeight tmpl, nhSeedHash = btSeedHash tmpl, nhLastNonce = 1\<rparr>
                      in Ret (Inr (nicehash_job algo rb jobDiff nh, blocktemplateBlob, 1), nh, info)))))
     else
       let nh = nh\<lparr>nhLastNonce := nhLastNonce nh + 1\<rparr> in
       go_bind (go_update (nhHashingBlob nh) 42 (nhLastNonce nh)) (\<lambda>blobBinNonce.
       let nh = nh\<lparr>nhHashingBlob := blobBinNonce\<rparr>
       in Ret (Inr (nicehash_job algo rb jobDiff nh, nhTemplateBlob nh, nhLastNonce nh), nh, info)))"

definition ClearNicehashJob :: "NicehashJob \<Rightarrow> NicehashJob" where
  "ClearNicehashJob nh = nh\<lparr>nhLastNonce := 0\<rparr>"

section \<open>Jobs for every connection\<close>

text \<open>The state the goroutines share, and what one of them does to its connection: the new
  connection, what it sent, and whether it kicked the client. \<open>writeOk\<close> says whether the write to the
  client succeeds.\<close>

definition next_diff :: "SlaveConfig \<Rightarrow> u64 \<Rightarrow> f64 \<Rightarrow> f64" where
  "next_diff cfg netDiff nd =
     (if nd < f64_of_u64 (MinDiff cfg) then f64_of_u64 (MinDiff cfg)
      else if f64_of_u64 netDiff \<le> nd then f64_of_u64 (netDiff - 1)
      else nd)"

definition set_job :: "ConnJob \<Rightarrow> byte list \<Rightarrow> byte list \<Rightarrow> string \<Rightarrow> ConnJob" where
  "set_job cj blob hashing jobID = cj\<lparr>cjBlob := blob, cjHashingBlob := hashing, cjJobID := jobID\<rparr>"

text \<open>What \<open>hex.DecodeString\<close> returns beside an error: the bytes before the first bad pair.\<close>

fun hex_prefix :: "string \<Rightarrow> byte list" where
  "hex_prefix (c # d # cs) =
     (case (hex_val c, hex_val d) of
        (Some a, Some b) \<Rightarrow> of_nat (16 * a + b) # hex_prefix cs
      | _ \<Rightarrow> [])"
| "hex_prefix _ = []"

record conn_update =
  cuConn :: Connection
  cuSent :: "reply list"
  cuKicked :: bool

definition OnNewBlock_conn ::
  "(f64 \<Rightarrow> u64) \<Rightarrow> Config \<Rightarrow> string + BlockTemplate \<Rightarrow> byte list \<Rightarrow> bool \<Rightarrow> Connection \<Rightarrow> NicehashJob \<times> Infos
     \<Rightarrow> (conn_update \<times> NicehashJob \<times> Infos) go" where
  "OnNewBlock_conn conv cfg rpc rb writeOk c = (\<lambda>(nh, info).
     if UseP2Pool cfg then Ret (\<lparr>cuConn = c, cuSent = [], cuKicked = False\<rparr>, nh, info)
     else
       let c = c\<lparr>LastJob := CurrentJob c\<rparr>;
           c = c\<lparr>NextDiff := next_diff (SlaveCfg cfg) (infoDifficulty info) (NextDiff c)\<rparr>;
           c = c\<lparr>CurrentJob := (CurrentJob c)\<lparr>cjDiff := u64_of_f64 conv (NextDiff c)\<rparr>\<rparr>
       in if Nicehash c then
            go_map (\<lambda>(r, nh, info).
              case r of
                Inl e \<Rightarrow> (\<lparr>cuConn = c, cuSent = [], cuKicked = True\<rparr>, nh, info)
              | Inr (curJob, blob, nicehashByte) \<Rightarrow>
                  let c = c\<lparr>CurrentJob := (CurrentJob c)\<lparr>cjNicehashByte := nicehashByte, cjBlob := blob\<rparr>\<rparr> in
                  (case hex_DecodeString (jobBlob curJob) of
                     None \<Rightarrow> (\<lparr>cuConn = c\<lparr>CurrentJob := (CurrentJob c)\<lparr>cjHashingBlob := hex_prefix (jobBlob curJob)\<rparr>\<rparr>, cuSent = [], cuKicked = True\<rparr>, nh, info)
                   | Some hashing \<Rightarrow>
                       (\<lparr>cuConn = c\<lparr>CurrentJob := set_job (CurrentJob c) blob hashing (jobJobID curJob)\<rparr>,
                         cuSent = fst (Send writeOk (JobNotification curJob)), cuKicked = snd (Send writeOk (JobNotification curJob))\<rparr>, nh, info)))
              (GetNicehashJob (AlgoName cfg) rpc rb (cjDiff (CurrentJob c)) (nh, info))
          else
            (case GetJob (AlgoName cfg) rpc rb (cjDiff (CurrentJob c)) info of
               (Inl e, info) \<Rightarrow> Ret (\<lparr>cuConn = c, cuSent = [], cuKicked = True\<rparr>, nh, info)
             | (Inr (curJob, blob), info) \<Rightarrow>
                 let c = c\<lparr>CurrentJob := (CurrentJob c)\<lparr>cjBlob := blob\<rparr>\<rparr> in
                 (case hex_DecodeString (jobBlob curJob) of
                    None \<Rightarrow> Ret (\<lparr>cuConn = c\<lparr>CurrentJob := (CurrentJob c)\<lparr>cjHashingBlob := hex_prefix (jobBlob curJob)\<rparr>\<rparr>, cuSent = [], cuKicked = True\<rparr>, nh, info)
                  | Some hashing \<Rightarrow>
                      Ret (\<lparr>cuConn = c\<lparr>CurrentJob := set_job (CurrentJob c) blob hashing (jobJobID curJob)\<rparr>,
                            cuSent = fst (Send writeOk (JobNotification curJob)), cuKicked = snd (Send writeOk (JobNotification curJob))\<rparr>, nh, info))))"

text \<open>The goroutines of \<open>OnNewBlock\<close>, in the order in which they get the shared state; each call of
  the daemon has its own answer. The kicks remove the clients whose job could not be made.\<close>

fun OnNewBlock_loop ::
  "(f64 \<Rightarrow> u64) \<Rightarrow> Config \<Rightarrow> (u64 \<Rightarrow> (string + BlockTemplate) \<times> byte list \<times> bool) \<Rightarrow> Connection list
     \<Rightarrow> NicehashJob \<times> Infos \<Rightarrow> (conn_update list \<times> NicehashJob \<times> Infos) go" where
  "OnNewBlock_loop conv cfg env [] st = Ret ([], st)"
| "OnNewBlock_loop conv cfg env (c # cs) st =
     go_bind (OnNewBlock_conn conv cfg (fst (env (connId c))) (fst (snd (env (connId c)))) (snd (snd (env (connId c)))) c st) (\<lambda>(u, st).
     go_map (\<lambda>(us, st). (u # us, st)) (OnNewBlock_loop conv cfg env cs st))"

definition OnNewBlock ::
  "(f64 \<Rightarrow> u64) \<Rightarrow> Config \<Rightarrow> (u64 \<Rightarrow> (string + BlockTemplate) \<times> byte list \<times> bool) \<Rightarrow> Server
     \<Rightarrow> NicehashJob \<times> Infos \<Rightarrow> (Server \<times> reply list \<times> NicehashJob \<times> Infos) go" where
  "OnNewBlock conv cfg env srv st =
     go_map (\<lambda>(us, nh, info).
         (fold (\<lambda>u. Kick (connId (cuConn u))) (filter cuKicked us) (srv\<lparr>Connections := map cuConn us\<rparr>),
          concat (map cuSent us), ClearNicehashJob nh, info))
       (OnNewBlock_loop conv cfg env (Connections srv) st)"

section \<open>The refresher\<close>

text \<open>One iteration of the loop of \<open>Refresher\<close>: the height and the major version the daemon answers
  (\<open>None\<close> for an error), the two readings of the clock. The answer says whether \<open>OnNewBlock\<close> is
  started.\<close>

definition refresh_tick ::
  "SlaveConfig \<Rightarrow> u64 option \<Rightarrow> u64 option \<Rightarrow> int \<Rightarrow> int \<Rightarrow> Infos \<Rightarrow> bool \<times> Infos" where
  "refresh_tick cfg height header now now2 info =
     (let info = (if infoHeight info \<noteq> 0 then info else info\<lparr>infoHeight := 1\<rparr>) in
      case height of
        None \<Rightarrow> (False, info)
      | Some h \<Rightarrow>
          let fresh = (h \<noteq> infoHeight info \<or> now - infoLastTemplateAt info > TemplateTimeout cfg);
              info = (if fresh then info\<lparr>infoLastTemplateAt := now2, infoHeight := h\<rparr> else info)
          in (fresh, case header of None \<Rightarrow> info | Some v \<Rightarrow> info\<lparr>infoMajorVersion := v\<rparr>))"

text \<open>The goroutine that serves SIGUSR1.\<close>

definition refresh_signal :: "u64 option \<Rightarrow> u64 option \<Rightarrow> Infos \<Rightarrow> bool \<times> Infos" where
  "refresh_signal height header info =
     (case height of
        None \<Rightarrow> (False, info)
      | Some h \<Rightarrow>
          if h \<noteq> infoHeight info then
            let info = info\<lparr>infoHeight := h\<rparr> in
            (True, case header of None \<Rightarrow> info | Some v \<Rightarrow> info\<lparr>infoMajorVersion := v\<rparr>)
          else (False, info))"

lemma refresh_tick_height:
  "refresh_tick cfg (Some h) header now now2 info = (fresh, info') \<Longrightarrow> infoHeight info' = h"
  by (auto simp: refresh_tick_def Let_def split: option.splits if_splits)

text \<open>A change of height always starts the distribution of new jobs, once the first iteration has
  replaced the initial height 0 by 1.\<close>

lemma refresh_tick_new:
  "infoHeight info \<noteq> 0 \<Longrightarrow> h \<noteq> infoHeight info \<Longrightarrow> fst (refresh_tick cfg (Some h) header now now2 info)"
  by (simp add: refresh_tick_def Let_def)

section \<open>NiceHash nonces\<close>

fun nh_run ::
  "string \<Rightarrow> ((string + BlockTemplate) \<times> byte list \<times> u64) list \<Rightarrow> NicehashJob \<times> Infos
     \<Rightarrow> (nh_result list \<times> NicehashJob \<times> Infos) go" where
  "nh_run algo [] st = Ret ([], st)"
| "nh_run algo ((rpc, rb, d) # cs) st =
     go_bind (GetNicehashJob algo rpc rb d st) (\<lambda>(r, st). go_map (\<lambda>(rs, st). (r # rs, st)) (nh_run algo cs st))"

text \<open>A usable answer of the daemon: both blobs are hexadecimal and the nonce fits the hashing blob.\<close>

definition usable :: "string + BlockTemplate \<Rightarrow> bool" where
  "usable rpc =
     (case rpc of
        Inl e \<Rightarrow> False
      | Inr t \<Rightarrow> hex_DecodeString (btBlocktemplateBlob t) \<noteq> None \<and>
                (case hex_DecodeString (btBlockhashingBlob t) of None \<Rightarrow> False | Some h \<Rightarrow> 43 \<le> length h))"

definition template_blob :: "string + BlockTemplate \<Rightarrow> byte list" where
  "template_blob rpc = the (hex_DecodeString (btBlocktemplateBlob (projr rpc)))"

definition hashing_blob :: "string + BlockTemplate \<Rightarrow> byte list" where
  "hashing_blob rpc = the (hex_DecodeString (btBlockhashingBlob (projr rpc)))"

text \<open>The shared job after \<open>n\<close> calls on usable answers: the template fetched last and the number of
  the nonce in it.\<close>

definition nh_after :: "(nat \<Rightarrow> string + BlockTemplate) \<Rightarrow> nat \<Rightarrow> NicehashJob \<Rightarrow> bool" where
  "nh_after rpcs n nh =
     (case n of
        0 \<Rightarrow> nhLastNonce nh = 0
      | Suc m \<Rightarrow>
          nhLastNonce nh = of_nat (m mod 255 + 1) \<and>
          nhTemplateBlob nh = template_blob (rpcs (255 * (m div 255))) \<and>
          nhHashingBlob nh = (hashing_blob (rpcs (255 * (m div 255))))[42 := of_nat (m mod 255 + 1)])"

lemma byte_of_nat_eq: "a < 256 \<Longrightarrow> b < 256 \<Longrightarrow> ((of_nat a :: byte) = of_nat b) = (a = b)"
proof
  assume lt: "a < 256" "b < 256" and "(of_nat a :: byte) = of_nat b"
  then have "unat (of_nat a :: byte) = unat (of_nat b :: byte)" by simp
  with lt show "a = b" by (simp add: unat_of_nat)
qed simp

lemma usableE:
  assumes "usable rpc"
  obtains t where "rpc = Inr t" "hex_DecodeString (btBlocktemplateBlob t) = Some (template_blob rpc)"
    "hex_DecodeString (btBlockhashingBlob t) = Some (hashing_blob rpc)" "43 \<le> length (hashing_blob rpc)"
  using assms by (auto simp: usable_def template_blob_def hashing_blob_def split: sum.splits option.splits)

definition nh_answer :: "(nat \<Rightarrow> string + BlockTemplate) \<Rightarrow> nat \<Rightarrow> nh_result \<Rightarrow> bool" where
  "nh_answer rpcs i r =
     (\<exists>job. r = Inr (job, template_blob (rpcs (255 * (i div 255))), of_nat (i mod 255 + 1)) \<and>
            hex_DecodeString (jobBlob job) =
              Some ((hashing_blob (rpcs (255 * (i div 255))))[42 := of_nat (i mod 255 + 1)]))"

lemma GetNicehashJob_next:
  assumes "nh_after rpcs n nh" and "\<forall>i. usable (rpcs i)"
  shows "\<exists>r nh' info'. GetNicehashJob algo (rpcs n) rb d (nh, info) = Ret (r, nh', info') \<and>
           nh_answer rpcs n r \<and> nh_after rpcs (Suc n) nh'"
proof (cases "n mod 255 = 0")
  case True
  then have last: "nhLastNonce nh = 255 \<or> nhLastNonce nh = 0"
  proof (cases n)
    case (Suc m)
    with True have "m mod 255 = 254" by (simp add: mod_Suc split: if_splits)
    with assms(1) Suc show ?thesis by (simp add: nh_after_def)
  qed (use assms(1) in \<open>simp add: nh_after_def\<close>)
  have n: "255 * (n div 255) = n" using True mult_div_mod_eq [of 255 n] by simp
  from assms(2) obtain t where t: "rpcs n = Inr t" "hex_DecodeString (btBlocktemplateBlob t) = Some (template_blob (rpcs n))"
    "hex_DecodeString (btBlockhashingBlob t) = Some (hashing_blob (rpcs n))" "43 \<le> length (hashing_blob (rpcs n))"
    using usableE [of "rpcs n"] by blast
  show ?thesis
    using last t True
    by (auto simp: GetNicehashJob_def nh_answer_def nh_after_def n nicehash_job_def hex_roundtrip Let_def)
next
  case False
  then obtain m where m: "n = Suc m" by (cases n) auto
  with False have m1: "Suc m mod 255 = m mod 255 + 1" "Suc m div 255 = m div 255" "m mod 255 + 1 < 255"
    using mod_less_divisor [of 255 m] by (simp_all add: mod_Suc div_Suc split: if_splits)
  let ?rpc = "rpcs (255 * (m div 255))"
  have nh: "nhLastNonce nh = of_nat (m mod 255 + 1)" "nhTemplateBlob nh = template_blob ?rpc"
    "nhHashingBlob nh = (hashing_blob ?rpc)[42 := of_nat (m mod 255 + 1)]"
    using assms(1) by (simp_all add: nh_after_def m)
  have len: "43 \<le> length (hashing_blob ?rpc)" using assms(2) usableE [of ?rpc] by blast
  have "nhLastNonce nh \<noteq> 255" "nhLastNonce nh \<noteq> 0"
    using byte_of_nat_eq [of "m mod 255 + 1" 255] byte_of_nat_eq [of "m mod 255 + 1" 0] m1(3) unfolding nh(1) by simp_all
  moreover have "(of_nat (m mod 255 + 1) + 1 :: byte) = of_nat (Suc m mod 255 + 1)" by (simp add: m1(1))
  ultimately show ?thesis
    using len
    by (auto simp: GetNicehashJob_def nh nh_answer_def nh_after_def m m1(2) nicehash_job_def hex_roundtrip Let_def
        simp del: of_nat_add of_nat_Suc)
qed

lemma nh_run_answers:
  assumes "nh_after rpcs n nh" and "\<forall>i. usable (rpcs i)" and "\<forall>i < length calls. fst (calls ! i) = rpcs (n + i)"
  shows "\<exists>rs nh' info'. nh_run algo calls (nh, info) = Ret (rs, nh', info') \<and> length rs = length calls \<and>
           (\<forall>i < length calls. nh_answer rpcs (n + i) (rs ! i))"
  using assms
proof (induction calls arbitrary: n nh info)
  case (Cons c calls)
  obtain rpc rb d where c: "c = (rpc, rb, d)" by (cases c)
  have rpc: "rpc = rpcs n" using Cons.prems(3) [rule_format, of 0] by (simp add: c)
  from GetNicehashJob_next [OF Cons.prems(1,2)] obtain r nh1 info1 where
    1: "GetNicehashJob algo (rpcs n) rb d (nh, info) = Ret (r, nh1, info1)" "nh_answer rpcs n r" "nh_after rpcs (Suc n) nh1"
    by blast
  have "\<forall>i < length calls. fst (calls ! i) = rpcs (Suc n + i)" using Cons.prems(3) by fastforce
  from Cons.IH [OF 1(3) Cons.prems(2) this] obtain rs nh2 info2 where
    2: "nh_run algo calls (nh1, info1) = Ret (rs, nh2, info2)" "length rs = length calls"
       "\<forall>i < length calls. nh_answer rpcs (Suc n + i) (rs ! i)" by blast
  have "nh_answer rpcs (n + i) ((r # rs) ! i)" if "i < length (c # calls)" for i
    using that 1(2) 2(3) by (cases i) auto
  then show ?case using 1(1) 2(1,2) by (auto simp: c rpc)
qed simp

text \<open>C20: NiceHash jobs never share a nonce range. Starting with no shared job, and as long as the
  daemon's answers are usable, the \<open>i\<close>-th request gets the template fetched by request
  \<open>255 * (i div 255)\<close> and nonce byte \<open>i mod 255 + 1\<close>, written at offset 42 of the blob the miner
  receives; so two requests served from one template have different nonce bytes, and nothing
  panics.\<close>

theorem nicehash_nonces_distinct:
  assumes "nhLastNonce nh = 0" and "\<forall>c \<in> set calls. usable (fst c)"
  shows "\<exists>rs nh' info'. nh_run algo calls (nh, info) = Ret (rs, nh', info') \<and> length rs = length calls \<and>
    (\<forall>i < length calls. \<exists>job.
        rs ! i = Inr (job, template_blob (fst (calls ! (255 * (i div 255)))), of_nat (i mod 255 + 1)) \<and>
        hex_DecodeString (jobBlob job) =
          Some ((hashing_blob (fst (calls ! (255 * (i div 255)))))[42 := of_nat (i mod 255 + 1)])) \<and>
    (\<forall>i j. i < j \<and> j < length calls \<and> i div 255 = j div 255 \<longrightarrow>
        snd (snd (projr (rs ! i))) \<noteq> snd (snd (projr (rs ! j))))"
proof (cases "calls = []")
  case False
  define rpcs where "rpcs = (\<lambda>k. fst (calls ! (if k < length calls then k else 0)))"
  have "\<forall>i. usable (rpcs i)" using assms(2) False by (auto simp: rpcs_def)
  from nh_run_answers [OF _ this, of 0 nh calls algo info] obtain rs nh' info' where
    run: "nh_run algo calls (nh, info) = Ret (rs, nh', info')" "length rs = length calls"
      "\<forall>i < length calls. nh_answer rpcs i (rs ! i)"
    using assms(1) by (auto simp: nh_after_def rpcs_def)
  have k: "rpcs (255 * (i div 255)) = fst (calls ! (255 * (i div 255)))" if "i < length calls" for i
    using that times_div_less_eq_dividend [of 255 i] by (simp add: rpcs_def)
  have each: "\<exists>job. rs ! i = Inr (job, template_blob (fst (calls ! (255 * (i div 255)))), of_nat (i mod 255 + 1)) \<and>
        hex_DecodeString (jobBlob job) =
          Some ((hashing_blob (fst (calls ! (255 * (i div 255)))))[42 := of_nat (i mod 255 + 1)])"
    if "i < length calls" for i
    using run(3) [rule_format, OF that] unfolding nh_answer_def k [OF that] by blast
  have "snd (snd (projr (rs ! i))) \<noteq> snd (snd (projr (rs ! j)))"
    if ij: "i < j" "j < length calls" "i div 255 = j div 255" for i j
  proof -
    have "i mod 255 \<noteq> j mod 255" using ij(1,3) by (metis div_mod_decomp less_irrefl)
    then have "(of_nat (i mod 255 + 1) :: byte) \<noteq> of_nat (j mod 255 + 1)"
      using byte_of_nat_eq [of "i mod 255 + 1" "j mod 255 + 1"] mod_less_divisor [of 255 i] mod_less_divisor [of 255 j]
      by simp
    moreover obtain ji jj where "rs ! i = Inr (ji, template_blob (fst (calls ! (255 * (i div 255)))), of_nat (i mod 255 + 1))"
      "rs ! j = Inr (jj, template_blob (fst (calls ! (255 * (j div 255)))), of_nat (j mod 255 + 1))"
      using each [of i] each [of j] ij by auto
    ultimately show ?thesis by simp
  qed
  with run(1,2) each show ?thesis by blast
qed simp

definition sample_template :: BlockTemplate where
  "sample_template = \<lparr>btBlocktemplateBlob = hex_EncodeToString (replicate 43 7),
     btBlockhashingBlob = hex_EncodeToString (replicate 43 9), btSeedHash = ''ab'', btDifficulty = 5000,
     btHeight = 10, btExpectedReward = 60\<rparr>"

lemma sample_usable: "usable (Inr sample_template)"
  by (simp add: usable_def sample_template_def hex_roundtrip)

lemma nicehash_nonces_distinct_witness:
  "\<forall>info. \<exists>rs nh' info'. nh_run ''rx/0'' (replicate 300 (Inr sample_template, [], 1000)) (zero_NicehashJob, info) = Ret (rs, nh', info') \<and>
     snd (snd (projr (rs ! 3))) \<noteq> snd (snd (projr (rs ! 4)))"
proof
  fix info
  have *: "\<forall>c \<in> set (replicate 300 (Inr sample_template, [], 1000 :: u64)). usable (fst c)"
    by (auto simp: sample_usable)
  have "nhLastNonce zero_NicehashJob = 0" by (simp add: zero_NicehashJob_def)
  from nicehash_nonces_distinct [OF this *] obtain rs nh' info' where
    "nh_run ''rx/0'' (replicate 300 (Inr sample_template, [], 1000)) (zero_NicehashJob, info) = Ret (rs, nh', info')"
    "\<forall>i j. i < j \<and> j < (300 :: nat) \<and> i div 255 = j div 255 \<longrightarrow>
        snd (snd (projr (rs ! i))) \<noteq> snd (snd (projr (rs ! j)))"
    unfolding length_replicate by blast
  then show "\<exists>rs nh' info'. nh_run ''rx/0'' (replicate 300 (Inr sample_template, [], 1000)) (zero_NicehashJob, info) = Ret (rs, nh', info') \<and>
     snd (snd (projr (rs ! 3))) \<noteq> snd (snd (projr (rs ! 4)))"
    by auto
qed

section \<open>Difficulty of new jobs\<close>

lemma OnNewBlock_conn_diff:
  assumes "OnNewBlock_conn conv cfg rpc rb writeOk c (nh, info) = Ret (u, st)" and "\<not> UseP2Pool cfg"
  shows "cjDiff (CurrentJob (cuConn u)) =
           u64_of_f64 conv (next_diff (SlaveCfg cfg) (infoDifficulty info) (NextDiff c)) \<and>
         LastJob (cuConn u) = CurrentJob c"
proof (cases "Nicehash c")
  case True
  let ?d = "u64_of_f64 conv (next_diff (SlaveCfg cfg) (infoDifficulty info) (NextDiff c))"
  obtain r nh' info' where g: "GetNicehashJob (AlgoName cfg) rpc rb ?d (nh, info) = Ret (r, nh', info')"
    using assms True
    by (cases "GetNicehashJob (AlgoName cfg) rpc rb ?d (nh, info)") (auto simp: OnNewBlock_conn_def Let_def)
  show ?thesis
  proof (cases r)
    case (Inl e)
    then show ?thesis using assms True g by (auto simp: OnNewBlock_conn_def Let_def)
  next
    case (Inr x)
    then obtain job blob b where "r = Inr (job, blob, b)" by (cases x) auto
    then show ?thesis using assms True g
      by (cases "hex_DecodeString (jobBlob job)") (auto simp: OnNewBlock_conn_def Let_def set_job_def)
  qed
next
  case False
  let ?d = "u64_of_f64 conv (next_diff (SlaveCfg cfg) (infoDifficulty info) (NextDiff c))"
  obtain r info' where g: "GetJob (AlgoName cfg) rpc rb ?d info = (r, info')" by fastforce
  show ?thesis
  proof (cases r)
    case (Inl e)
    then show ?thesis using assms False g by (auto simp: OnNewBlock_conn_def Let_def)
  next
    case (Inr x)
    then obtain job blob where "r = Inr (job, blob)" by (cases x) auto
    then show ?thesis using assms False g
      by (cases "hex_DecodeString (jobBlob job)") (auto simp: OnNewBlock_conn_def Let_def set_job_def)
  qed
qed

lemma next_diff_bounds:
  assumes "MinDiff cfg < netDiff" and "unat netDiff \<le> 2 ^ 53" and "nd \<noteq> NaN"
  obtains q where "next_diff cfg netDiff nd = Fin q"
    and "of_nat (unat (MinDiff cfg)) \<le> q" and "q < of_nat (unat netDiff)"
proof -
  have lt: "unat (MinDiff cfg) < unat netDiff" using assms(1) by (simp add: word_less_nat_alt)
  have pred: "unat (netDiff - 1) = unat netDiff - 1"
    using lt by (intro unat_minus_one) auto
  have fl: "f64_of_u64 (MinDiff cfg) = Fin (of_nat (unat (MinDiff cfg)))"
    "f64_of_u64 netDiff = Fin (of_nat (unat netDiff))"
    "f64_of_u64 (netDiff - 1) = Fin (of_nat (unat netDiff - 1))"
    using lt assms(2) by (simp_all add: f64_of_u64_exact pred)
  have min: "(of_nat (unat (MinDiff cfg)) :: rat) < of_nat (unat netDiff)" using lt by simp
  have cap: "(of_nat (unat (MinDiff cfg)) :: rat) \<le> of_nat (unat netDiff - 1)"
    "(of_nat (unat netDiff - 1) :: rat) < of_nat (unat netDiff)"
    using lt by (simp_all only: of_nat_le_iff of_nat_less_iff)
  show thesis
  proof (cases nd)
    case (Fin x)
    consider "x < of_nat (unat (MinDiff cfg))" | "of_nat (unat netDiff) \<le> x"
      | "of_nat (unat (MinDiff cfg)) \<le> x" "x < of_nat (unat netDiff)" by linarith
    then show thesis
    proof cases
      case 1
      then show thesis using that [of "of_nat (unat (MinDiff cfg))"] min by (simp add: next_diff_def fl Fin)
    next
      case 2
      then have "\<not> x < of_nat (unat (MinDiff cfg))" using min by linarith
      with 2 show thesis using that [of "of_nat (unat netDiff - 1)"] cap
        by (simp add: next_diff_def fl Fin less_eq_f64_def order_le_less)
    next
      case 3
      then show thesis using that [of x] by (auto simp: next_diff_def fl Fin less_eq_f64_def)
    qed
  next
    case PInf
    then show thesis using that [of "of_nat (unat netDiff - 1)"] cap by (simp add: next_diff_def fl less_eq_f64_def)
  next
    case NInf
    then show thesis using that [of "of_nat (unat (MinDiff cfg))"] min by (simp add: next_diff_def fl)
  qed (use assms(3) in simp)
qed

lemma u64_of_f64_between:
  assumes "of_nat a \<le> q" and "q < of_nat b" and "b \<le> 2 ^ 53"
  shows "a \<le> unat (u64_of_f64 conv (Fin q)) \<and> unat (u64_of_f64 conv (Fin q)) < b"
proof -
  have q0: "0 \<le> q" using assms(1) of_nat_0_le_iff [of a] by (rule order_trans [rotated])
  have fl: "int a \<le> \<lfloor>q\<rfloor>" "\<lfloor>q\<rfloor> < int b" using assms(1,2) by (simp_all add: le_floor_iff floor_less_iff)
  have "int b < 2 ^ 64" using assms(3) by simp
  with fl(2) have "\<lfloor>q\<rfloor> < 2 ^ 64" by (rule less_trans)
  then have "u64_of_f64 conv (Fin q) = of_int \<lfloor>q\<rfloor>" using q0 by (simp add: u64_of_f64_def rat_trunc_def)
  moreover have "int (unat (of_int \<lfloor>q\<rfloor> :: u64)) = \<lfloor>q\<rfloor>"
    using q0 \<open>\<lfloor>q\<rfloor> < 2 ^ 64\<close> by (intro unat_of_int_u64) (simp_all only: zero_le_floor)
  ultimately show ?thesis using fl by simp
qed

text \<open>C21: the difficulty of a new job. For a recorded network difficulty up to \<open>2 ^ 53\<close> and above the
  configured minimum, and whatever the retargeting computed short of NaN (infinities included), the
  job that \<open>OnNewBlock\<close> assigns has a difficulty of at least \<open>MinDiff\<close> and below the network
  difficulty that was recorded when its turn began, and the job it replaces is kept as the last one.
  The bound is the recorded difficulty, not that of the template the job is made from: a plain job
  records the template's only afterwards, and then its own difficulty can be higher.\<close>

theorem new_job_difficulty_bounds:
  assumes job: "OnNewBlock_conn conv cfg rpc rb writeOk c (nh, info) = Ret (u, st)" and "\<not> UseP2Pool cfg"
    and nd: "NextDiff c \<noteq> NaN"
    and "MinDiff (SlaveCfg cfg) < infoDifficulty info" and "unat (infoDifficulty info) \<le> 2 ^ 53"
  shows "MinDiff (SlaveCfg cfg) \<le> cjDiff (CurrentJob (cuConn u)) \<and>
         cjDiff (CurrentJob (cuConn u)) < infoDifficulty info \<and> LastJob (cuConn u) = CurrentJob c"
proof -
  obtain q where q: "next_diff (SlaveCfg cfg) (infoDifficulty info) (NextDiff c) = Fin q"
    "of_nat (unat (MinDiff (SlaveCfg cfg))) \<le> q" "q < of_nat (unat (infoDifficulty info))"
    using next_diff_bounds [OF assms(4,5) nd] by blast
  from u64_of_f64_between [OF q(2,3) assms(5), where conv = conv] OnNewBlock_conn_diff [OF job assms(2)]
  show ?thesis by (simp add: q(1) word_le_nat_alt word_less_nat_alt)
qed

text \<open>The cap is stale: a finite retargeted difficulty between the minimum and the recorded network
  difficulty becomes the job's, while the recorded difficulty becomes that of the new template,
  however low it is.\<close>

lemma new_job_ignores_template_difficulty:
  assumes "\<not> UseP2Pool cfg" "\<not> Nicehash c" "usable (Inr t)" "NextDiff c = Fin (of_nat (unat d))"
    and "MinDiff (SlaveCfg cfg) \<le> d" "d < infoDifficulty info" "unat (infoDifficulty info) \<le> 2 ^ 53"
  shows "\<exists>u nh' info'. OnNewBlock_conn conv cfg (Inr t) rb writeOk c (nh, info) = Ret (u, nh', info') \<and>
    cjDiff (CurrentJob (cuConn u)) = d \<and> infoDifficulty info' = btDifficulty t"
proof -
  have fl: "f64_of_u64 (MinDiff (SlaveCfg cfg)) = Fin (of_nat (unat (MinDiff (SlaveCfg cfg))))"
    "f64_of_u64 (infoDifficulty info) = Fin (of_nat (unat (infoDifficulty info)))"
    using assms(5-7) by (simp_all add: f64_of_u64_exact word_le_nat_alt word_less_nat_alt)
  have nd: "next_diff (SlaveCfg cfg) (infoDifficulty info) (NextDiff c) = Fin (of_nat (unat d))"
    using assms(5,6) by (simp add: next_diff_def fl assms(4) less_eq_f64_def word_le_nat_alt word_less_nat_alt)
  have "unat (u64_of_f64 conv (Fin (of_nat (unat d)))) = unat d"
    using u64_of_f64_between [of "unat d" "of_nat (unat d)" "Suc (unat d)" conv] assms(6,7)
    by (simp add: word_less_nat_alt)
  then have d: "u64_of_f64 conv (Fin (of_nat (unat d))) = d" by (simp only: word_unat_eq_iff)
  obtain blob hb where "hex_DecodeString (btBlocktemplateBlob t) = Some blob" "hex_DecodeString (btBlockhashingBlob t) = Some hb"
    using usableE [OF assms(3)] by blast
  with assms(1,2) show ?thesis
    by (simp add: OnNewBlock_conn_def GetJob_def Let_def nd d template_info_def set_job_def)
qed

definition sample_Infos :: Infos where
  "sample_Infos = \<lparr>infoHeight = 9, infoFutureHeight = 10, infoSeedHash = ''ab'', infoDifficulty = 5000,
     infoBlockReward = 60, infoMajorVersion = 16, infoLastTemplateAt = 0\<rparr>"

lemma new_job_difficulty_bounds_witness:
  "\<forall>conv. \<exists>u st. OnNewBlock_conn conv sample_Config (Inr sample_template) [1] True ((accept_conn True 3)\<lparr>NextDiff := Fin 99999\<rparr>)
        (zero_NicehashJob, sample_Infos) = Ret (u, st) \<and>
      cjDiff (CurrentJob (cuConn u)) < 5000"
proof
  fix conv
  let ?c = "(accept_conn True 3)\<lparr>NextDiff := Fin 99999\<rparr>"
  obtain u st where u: "OnNewBlock_conn conv sample_Config (Inr sample_template) [1] True ?c (zero_NicehashJob, sample_Infos) = Ret (u, st)"
    by (simp add: OnNewBlock_conn_def sample_Config_def accept_conn_def GetJob_def sample_template_def hex_roundtrip Let_def)
  have "cjDiff (CurrentJob (cuConn u)) < 5000"
    using new_job_difficulty_bounds [OF u]
    by (simp add: sample_Config_def sample_SlaveConfig_def sample_Infos_def accept_conn_def)
  with u show "\<exists>u st. OnNewBlock_conn conv sample_Config (Inr sample_template) [1] True ?c
        (zero_NicehashJob, sample_Infos) = Ret (u, st) \<and> cjDiff (CurrentJob (cuConn u)) < 5000" by blast
qed

end
