(* ===== verification/Address.thy ===== *)
theory Address
  imports Pool_Prelude
begin

text \<open>
  \<^verbatim>\<open>src/address/base58.go\<close> and \<^verbatim>\<open>src/address/addr.go\<close>: the block-wise base-58 decoder of
  CryptoNote addresses and the validity check. Keccak-256 (\<^verbatim>\<open>golang.org/x/crypto/sha3\<close>) is a
  parameter; so are the two configured prefixes. Slicing \<open>data\<close> past its length but within the
  decoded buffer reads the buffer, as in Go; past the buffer it panics (spare capacity the
  allocator may have left there is not modelled).
\<close>

section \<open>Decoding\<close>

definition base58_alphabet :: string where
  "base58_alphabet = ''123456789ABCDEFGHJKLMNPQRSTUVWXYZabcdefghijkmnopqrstuvwxyz''"

fun index_in :: "'a list \<Rightarrow> 'a \<Rightarrow> nat \<Rightarrow> nat option" where
  "index_in [] c n = None"
| "index_in (x # xs) c n = (if x = c then Some n else index_in xs c (Suc n))"

text \<open>The lookup table; a missing key of a Go map reads as 0.\<close>

definition base58Lookup :: "char \<Rightarrow> nat" where
  "base58Lookup c = (case index_in base58_alphabet c 0 of None \<Rightarrow> 0 | Some i \<Rightarrow> i)"

definition encodedBlockSizes :: "nat list" where
  "encodedBlockSizes = [0, 2, 3, 5, 6, 7, 9, 10, 11]"

text \<open>The loop runs over the encoded block from its last character to its first.\<close>

fun decode_loop :: "string \<Rightarrow> nat \<Rightarrow> nat \<Rightarrow> nat option" where
  "decode_loop [] big mul = Some big"
| "decode_loop (c # cs) big mul =
     (if c \<noteq> CHR ''1'' \<and> base58Lookup c = 0 then None
      else decode_loop cs (big + mul * base58Lookup c) (mul * 58))"

definition decodeBlock :: "string \<Rightarrow> byte list" where
  "decodeBlock encoded =
     (case decode_loop (rev encoded) 0 1 of
        None \<Rightarrow> []
      | Some big \<Rightarrow>
          (case index_in encodedBlockSizes (length encoded) 0 of
             None \<Rightarrow> []
           | Some i \<Rightarrow> (let result = replicate 9 0 @ big_Bytes big
                        in drop (length result - i) result)))"

fun decode_blocks :: "nat \<Rightarrow> string \<Rightarrow> byte list" where
  "decode_blocks 0 data = (if 0 < length data then decodeBlock data else [])"
| "decode_blocks (Suc n) data = decodeBlock (take 11 data) @ decode_blocks n (drop 11 data)"

definition decodeBase58 :: "string \<Rightarrow> byte list" where
  "decodeBase58 data = decode_blocks (length data div 11) data"

section \<open>Validity\<close>

definition getChecksum :: "(byte list \<Rightarrow> byte list) \<Rightarrow> byte list \<Rightarrow> byte list" where
  "getChecksum keccak256 data = take 4 (keccak256 data)"

record addr_config =
  AddrPrefix :: "byte list"
  SubaddrPrefix :: "byte list"

definition IsAddressValid :: "(byte list \<Rightarrow> byte list) \<Rightarrow> addr_config \<Rightarrow> string \<Rightarrow> bool go" where
  "IsAddressValid keccak256 cfg addr =
     (let decoded = decodeBase58 addr in
      if length decoded < 64 + 4 + 1 then Ret False
      else
        let data = take (length decoded - 4) decoded;
            checksum = drop (length decoded - 4) decoded
        in
          if getChecksum keccak256 data \<noteq> checksum then Ret False
          else if length decoded < length (AddrPrefix cfg) then Panic SliceBoundsOutOfRange
          else if take (length (AddrPrefix cfg)) decoded = AddrPrefix cfg
            then Ret (length data = length (AddrPrefix cfg) + 64)
          else if length decoded < length (SubaddrPrefix cfg) then Panic SliceBoundsOutOfRange
          else if take (length (SubaddrPrefix cfg)) decoded = SubaddrPrefix cfg
            then Ret (length data = length (SubaddrPrefix cfg) + 64)
          else Ret False)"

text \<open>With prefixes of the usual lengths the slices stay within the decoded bytes.\<close>

lemma IsAddressValid_returns:
  assumes "length (AddrPrefix cfg) \<le> 69" "length (SubaddrPrefix cfg) \<le> 69"
  shows "\<exists>v. IsAddressValid keccak256 cfg addr = Ret v"
  using assms by (auto simp: IsAddressValid_def Let_def)

text \<open>A block with a character outside the alphabet decodes to nothing, so that such a block in front of an
  address changes nothing: the decoder does not report the error.\<close>

lemma decode_loop_bad: "\<exists>c \<in> set cs. c \<noteq> CHR ''1'' \<and> base58Lookup c = 0 \<Longrightarrow> decode_loop cs big mul = None"
  by (induction cs arbitrary: big mul) auto

lemma junk_block_ignored:
  assumes "length junk = 11" "\<exists>c \<in> set junk. c \<noteq> CHR ''1'' \<and> base58Lookup c = 0"
  shows "IsAddressValid keccak256 cfg (junk @ addr) = IsAddressValid keccak256 cfg addr"
proof -
  have "decode_loop (rev junk) 0 1 = None" using assms(2) by (intro decode_loop_bad) simp
  then have "decodeBlock junk = []" by (simp add: decodeBlock_def)
  moreover have "length (junk @ addr) div 11 = Suc (length addr div 11)" using assms(1) by simp
  ultimately have "decodeBase58 (junk @ addr) = decodeBase58 addr" using assms(1) by (simp add: decodeBase58_def)
  then show ?thesis by (simp add: IsAddressValid_def)
qed

section \<open>The encoding the decoder inverts\<close>

text \<open>
  CryptoNote's encoder (kept as a comment in \<^verbatim>\<open>base58.go\<close>): each block of eight bytes, and the
  shorter last one, becomes a fixed number of base-58 digits.
\<close>

fun b58_digits :: "nat \<Rightarrow> string" where
  "b58_digits n = (if n = 0 then [] else b58_digits (n div 58) @ [base58_alphabet ! (n mod 58)])"

declare b58_digits.simps [simp del]

definition spec_encodeBlock :: "byte list \<Rightarrow> string" where
  "spec_encodeBlock raw =
     (let r = b58_digits (big_SetBytes raw)
      in replicate (encodedBlockSizes ! length raw - length r) (CHR ''1'') @ r)"

function spec_encodeBase58 :: "byte list \<Rightarrow> string" where
  "spec_encodeBase58 data =
     (if data = [] then []
      else spec_encodeBlock (take 8 data) @ spec_encodeBase58 (drop 8 data))"
  by pat_completeness auto
termination
  by (relation "measure length") auto

declare spec_encodeBase58.simps [simp del]

section \<open>Correctness of decoding\<close>

lemma length_base58_alphabet [simp]: "length base58_alphabet = 58"
  by (simp add: base58_alphabet_def)

lemma base58Lookup_digit: "i < 58 \<Longrightarrow> base58Lookup (base58_alphabet ! i) = i"
proof -
  have "\<forall>i \<in> set [0..<58]. base58Lookup (base58_alphabet ! i) = i"
    by code_simp
  then show "i < 58 \<Longrightarrow> base58Lookup (base58_alphabet ! i) = i" by simp
qed

lemma digit_not_skipped: "i < 58 \<Longrightarrow> base58Lookup (base58_alphabet ! i) = 0 \<Longrightarrow> base58_alphabet ! i = CHR ''1''"
  by (simp add: base58Lookup_digit) (simp add: base58_alphabet_def)

lemma base58Lookup_1 [simp]: "base58Lookup (CHR ''1'') = 0"
  by code_simp

lemma decode_loop_ones [simp]: "decode_loop (replicate k (CHR ''1'')) big mul = Some big"
  by (induction k arbitrary: mul) auto

lemma decode_loop_digits:
  "decode_loop (rev (b58_digits n) @ cs) big mul
     = decode_loop cs (big + mul * n) (mul * 58 ^ length (b58_digits n))"
proof (induction n arbitrary: big mul rule: b58_digits.induct)
  case (1 n)
  show ?case
  proof (cases "n = 0")
    case True
    then show ?thesis by (simp add: b58_digits.simps)
  next
    case False
    let ?d = "n mod 58"
    have ok: "base58_alphabet ! ?d = CHR ''1'' \<or> 0 < ?d"
      using digit_not_skipped [of ?d] by (auto simp: base58Lookup_digit)
    have "mul * ?d + mul * 58 * (n div 58) = mul * (?d + 58 * (n div 58))"
      by (simp only: distrib_left mult.assoc)
    also have "?d + 58 * (n div 58) = n" by (rule mod_mult_div_eq)
    finally have n: "big + mul * ?d + mul * 58 * (n div 58) = big + mul * n"
      by (simp only: add.assoc)
    have "decode_loop (rev (b58_digits n) @ cs) big mul
        = decode_loop (rev (b58_digits (n div 58)) @ cs) (big + mul * ?d) (mul * 58)"
      using False ok by (auto simp: b58_digits.simps [of n] base58Lookup_digit)
    also have "\<dots> = decode_loop cs (big + mul * ?d + mul * 58 * (n div 58))
        (mul * 58 * 58 ^ length (b58_digits (n div 58)))"
      by (rule "1" [OF False])
    also have "mul * 58 * 58 ^ length (b58_digits (n div 58)) = mul * 58 ^ length (b58_digits n)"
      using False by (simp add: b58_digits.simps [of n])
    finally show ?thesis by (simp only: n)
  qed
qed

lemma length_b58_digits: "n < 58 ^ k \<Longrightarrow> length (b58_digits n) \<le> k"
proof (induction k arbitrary: n)
  case 0
  then show ?case by (simp add: b58_digits.simps)
next
  case (Suc k)
  then have "n div 58 < 58 ^ k" by (simp add: div_less_iff_less_mult mult.commute)
  with Suc.IH show ?case by (simp add: b58_digits.simps [of n])
qed

lemma le_digits_pad: "le_digits (le_nat xs) @ replicate (length xs - length (le_digits (le_nat xs))) 0 = xs"
proof (induction xs)
  case (Cons b bs)
  show ?case
  proof (cases "le_nat (b # bs) = 0")
    case True
    then have "b = 0" "le_nat bs = 0" by (auto simp: unat_eq_zero)
    with Cons show ?thesis by (simp del: replicate_Suc) (simp add: replicate_Suc)
  next
    case False
    let ?N = "unat b + 256 * le_nat bs"
    have m: "?N div 256 = le_nat bs" using unat_byte_lt [of b] by simp
    have h: "(of_nat ?N :: byte) = b"
      using unat_byte_lt [of b] by (simp only: word_unat_eq_iff unat_of_nat) simp
    have "le_digits ?N = b # le_digits (le_nat bs)"
      using False by (subst le_digits.simps) (simp only: m h le_nat.simps if_False)
    then show ?thesis using Cons by (simp only: le_nat.simps) simp
  qed
qed simp

lemma drop_pad:
  assumes "length raw \<le> 9"
  shows "(let r = replicate 9 0 @ big_Bytes (big_SetBytes raw) in drop (length r - length raw) r) = raw"
proof -
  let ?n = "length (le_digits (le_nat (rev raw)))"
  have len: "?n \<le> length raw" using length_le_digits [OF le_nat_lt, of "rev raw"] by simp
  have "raw = rev (le_digits (le_nat (rev raw)) @ replicate (length raw - ?n) 0)"
    using le_digits_pad [of "rev raw"] by (metis length_rev rev_rev_ident)
  also have "\<dots> = replicate (length raw - ?n) 0 @ big_Bytes (big_SetBytes raw)"
    by (simp add: big_Bytes_def big_SetBytes_def)
  finally have raw: "replicate (length raw - ?n) 0 @ big_Bytes (big_SetBytes raw) = raw" by simp
  have "drop (9 + ?n - length raw) (replicate 9 (0::byte)) = replicate (length raw - ?n) 0"
  proof -
    have "9 - (9 + ?n - length raw) = length raw - ?n" using assms len by arith
    then show ?thesis by (simp only: drop_replicate)
  qed
  moreover have "9 + ?n - length raw \<le> 9" using len by simp
  moreover have "length (big_Bytes (big_SetBytes raw)) = ?n" by (simp add: big_Bytes_def big_SetBytes_def)
  ultimately have "drop (9 + ?n - length raw) (replicate 9 0 @ big_Bytes (big_SetBytes raw))
      = replicate (length raw - ?n) 0 @ big_Bytes (big_SetBytes raw)" by simp
  also note raw
  finally show ?thesis by (simp add: Let_def big_Bytes_def big_SetBytes_def)
qed

lemma block_sizes:
  assumes "i \<le> 8"
  shows "256 ^ i \<le> (58 :: nat) ^ (encodedBlockSizes ! i)"
    and "index_in encodedBlockSizes (encodedBlockSizes ! i) 0 = Some i"
    and "i < 8 \<Longrightarrow> encodedBlockSizes ! i < 11 \<and> (0 < encodedBlockSizes ! i) = (0 < i)"
proof -
  have "i = 0 \<or> i = 1 \<or> i = 2 \<or> i = 3 \<or> i = 4 \<or> i = 5 \<or> i = 6 \<or> i = 7 \<or> i = 8"
    using assms by auto
  then show "256 ^ i \<le> (58 :: nat) ^ (encodedBlockSizes ! i)"
    and "index_in encodedBlockSizes (encodedBlockSizes ! i) 0 = Some i"
    and "i < 8 \<Longrightarrow> encodedBlockSizes ! i < 11 \<and> (0 < encodedBlockSizes ! i) = (0 < i)"
    by (elim disjE; simp add: encodedBlockSizes_def)+
qed

lemma length_spec_encodeBlock:
  assumes "length raw \<le> 8"
  shows "length (spec_encodeBlock raw) = encodedBlockSizes ! length raw"
proof -
  have "big_SetBytes raw < 256 ^ length raw" using le_nat_lt [of "rev raw"] by (simp add: big_SetBytes_def)
  also have "\<dots> \<le> 58 ^ (encodedBlockSizes ! length raw)" by (rule block_sizes(1) [OF assms])
  finally have "length (b58_digits (big_SetBytes raw)) \<le> encodedBlockSizes ! length raw"
    by (rule length_b58_digits)
  then show ?thesis by (simp add: spec_encodeBlock_def Let_def)
qed

lemma decodeBlock_encode:
  assumes "length raw \<le> 8"
  shows "decodeBlock (spec_encodeBlock raw) = raw"
proof -
  have "decode_loop (rev (spec_encodeBlock raw)) 0 1 = Some (big_SetBytes raw)"
    by (simp add: spec_encodeBlock_def Let_def decode_loop_digits)
  then show ?thesis
    using drop_pad [of raw] assms
    by (simp add: decodeBlock_def length_spec_encodeBlock block_sizes(2))
qed

lemma decode_blocks_encode:
  "decode_blocks (length (spec_encodeBase58 data) div 11) (spec_encodeBase58 data) = data"
proof (induction data rule: spec_encodeBase58.induct)
  case (1 data)
  show ?case
  proof (cases "length data < 8")
    case True
    then have e: "spec_encodeBase58 data = spec_encodeBlock data"
    proof (cases "data = []")
      case True
      then show ?thesis by (simp add: spec_encodeBase58.simps spec_encodeBlock_def b58_digits.simps
            big_SetBytes_def encodedBlockSizes_def)
    next
      case False
      with \<open>length data < 8\<close> show ?thesis
        by (simp add: spec_encodeBase58.simps [of data] spec_encodeBase58.simps [of "[]"])
    qed
    have "length (spec_encodeBlock data) < 11" "(0 < length (spec_encodeBlock data)) = (data \<noteq> [])"
      using True block_sizes(3) [of "length data"] by (simp_all add: length_spec_encodeBlock)
    then show ?thesis using True by (simp add: e decodeBlock_encode)
  next
    case False
    let ?b = "spec_encodeBlock (take 8 data)"
    have d: "data \<noteq> []" using False by auto
    have b: "length ?b = 11" using False by (simp add: length_spec_encodeBlock encodedBlockSizes_def)
    have e: "spec_encodeBase58 data = ?b @ spec_encodeBase58 (drop 8 data)"
      using d by (simp add: spec_encodeBase58.simps [of data])
    have "length (spec_encodeBase58 data) div 11 = Suc (length (spec_encodeBase58 (drop 8 data)) div 11)"
      using b by (simp add: e)
    then show ?thesis using "1" [OF d] b by (simp add: e decodeBlock_encode)
  qed
qed

lemma decodeBase58_spec: "decodeBase58 (spec_encodeBase58 data) = data"
  by (simp add: decodeBase58_def decode_blocks_encode)

section \<open>Properties\<close>

text \<open>decoding inverts CryptoNote's base-58 encoding of any byte string, of any length.\<close>

theorem decodeBase58_encode: "decodeBase58 (spec_encodeBase58 data) = data"
  by (rule decodeBase58_spec)

text \<open>C37: an accepted address decodes to a configured prefix, exactly 64 bytes of keys and the
  first four bytes of the hash of the two: nothing else is ever accepted.\<close>

theorem IsAddressValid_sound:
  assumes "IsAddressValid keccak256 cfg addr = Ret True"
  shows "\<exists>prefix keys. prefix \<in> {AddrPrefix cfg, SubaddrPrefix cfg} \<and> length keys = 64 \<and>
    decodeBase58 addr = prefix @ keys @ getChecksum keccak256 (prefix @ keys)"
proof -
  let ?dec = "decodeBase58 addr"
  let ?data = "take (length ?dec - 4) ?dec"
  from assms have len: "69 \<le> length ?dec" and ck: "getChecksum keccak256 ?data = drop (length ?dec - 4) ?dec"
    by (auto simp: IsAddressValid_def Let_def split: if_splits)
  from assms obtain prefix where p: "prefix \<in> {AddrPrefix cfg, SubaddrPrefix cfg}"
    and pre: "take (length prefix) ?dec = prefix" and l: "length ?data = length prefix + 64"
    by (auto simp: IsAddressValid_def Let_def split: if_splits)
  have "length ?dec - 4 = length prefix + 64" using l by simp
  then have "prefix = take (length prefix) ?data" using pre by (simp add: min_def)
  then have data: "?data = prefix @ drop (length prefix) ?data" by (metis append_take_drop_id)
  have "?dec = ?data @ drop (length ?dec - 4) ?dec" by simp
  also have "\<dots> = (prefix @ drop (length prefix) ?data)
      @ getChecksum keccak256 (prefix @ drop (length prefix) ?data)"
    using data ck by simp
  finally have dec: "?dec = prefix @ drop (length prefix) ?data
      @ getChecksum keccak256 (prefix @ drop (length prefix) ?data)" by simp
  have "length (drop (length prefix) ?data) = 64" using l by simp
  with p dec show ?thesis by blast
qed

theorem IsAddressValid_sound_witness:
  "\<exists>prefix keys. prefix \<in> {[24], [36]} \<and> length keys = 64 \<and>
    decodeBase58 (spec_encodeBase58 ([24] @ replicate 64 7 @ [1, 2, 3, 4]))
      = prefix @ keys @ getChecksum (\<lambda>_. [1, 2, 3, 4, 5]) (prefix @ keys)"
proof -
  let ?cfg = "\<lparr>AddrPrefix = [24], SubaddrPrefix = [36]\<rparr>"
  have "IsAddressValid (\<lambda>_. [1, 2, 3, 4, 5]) ?cfg
      (spec_encodeBase58 ([24] @ replicate 64 7 @ [1, 2, 3, 4])) = Ret True"
    by (simp add: IsAddressValid_def decodeBase58_spec getChecksum_def)
  from IsAddressValid_sound [OF this] show ?thesis by simp
qed

text \<open>Every address that encodes the main prefix, 64 bytes and their checksum is accepted.\<close>

theorem IsAddressValid_complete:
  assumes "AddrPrefix cfg \<noteq> []" "length keys = 64"
    and "length (getChecksum keccak256 (AddrPrefix cfg @ keys)) = 4"
  shows "IsAddressValid keccak256 cfg
    (spec_encodeBase58 (AddrPrefix cfg @ keys @ getChecksum keccak256 (AddrPrefix cfg @ keys))) = Ret True"
  using assms by (auto simp: IsAddressValid_def decodeBase58_spec Suc_le_eq)

theorem IsAddressValid_complete_witness:
  "IsAddressValid (\<lambda>_. [1, 2, 3, 4, 5]) \<lparr>AddrPrefix = [24], SubaddrPrefix = [36]\<rparr>
    (spec_encodeBase58 ([24] @ replicate 64 7 @ getChecksum (\<lambda>_. [1, 2, 3, 4, 5]) ([24] @ replicate 64 7))) = Ret True"
  using IsAddressValid_complete [of "\<lparr>AddrPrefix = [24], SubaddrPrefix = [36]\<rparr>" "replicate 64 7"
      "\<lambda>_. [1, 2, 3, 4, 5]"]
  by (simp add: getChecksum_def)

section \<open>A sample address\<close>

lemma set_b58_digits: "set (b58_digits n) \<subseteq> set base58_alphabet"
proof (induction n rule: b58_digits.induct)
  case (1 n)
  have "base58_alphabet ! (n mod 58) \<in> set base58_alphabet" by simp
  with 1 show ?case by (subst b58_digits.simps) auto
qed

lemma set_spec_encodeBase58: "set (spec_encodeBase58 data) \<subseteq> set base58_alphabet"
proof (induction data rule: spec_encodeBase58.induct)
  case (1 data)
  have "CHR ''1'' \<in> set base58_alphabet" by (simp add: base58_alphabet_def)
  then have "set (spec_encodeBlock (take 8 data)) \<subseteq> set base58_alphabet"
    using set_b58_digits [of "big_SetBytes (take 8 data)"] by (auto simp: spec_encodeBlock_def Let_def)
  with 1 show ?case by (subst spec_encodeBase58.simps) auto
qed

lemma length_spec_encodeBase58: "8 \<le> length data \<Longrightarrow> 11 \<le> length (spec_encodeBase58 data)"
  using length_spec_encodeBlock [of "take 8 data"]
  by (subst spec_encodeBase58.simps) (auto simp: encodedBlockSizes_def)

lemma encoded_block_le: "n \<le> 8 \<Longrightarrow> encodedBlockSizes ! n \<le> 11"
  using block_sizes(3) [of n] by (cases "n = 8") (auto simp: encodedBlockSizes_def)

lemma length_spec_encodeBase58_le: "length (spec_encodeBase58 data) \<le> 11 * length data"
proof (induction data rule: spec_encodeBase58.induct)
  case (1 data)
  have "length (spec_encodeBlock (take 8 data)) \<le> 11"
    using encoded_block_le [of "length (take 8 data)"] by (simp add: length_spec_encodeBlock)
  moreover have "11 + 11 * length (drop 8 data) \<le> 11 * length data" if "data \<noteq> []" using that by (cases data) auto
  ultimately show ?case using 1 by (subst spec_encodeBase58.simps) fastforce
qed

definition sample_keccak :: "byte list \<Rightarrow> byte list" where
  "sample_keccak data = [1, 2, 3, 4, 5]"

definition sample_acfg :: addr_config where
  "sample_acfg = \<lparr>AddrPrefix = [24], SubaddrPrefix = [36]\<rparr>"

definition sample_address :: string where
  "sample_address = spec_encodeBase58 (24 # replicate 64 7 @ [1, 2, 3, 4])"

lemma sample_address_valid: "IsAddressValid sample_keccak sample_acfg sample_address = Ret True"
  by (simp add: IsAddressValid_def sample_address_def decodeBase58_spec getChecksum_def sample_keccak_def sample_acfg_def)

lemma sample_address_chars:
  "CHR ''.'' \<notin> set sample_address" "CHR ''+'' \<notin> set sample_address" "CHR '':'' \<notin> set sample_address"
  "11 \<le> length sample_address"
  using set_spec_encodeBase58 [of "24 # replicate 64 7 @ [1, 2, 3, 4]"]
  by (auto simp: sample_address_def base58_alphabet_def intro: length_spec_encodeBase58)

lemma sample_address_short: "length sample_address < 1000"
  using length_spec_encodeBase58_le [of "24 # replicate 64 7 @ [1, 2, 3, 4]"] by (simp add: sample_address_def)

end
