(* ===== verification/Login.thy ===== *)
theory Login
  imports Jobs Address
begin

text \<open>
  The login phase of a miner's session: \<open>extractWorkerID\<close> and the part of \<open>HandleConnection\<close>
  (\<^verbatim>\<open>src/cmd/slave/conn.go\<close>) up to the login response, without p2pool. The request as \<open>ReadJSON\<close>
  returned it, the answers of the daemon and the random bytes are arguments.
\<close>

section \<open>The worker name\<close>

text \<open>Method 2: the part after the first dot, up to a plus sign.\<close>

definition worker_of_login :: "string \<Rightarrow> string option" where
  "worker_of_login login =
     (if strings_Contains login ''.'' then
        let dotParts = strings_Split login ''.'' in
        if 2 \<le> length dotParts \<and> 0 < length (dotParts ! 1) then
          let workerPart = dotParts ! 1 in
          if strings_Contains workerPart ''+'' then
            let plusParts = strings_Split workerPart ''+'' in
            if 2 \<le> length plusParts \<and> 0 < length (plusParts ! 0) then Some (plusParts ! 0) else None
          else Some workerPart
        else None
      else None)"

text \<open>Methods 3 and 4: the rig name in the user agent, or the default.\<close>

definition worker_of_agent :: "string \<Rightarrow> string go" where
  "worker_of_agent agent =
     (if strings_Contains agent ''rig-id/'' then
        let rigParts = strings_Split agent ''rig-id/'' in
        if 2 \<le> length rigParts then
          go_bind (go_index (strings_Fields (rigParts ! 1)) 0) (\<lambda>rigID.
          Ret (if rigID \<noteq> '''' then rigID else ''default''))
        else Ret ''default''
      else Ret ''default'')"

definition extractWorkerID :: "string \<Rightarrow> string \<Rightarrow> string \<Rightarrow> string go" where
  "extractWorkerID login pass agent =
     (if pass \<noteq> '''' \<and> pass \<noteq> ''x'' \<and> pass \<noteq> ''X'' then Ret pass
      else case worker_of_login login of
             Some w \<Rightarrow> Ret w
           | None \<Rightarrow> worker_of_agent agent)"

section \<open>Address and difficulty\<close>

text \<open>The login without its difficulty, and the difficulty (0 if there is none).\<close>

definition split_difficulty :: "string \<Rightarrow> string \<times> u64" where
  "split_difficulty login =
     (case last_index (CHR ''+'') login of
        None \<Rightarrow> (login, 0)
      | Some plusIndex \<Rightarrow>
          (take plusIndex login,
           case ParseUint (drop (plusIndex + 1) login) of Some diffVal \<Rightarrow> diffVal | None \<Rightarrow> 0))"

definition login_address :: "(byte list \<Rightarrow> byte list) \<Rightarrow> addr_config \<Rightarrow> string \<Rightarrow> string go" where
  "login_address keccak acfg loginWithoutDiff =
     (let addressParts = strings_Split loginWithoutDiff ''.'' in
      if 2 \<le> length addressParts then
        go_map (\<lambda>valid. if valid then addressParts ! 0 else loginWithoutDiff)
          (IsAddressValid keccak acfg (addressParts ! 0))
      else Ret loginWithoutDiff)"

definition start_diff :: "SlaveConfig \<Rightarrow> u64 \<Rightarrow> u64 \<Rightarrow> u64" where
  "start_diff cfg requestedDiff currentDiff =
     (let d = (if 0 < requestedDiff then (if requestedDiff < MinDiff cfg then MinDiff cfg else requestedDiff)
               else currentDiff)
      in if d = 0 then MinDiff cfg * 2 else d)"

section \<open>Login\<close>

type_synonym workers = "u64 \<rightharpoonup> string \<times> string"

record login_env =
  leBanned :: bool
  leRequest :: "(u64 \<times> loginReq) option"
  leRpc :: "string + BlockTemplate"
  leRandom :: "byte list"
  leNow :: int
  leInfoLocked :: bool
  leNicehashLocked :: bool

datatype login_end =
    LoginRejected
  | LoginStuck
  | LoggedIn string string

record login_state =
  lsConn :: Connection
  lsWorkers :: workers
  lsNicehash :: NicehashJob
  lsInfo :: Infos

definition nicehash_agent :: "loginReq \<Rightarrow> bool" where
  "nicehash_agent req =
     (5 < length (lrAgent req) \<and> take 5 (lrAgent req) = ''XMRig'' \<or> lrNicehashSupport req)"

definition fill_defaults :: "loginReq \<Rightarrow> loginReq" where
  "fill_defaults req =
     (let req = (if lrPass req = '''' then req\<lparr>lrPass := ''x''\<rparr> else req)
      in if lrAgent req = '''' then req\<lparr>lrAgent := ''No agent specified''\<rparr> else req)"

text \<open>The first job, without p2pool.\<close>

definition first_job ::
  "Config \<Rightarrow> u64 \<Rightarrow> string + BlockTemplate \<Rightarrow> byte list \<Rightarrow> login_state \<Rightarrow> (bool \<times> reply list \<times> login_state) go" where
  "first_job cfg reqID rpc rb s =
     (let c = lsConn s in
      if Nicehash c then
        go_map (\<lambda>(r, nh, info).
          let s = s\<lparr>lsNicehash := nh, lsInfo := info\<rparr> in
          case r of
            Inl e \<Rightarrow> (False, [], s)
          | Inr (curJob, blob, nicehashByte) \<Rightarrow>
              let j = (CurrentJob c)\<lparr>cjNicehashByte := nicehashByte, cjBlob := blob\<rparr> in
              (case hex_DecodeString (jobBlob curJob) of
                 None \<Rightarrow> (False, [], s\<lparr>lsConn := c\<lparr>CurrentJob := j\<lparr>cjHashingBlob := hex_prefix (jobBlob curJob)\<rparr>\<rparr>\<rparr>)
               | Some hashing \<Rightarrow>
                   (True, [LoginResponse reqID curJob [''keepalive'', ''nicehash'']],
                    s\<lparr>lsConn := c\<lparr>CurrentJob := set_job j blob hashing (jobJobID curJob)\<rparr>\<rparr>)))
          (GetNicehashJob (AlgoName cfg) rpc rb (cjDiff (CurrentJob c)) (lsNicehash s, lsInfo s))
      else
        (case GetJob (AlgoName cfg) rpc rb (cjDiff (CurrentJob c)) (lsInfo s) of
           (Inl e, info) \<Rightarrow> Ret (False, [], s\<lparr>lsInfo := info\<rparr>)
         | (Inr (curJob, blob), info) \<Rightarrow>
             let s = s\<lparr>lsInfo := info\<rparr>;
                 j = (CurrentJob c)\<lparr>cjBlob := blob\<rparr>
             in (case hex_DecodeString (jobBlob curJob) of
                   None \<Rightarrow> Ret (False, [], s\<lparr>lsConn := c\<lparr>CurrentJob := j\<lparr>cjHashingBlob := hex_prefix (jobBlob curJob)\<rparr>\<rparr>\<rparr>)
                 | Some hashing \<Rightarrow>
                     Ret (True, [LoginResponse reqID curJob [''keepalive'']],
                          s\<lparr>lsConn := c\<lparr>CurrentJob := set_job j blob hashing (jobJobID curJob)\<rparr>\<rparr>))))"

text \<open>The first job waits for a mutex that is never released: \<open>NicehashMutex\<close>, or \<open>CurInfo\<close>'s once a usable
  template has arrived (a NiceHash job that is reused needs no template).\<close>

definition first_job_waits :: "login_env \<Rightarrow> bool \<Rightarrow> NicehashJob \<Rightarrow> bool" where
  "first_job_waits env nicehash nh =
     (let stores = leInfoLocked env \<and>
            (case leRpc env of Inl _ \<Rightarrow> False | Inr t \<Rightarrow> hex_DecodeString (btBlocktemplateBlob t) \<noteq> None) in
      if nicehash then leNicehashLocked env \<or> ((nhLastNonce nh = 255 \<or> nhLastNonce nh = 0) \<and> stores) else stores)"

text \<open>
  The login phase without p2pool. Every rejection kicks the client and ends the session; a
  rejection after the worker was registered runs the deferred function that forgets it.
\<close>

definition login_phase ::
  "(byte list \<Rightarrow> byte list) \<Rightarrow> addr_config \<Rightarrow> Config \<Rightarrow> login_env \<Rightarrow> login_state
     \<Rightarrow> (login_end \<times> reply list \<times> login_state) go" where
  "login_phase keccak acfg cfg env s =
     (if leBanned env then
        Ret (LoginRejected, [ReplyError None (-1) ''Too many invalid shares. Try again later.''], s)
      else case leRequest env of
        None \<Rightarrow> Ret (LoginRejected, [], s)
      | Some (reqID, req) \<Rightarrow>
          if lrLogin req = '''' then Ret (LoginRejected, [], s)
          else
            let req = fill_defaults req;
                c = lsConn s;
                c = (if nicehash_agent req then c\<lparr>Nicehash := True\<rparr> else c);
                (loginWithoutDiff, requestedDiff) = split_difficulty (lrLogin req)
            in go_bind (login_address keccak acfg loginWithoutDiff) (\<lambda>connAddress.
               go_bind (if length connAddress < 10 then Ret False else IsAddressValid keccak acfg connAddress) (\<lambda>valid.
               if \<not> valid then
                 Ret (LoginRejected, [ReplyError (Some reqID) (-1) ''Invalid payment address provided''], s\<lparr>lsConn := c\<rparr>)
               else
                 go_bind (extractWorkerID (lrLogin req) (lrPass req) (lrAgent req)) (\<lambda>workerID.
                 let d = start_diff (SlaveCfg cfg) requestedDiff (cjDiff (CurrentJob c));
                     c = c\<lparr>CurrentJob := (CurrentJob c)\<lparr>cjDiff := d\<rparr>, NextDiff := f64_of_u64 d, LastShare := leNow env\<rparr>
                 in if first_job_waits env (Nicehash c) (lsNicehash s) then
                      Ret (LoginStuck, [], s\<lparr>lsConn := c, lsWorkers := (lsWorkers s)(connId c \<mapsto> (connAddress, workerID))\<rparr>)
                    else go_map (\<lambda>(ok, replies, s').
                      if ok then (LoggedIn connAddress workerID, replies,
                                  s'\<lparr>lsWorkers := (lsWorkers s')(connId c \<mapsto> (connAddress, workerID))\<rparr>)
                      else (LoginRejected, replies, s'\<lparr>lsWorkers := (lsWorkers s')(connId c := None)\<rparr>))
                    (first_job cfg reqID (leRpc env) (leRandom env) (s\<lparr>lsConn := c\<rparr>))))))"

section \<open>What a login means\<close>

lemma format_nat_digits: "set (format_nat n) \<subseteq> char_of ` {48..57::nat}"
proof (induction n rule: format_nat.induct)
  case (1 n)
  show ?case
  proof (cases "n < 10")
    case True
    then show ?thesis by (subst format_nat.simps) auto
  next
    case False
    have "48 + n mod 10 \<in> {48..57}" by simp
    with False 1 show ?thesis by (subst format_nat.simps) auto
  qed
qed

lemma FormatUint_no_sep: "CHR ''+'' \<notin> set (FormatUint d)" "CHR ''.'' \<notin> set (FormatUint d)"
proof -
  have "of_char c \<in> {48..57::nat}" if "c \<in> set (FormatUint d)" for c
    using format_nat_digits [of "unat d"] that by (auto simp: FormatUint_def)
  then show "CHR ''+'' \<notin> set (FormatUint d)" "CHR ''.'' \<notin> set (FormatUint d)" by fastforce+
qed

definition full_login :: "string \<Rightarrow> string \<Rightarrow> u64 \<Rightarrow> string" where
  "full_login addr worker d = addr @ CHR ''.'' # worker @ CHR ''+'' # FormatUint d"

definition plain :: "string \<Rightarrow> bool" where
  "plain s = (CHR ''.'' \<notin> set s \<and> CHR ''+'' \<notin> set s)"

lemma split_full_login:
  "split_difficulty (full_login addr worker d) = (addr @ CHR ''.'' # worker, d)"
proof -
  have "last_index (CHR ''+'') ((addr @ CHR ''.'' # worker) @ CHR ''+'' # FormatUint d) = Some (length (addr @ CHR ''.'' # worker))"
    by (intro last_index_append FormatUint_no_sep)
  then show ?thesis by (simp add: split_difficulty_def full_login_def ParseUint_FormatUint)
qed

lemma address_full_login:
  "plain addr \<Longrightarrow> IsAddressValid keccak acfg addr = Ret True \<Longrightarrow>
   plain worker \<Longrightarrow> login_address keccak acfg (addr @ CHR ''.'' # worker) = Ret addr"
  by (simp add: login_address_def Split_char Split_char_notin plain_def)

text \<open>The worker of such a login: the password, unless it is a placeholder.\<close>

definition named_worker :: "string \<Rightarrow> string \<Rightarrow> string" where
  "named_worker pass worker = (if pass \<in> {'''', ''x'', ''X''} then worker else pass)"

lemma worker_full_login:
  assumes "plain addr" "plain worker" "worker \<noteq> []"
  shows "extractWorkerID (full_login addr worker d) pass agent = Ret (named_worker pass worker)"
proof -
  have dots: "strings_Split (full_login addr worker d) ''.'' = [addr, worker @ CHR ''+'' # FormatUint d]"
    using assms(1,2) FormatUint_no_sep(2)
    by (simp add: full_login_def Split_char Split_char_notin plain_def)
  have plus: "strings_Split (worker @ CHR ''+'' # FormatUint d) ''+'' = [worker, FormatUint d]"
    using assms(2) FormatUint_no_sep(1) by (simp add: Split_char Split_char_notin plain_def)
  have "worker_of_login (full_login addr worker d) = Some worker"
    unfolding worker_of_login_def dots Let_def Contains_char
    using assms(3) plus by (simp add: full_login_def)
  then show ?thesis by (auto simp: extractWorkerID_def named_worker_def)
qed

lemma fill_defaults_fields:
  "lrLogin (fill_defaults req) = lrLogin req"
  "named_worker (lrPass (fill_defaults req)) worker = named_worker (lrPass req) worker"
  "nicehash_agent (fill_defaults req) = nicehash_agent req"
  by (auto simp: fill_defaults_def named_worker_def nicehash_agent_def Let_def)

lemma fill_defaults_pass:
  "lrPass req \<in> {'''', ''x'', ''X''} \<Longrightarrow> lrPass (fill_defaults req) \<in> {'''', ''x'', ''X''}"
  by (auto simp: fill_defaults_def Let_def)

text \<open>The shared NiceHash job is in order: it is to be replaced, or its blob has the byte of the nonce.\<close>

definition nh_ready :: "NicehashJob \<Rightarrow> bool" where
  "nh_ready nh = (nhLastNonce nh = 0 \<or> nhLastNonce nh = 255 \<or> 43 \<le> length (nhHashingBlob nh))"

lemma GetNicehashJob_ready:
  assumes "nh_ready nh" "usable rpc"
  shows "\<exists>job blob b nh' info' hashing. GetNicehashJob algo rpc rb d (nh, info) = Ret (Inr (job, blob, b), nh', info') \<and>
    hex_DecodeString (jobBlob job) = Some hashing \<and> jobTarget job = DiffToShortTarget d"
proof -
  obtain t where t: "rpc = Inr t" "hex_DecodeString (btBlocktemplateBlob t) = Some (template_blob rpc)"
    "hex_DecodeString (btBlockhashingBlob t) = Some (hashing_blob rpc)" "43 \<le> length (hashing_blob rpc)"
    using usableE [OF assms(2)] by blast
  show ?thesis
  proof (cases "nhLastNonce nh = 255 \<or> nhLastNonce nh = 0")
    case True
    with t show ?thesis by (auto simp: GetNicehashJob_def nicehash_job_def hex_roundtrip Let_def)
  next
    case False
    with assms(1) show ?thesis by (auto simp: GetNicehashJob_def nicehash_job_def hex_roundtrip nh_ready_def Let_def)
  qed
qed

definition job_extensions :: "bool \<Rightarrow> string list" where
  "job_extensions nicehash = (if nicehash then [''keepalive'', ''nicehash''] else [''keepalive''])"

lemma first_job_ready:
  assumes "Nicehash (lsConn s) \<longrightarrow> nh_ready (lsNicehash s)" "usable rpc"
  shows "\<exists>job s'. first_job cfg i rpc rb s = Ret (True, [LoginResponse i job (job_extensions (Nicehash (lsConn s)))], s') \<and>
    cjDiff (CurrentJob (lsConn s')) = cjDiff (CurrentJob (lsConn s)) \<and>
    jobTarget job = DiffToShortTarget (cjDiff (CurrentJob (lsConn s))) \<and>
    cjJobID (CurrentJob (lsConn s')) = jobJobID job"
proof (cases "Nicehash (lsConn s)")
  case True
  obtain job blob b nh' info' hashing where
    "GetNicehashJob (AlgoName cfg) rpc rb (cjDiff (CurrentJob (lsConn s))) (lsNicehash s, lsInfo s) = Ret (Inr (job, blob, b), nh', info')"
    "hex_DecodeString (jobBlob job) = Some hashing" "jobTarget job = DiffToShortTarget (cjDiff (CurrentJob (lsConn s)))"
    using GetNicehashJob_ready assms True by blast
  with True show ?thesis by (simp add: first_job_def job_extensions_def set_job_def Let_def)
next
  case False
  obtain t where "rpc = Inr t" "hex_DecodeString (btBlocktemplateBlob t) = Some (template_blob rpc)"
    "hex_DecodeString (btBlockhashingBlob t) = Some (hashing_blob rpc)"
    using usableE [OF assms(2)] by blast
  with False show ?thesis by (simp add: first_job_def GetJob_def job_extensions_def set_job_def Let_def)
qed

text \<open>C19: the login \<open>address.worker+difficulty\<close>, without p2pool. A client that is not banned and
  sends a valid address, a worker name and a positive difficulty (without dots and plus signs inside
  the first two) is logged in, while no mutex is held for ever and the daemon answers, under that
  address. Its worker name is the one in the login, unless its password is something else than
  nothing, \<open>x\<close> or \<open>X\<close>: then it is the password. Its first job has the greater of the requested
  difficulty and the configured minimum. The worker is registered for the connection. An XMRig agent,
  or one that asks for it, gets a NiceHash job and the reply says so; any other gets a plain job.\<close>

theorem full_login_accepted:
  assumes addr: "IsAddressValid keccak acfg addr = Ret True" "plain addr" "10 \<le> length addr"
    and worker: "plain worker" "worker \<noteq> []" and d: "0 < d"
    and req: "leRequest env = Some (i, req)" "lrLogin req = full_login addr worker d"
    and env: "\<not> leBanned env" "usable (leRpc env)" "\<not> leInfoLocked env" "\<not> leNicehashLocked env"
    and s: "\<not> Nicehash (lsConn s)" "nicehash_agent req \<longrightarrow> nh_ready (lsNicehash s)"
  shows "\<exists>job s'. login_phase keccak acfg cfg env s = Ret (LoggedIn addr (named_worker (lrPass req) worker),
        [LoginResponse i job (job_extensions (nicehash_agent req))], s') \<and>
     cjDiff (CurrentJob (lsConn s')) = max d (MinDiff (SlaveCfg cfg)) \<and>
     jobTarget job = DiffToShortTarget (max d (MinDiff (SlaveCfg cfg))) \<and>
     cjJobID (CurrentJob (lsConn s')) = jobJobID job \<and>
     lsWorkers s' (connId (lsConn s)) = Some (addr, named_worker (lrPass req) worker)"
proof -
  let ?w = "named_worker (lrPass req) worker" and ?d = "max d (MinDiff (SlaveCfg cfg))"
  let ?c = "if nicehash_agent req then (lsConn s)\<lparr>Nicehash := True\<rparr> else lsConn s"
  let ?s = "s\<lparr>lsConn := ?c\<lparr>CurrentJob := (CurrentJob ?c)\<lparr>cjDiff := ?d\<rparr>, NextDiff := f64_of_u64 ?d, LastShare := leNow env\<rparr>\<rparr>"
  have nh: "Nicehash (lsConn ?s) = nicehash_agent req" using s(1) by simp
  have "Nicehash (lsConn ?s) \<longrightarrow> nh_ready (lsNicehash ?s)" using s by simp
  from first_job_ready [OF this env(2), of cfg i "leRandom env"] obtain job s' where
    job: "first_job cfg i (leRpc env) (leRandom env) ?s = Ret (True, [LoginResponse i job (job_extensions (nicehash_agent req))], s')"
    "cjDiff (CurrentJob (lsConn s')) = ?d" "jobTarget job = DiffToShortTarget ?d" "cjJobID (CurrentJob (lsConn s')) = jobJobID job"
    unfolding nh by auto
  have waits: "\<not> first_job_waits env n nh" for n nh using env(3,4) by (simp add: first_job_waits_def Let_def)
  have "extractWorkerID (full_login addr worker d) (lrPass (fill_defaults req)) agent = Ret ?w" for agent
    using worker_full_login [OF addr(2) worker] by (simp add: fill_defaults_fields(2))
  moreover have "full_login addr worker d \<noteq> ''''" by (simp add: full_login_def)
  moreover have "start_diff (SlaveCfg cfg) d x = ?d" for x
    using d by (auto simp: start_diff_def Let_def max_def)
  moreover have "connId ?c = connId (lsConn s)" by simp
  ultimately have "login_phase keccak acfg cfg env s = Ret (LoggedIn addr ?w, [LoginResponse i job (job_extensions (nicehash_agent req))],
      s'\<lparr>lsWorkers := (lsWorkers s')(connId (lsConn s) \<mapsto> (addr, ?w))\<rparr>)"
    using req env(1) addr job(1)
    by (simp add: login_phase_def Let_def fill_defaults_fields(1,3) split_full_login address_full_login [OF addr(2,1) worker(1)] waits
        del: fun_upd_apply)
  with job(2-4) show ?thesis by simp
qed

definition sample_login_state :: login_state where
  "sample_login_state = \<lparr>lsConn = accept_conn True 3, lsWorkers = Map.empty, lsNicehash = zero_NicehashJob, lsInfo = sample_Infos\<rparr>"

text \<open>An XMRig miner whose password is \<open>rig7\<close>.\<close>

lemma full_login_accepted_witness:
  "\<exists>job s'. login_phase sample_keccak sample_acfg sample_Config
      \<lparr>leBanned = False, leRequest = Some (1, \<lparr>lrLogin = full_login sample_address ''rig1'' 2000, lrPass = ''rig7'', lrAgent = ''XMRig/6'', lrNicehashSupport = False\<rparr>),
       leRpc = Inr sample_template, leRandom = [1], leNow = 0, leInfoLocked = False, leNicehashLocked = False\<rparr> sample_login_state
      = Ret (LoggedIn sample_address ''rig7'', [LoginResponse 1 job [''keepalive'', ''nicehash'']], s') \<and>
     cjDiff (CurrentJob (lsConn s')) = 2000"
proof -
  let ?req = "\<lparr>lrLogin = full_login sample_address ''rig1'' 2000, lrPass = ''rig7'', lrAgent = ''XMRig/6'', lrNicehashSupport = False\<rparr>"
  let ?env = "\<lparr>leBanned = False, leRequest = Some (1, ?req), leRpc = Inr sample_template, leRandom = [1], leNow = 0, leInfoLocked = False, leNicehashLocked = False\<rparr>"
  have plain: "plain sample_address" "10 \<le> length sample_address"
    using sample_address_chars by (simp_all add: plain_def)
  have nh: "nicehash_agent ?req" by (simp add: nicehash_agent_def)
  have w: "named_worker (lrPass ?req) ''rig1'' = ''rig7''" by (simp add: named_worker_def)
  have e: "job_extensions True = [''keepalive'', ''nicehash'']" by (simp add: job_extensions_def)
  have "nh_ready (lsNicehash sample_login_state)" "\<not> Nicehash (lsConn sample_login_state)"
    by (simp_all add: sample_login_state_def nh_ready_def zero_NicehashJob_def accept_conn_def)
  then show ?thesis
    using full_login_accepted [OF sample_address_valid plain, where worker = "''rig1''" and d = 2000 and env = ?env and i = 1
        and req = ?req and s = sample_login_state and cfg = sample_Config] nh
    unfolding w by (auto simp: plain_def sample_usable e sample_Config_def sample_SlaveConfig_def max_def)
qed

section \<open>Crafted user agents\<close>

lemma Fields_spaces: "list_all is_ascii_space sp \<Longrightarrow> strings_Fields sp = []"
proof -
  have "fields_loop [] sp = []" if "list_all is_ascii_space sp" using that by (induction sp) auto
  then show "list_all is_ascii_space sp \<Longrightarrow> strings_Fields sp = []" by (simp add: strings_Fields_def)
qed

lemma find_sub_head: "c \<notin> set s \<Longrightarrow> find_sub (c # cs) s = None"
  by (induction s) auto

lemma worker_of_agent_panics:
  assumes "list_all is_ascii_space sp"
  shows "worker_of_agent (''rig-id/'' @ sp) = Panic IndexOutOfRange"
proof -
  have "CHR ''r'' \<notin> set sp" using assms by (auto simp: list_all_iff is_ascii_space_def)
  then have "find_sub ''rig-id/'' sp = None" by (rule find_sub_head)
  then have "strings_Split (''rig-id/'' @ sp) ''rig-id/'' = ['''', sp]"
    by (simp add: strings_Split.simps [of "CHR ''r'' # _"] strings_Split.simps [of sp])
  moreover have "strings_Contains (''rig-id/'' @ sp) ''rig-id/''" by (simp add: strings_Contains_def)
  ultimately show ?thesis by (simp add: worker_of_agent_def Fields_spaces [OF assms] go_index_def)
qed

text \<open>A user agent crashes the slave. A client that is not banned, logs in with a bare valid
  address and a default password, and whose user agent is \<open>rig-id/\<close> followed by blanks only,
  makes the session panic; no deferred function recovers, so the whole process ends.\<close>

theorem empty_rig_id_panics:
  assumes addr: "IsAddressValid keccak acfg addr = Ret True" "plain addr" "10 \<le> length addr"
    and req: "leRequest env = Some (i, req)" "lrLogin req = addr" "lrPass req \<in> {'''', ''x'', ''X''}"
      "lrAgent req = ''rig-id/'' @ sp" "list_all is_ascii_space sp"
    and ban: "\<not> leBanned env"
  shows "login_phase keccak acfg cfg env s = Panic IndexOutOfRange"
proof -
  have "addr \<noteq> ''''" using addr(3) by auto
  moreover have "last_index (CHR ''+'') addr = None" using addr(2) by (intro last_index_notin) (simp add: plain_def)
  then have "split_difficulty addr = (addr, 0)" by (simp add: split_difficulty_def)
  moreover have "login_address keccak acfg addr = Ret addr"
    using addr(2) by (simp add: login_address_def Split_char_notin plain_def)
  moreover have "extractWorkerID addr (lrPass (fill_defaults req)) (lrAgent (fill_defaults req)) = Panic IndexOutOfRange"
  proof -
    have "worker_of_login addr = None" using addr(2) by (simp add: worker_of_login_def Contains_char plain_def)
    moreover have "lrAgent (fill_defaults req) = ''rig-id/'' @ sp" using req(4) by (simp add: fill_defaults_def Let_def)
    ultimately show ?thesis
      using fill_defaults_pass [OF req(3)] worker_of_agent_panics [OF req(5)]
      by (auto simp: extractWorkerID_def)
  qed
  ultimately show ?thesis
    using addr(1,3) req(1,2) ban by (simp add: login_phase_def Let_def fill_defaults_fields(1))
qed

lemma empty_rig_id_panics_witness:
  "login_phase sample_keccak sample_acfg sample_Config
      \<lparr>leBanned = False, leRequest = Some (1, \<lparr>lrLogin = sample_address, lrPass = ''x'', lrAgent = ''rig-id/ '', lrNicehashSupport = False\<rparr>),
       leRpc = Inl ''down'', leRandom = [], leNow = 0, leInfoLocked = False, leNicehashLocked = False\<rparr> sample_login_state = Panic IndexOutOfRange"
proof -
  let ?req = "\<lparr>lrLogin = sample_address, lrPass = ''x'', lrAgent = ''rig-id/ '', lrNicehashSupport = False\<rparr>"
  have "plain sample_address" "10 \<le> length sample_address" using sample_address_chars by (simp_all add: plain_def)
  from empty_rig_id_panics [OF sample_address_valid this, where req = ?req and i = 1 and sp = "'' ''"]
  show ?thesis by (simp add: is_ascii_space_def)
qed

end
