(* ===== verification/Penalty.thy ===== *)
theory Penalty
  imports Slave_Config
begin

text \<open>
  The penalty box of the slave (\<^verbatim>\<open>src/cmd/slave/penalty.go\<close>): share windows per connection, bans
  per IP address. Each operation runs under the box's mutex, so a call is one step of the
  state. The readings of the clock are arguments: \<open>RecordShare\<close> reads it once into \<open>now\<close> and
  once more in \<open>time.Since\<close>; the cleanup reads it for every entry it visits.
\<close>

record ShareWindow =
  Good :: int
  Bad :: int
  StartTime :: instant
  LastShareTime :: instant
  ShareTimings :: "instant list"

record PenaltyBox =
  banned :: "string \<rightharpoonup> instant"
  windows :: "u64 \<rightharpoonup> ShareWindow"
  ipConns :: "string \<rightharpoonup> u64 list"

definition empty_box :: PenaltyBox where
  "empty_box = \<lparr>banned = Map.empty, windows = Map.empty, ipConns = Map.empty\<rparr>"

definition contains :: "u64 list \<Rightarrow> u64 \<Rightarrow> bool" where
  "contains vs val = list_ex (\<lambda>v. v = val) vs"

section \<open>Operations\<close>

text \<open>\<open>pb.banned[ip] = now.Add(banDuration)\<close> and the removal of the windows of that address.\<close>

definition ban_ip :: "SlaveConfig \<Rightarrow> instant \<Rightarrow> string \<Rightarrow> PenaltyBox \<Rightarrow> PenaltyBox" where
  "ban_ip cfg now ip pb =
     (let conns = map_get [] (ipConns pb) ip in
      pb\<lparr>banned := (banned pb)(ip \<mapsto> now + Minutes (BanDurationMinutes cfg)),
         windows := (\<lambda>c. if c \<in> set conns then None else windows pb c)\<rparr>)"

text \<open>The window the share is counted in: the current one, or a new one when there is none or
  it has expired.\<close>

definition open_window ::
  "SlaveConfig \<Rightarrow> instant \<Rightarrow> instant \<Rightarrow> u64 \<Rightarrow> string \<Rightarrow> PenaltyBox \<Rightarrow> (ShareWindow \<times> PenaltyBox) go" where
  "open_window cfg now now2 connID ip pb =
     (let fresh =
        (if ShareTimingWindowSize cfg < 0 then Panic MakeSliceRange
         else
           let w = \<lparr>Good = 0, Bad = 0, StartTime = now, LastShareTime = zero_time, ShareTimings = []\<rparr>;
               pb = pb\<lparr>windows := (windows pb)(connID \<mapsto> w)\<rparr>;
               conns = map_get [] (ipConns pb) ip
           in Ret (w, if contains conns connID then pb
                      else pb\<lparr>ipConns := (ipConns pb)(ip \<mapsto> conns @ [connID])\<rparr>))
      in case windows pb connID of
           None \<Rightarrow> fresh
         | Some w \<Rightarrow>
             if time_Sub now2 (StartTime w) > Minutes (ShareWindowMinutes cfg) then fresh
             else Ret (w, pb))"

definition push_timing :: "SlaveConfig \<Rightarrow> instant \<Rightarrow> instant list \<Rightarrow> instant list" where
  "push_timing cfg now ts =
     (let ts = ts @ [now] in
      if int (length ts) > ShareTimingWindowSize cfg then tl ts else ts)"

definition rate_exceeded :: "SlaveConfig \<Rightarrow> instant \<Rightarrow> instant list \<Rightarrow> bool" where
  "rate_exceeded cfg now ts =
     (10 \<le> length ts \<and>
      (let windowDuration = Seconds (time_Sub now (hd ts)) in
       Fin 0 < windowDuration \<and>
       MaxSharesPerSecond cfg < f64_of_int (int (length ts)) / windowDuration))"

definition ratio_exceeded :: "SlaveConfig \<Rightarrow> int \<Rightarrow> int \<Rightarrow> bool" where
  "ratio_exceeded cfg good bad =
     (6 \<le> good + bad \<and> 0 < bad \<and> BadShareRatio cfg < f64_of_int bad / f64_of_int (good + bad))"

definition count_share :: "bool \<Rightarrow> ShareWindow \<Rightarrow> ShareWindow" where
  "count_share v w = (if v then w\<lparr>Good := Good w + 1\<rparr> else w\<lparr>Bad := Bad w + 1\<rparr>)"

definition RecordShare ::
  "SlaveConfig \<Rightarrow> instant \<Rightarrow> instant \<Rightarrow> u64 \<Rightarrow> string \<Rightarrow> bool \<Rightarrow> PenaltyBox \<Rightarrow> (bool \<times> PenaltyBox) go" where
  "RecordShare cfg now now2 connID ip isValid pb =
     (if (case banned pb ip of Some banTime \<Rightarrow> now < banTime | None \<Rightarrow> False)
      then Ret (False, pb)
      else
        let pb = pb\<lparr>banned := (banned pb)(ip := None)\<rparr> in
        go_bind (open_window cfg now now2 connID ip pb) (\<lambda>(w, pb).
        let w = w\<lparr>ShareTimings := push_timing cfg now (ShareTimings w)\<rparr>;
            pb = pb\<lparr>windows := (windows pb)(connID \<mapsto> w)\<rparr>
        in if rate_exceeded cfg now (ShareTimings w) then Ret (False, ban_ip cfg now ip pb)
           else
             let w = count_share isValid w;
                 pb = pb\<lparr>windows := (windows pb)(connID \<mapsto> w)\<rparr>
             in if ratio_exceeded cfg (Good w) (Bad w) then Ret (False, ban_ip cfg now ip pb)
                else Ret (True, pb\<lparr>windows := (windows pb)(connID \<mapsto> w\<lparr>LastShareTime := now\<rparr>)\<rparr>)))"

definition CheckBanned :: "instant \<Rightarrow> string \<Rightarrow> PenaltyBox \<Rightarrow> bool" where
  "CheckBanned now ip pb =
     (case banned pb ip of Some banTime \<Rightarrow> now < banTime | None \<Rightarrow> False)"

definition CleanupConnection :: "u64 \<Rightarrow> string \<Rightarrow> PenaltyBox \<Rightarrow> PenaltyBox go" where
  "CleanupConnection connID ip pb =
     (let pb = pb\<lparr>windows := (windows pb)(connID := None)\<rparr> in
      case ipConns pb ip of
        None \<Rightarrow> Ret pb
      | Some conns \<Rightarrow>
          if conns = [] then Panic MakeSliceRange
          else
            let newConns = filter (\<lambda>cid. cid \<noteq> connID) conns in
            Ret (pb\<lparr>ipConns :=
                     (ipConns pb)(ip := (if newConns = [] then None else Some newConns))\<rparr>))"

text \<open>One tick of \<open>StartCleanup\<close>. \<open>range\<close> visits each entry once, in any order; the clock is read
  for each of them.\<close>

definition StartCleanup_tick ::
  "(u64 \<Rightarrow> instant) \<Rightarrow> (string \<Rightarrow> instant) \<Rightarrow> PenaltyBox \<Rightarrow> PenaltyBox" where
  "StartCleanup_tick clockW clockB pb =
     pb\<lparr>windows := (\<lambda>c. case windows pb c of
                         None \<Rightarrow> None
                       | Some w \<Rightarrow> if time_Sub (clockW c) (StartTime w) > Minutes 10 then None else Some w),
        banned := (\<lambda>ip. case banned pb ip of
                         None \<Rightarrow> None
                       | Some banTime \<Rightarrow> if clockB ip > banTime then None else Some banTime)\<rparr>"

text \<open>\<open>GetStats\<close>: the sizes of the three maps and the addresses banned at the readings \<open>clock\<close>,
  in the order \<open>range\<close> visits them.\<close>

definition GetStats_banned :: "(string \<Rightarrow> instant) \<Rightarrow> string list \<Rightarrow> PenaltyBox \<Rightarrow> string list" where
  "GetStats_banned clock order pb = filter (\<lambda>ip. CheckBanned (clock ip) ip pb) order"

section \<open>Events on the box\<close>

datatype pb_event =
    ShareSubmitted u64 string bool instant instant
  | Disconnected u64 string
  | CleanupTick "u64 \<Rightarrow> instant" "string \<Rightarrow> instant"

text \<open>The answer of an event: the verdict on the share, nothing, or a panic.\<close>

datatype pb_answer = Verdict bool | Done | Panicked

fun pb_step :: "SlaveConfig \<Rightarrow> PenaltyBox \<Rightarrow> pb_event \<Rightarrow> pb_answer \<times> PenaltyBox" where
  "pb_step cfg pb (ShareSubmitted connID ip isValid now now2) =
     (case RecordShare cfg now now2 connID ip isValid pb of
        Ret (b, pb') \<Rightarrow> (Verdict b, pb')
      | Panic p \<Rightarrow> (Panicked, pb))"
| "pb_step cfg pb (Disconnected connID ip) =
     (case CleanupConnection connID ip pb of Ret pb' \<Rightarrow> (Done, pb') | Panic p \<Rightarrow> (Panicked, pb))"
| "pb_step cfg pb (CleanupTick cw cb) = (Done, StartCleanup_tick cw cb pb)"

section \<open>Bans\<close>

lemma ban_ip_banned: "ip' \<noteq> ip \<Longrightarrow> banned (ban_ip cfg now ip pb) ip' = banned pb ip'"
  by (simp add: ban_ip_def Let_def)

lemma open_window_banned:
  "open_window cfg now now2 connID ip pb = Ret (w, pb') \<Longrightarrow> banned pb' = banned pb"
  by (auto simp: open_window_def Let_def split: option.splits if_splits)

lemma RecordShare_banned_other:
  "RecordShare cfg now now2 connID ip isValid pb = Ret (b, pb') \<Longrightarrow> ip' \<noteq> ip \<Longrightarrow>
   banned pb' ip' = banned pb ip'"
  by (auto simp: RecordShare_def Let_def go_bind_eq_Ret ban_ip_banned
      dest!: open_window_banned split: if_splits option.splits)

lemma RecordShare_while_banned:
  "banned pb ip = Some T \<Longrightarrow> now < T \<Longrightarrow> RecordShare cfg now now2 connID ip isValid pb = Ret (False, pb)"
  by (simp add: RecordShare_def)

text \<open>The readings of the clock an event makes for an address are before \<open>T\<close>.\<close>

fun event_before :: "string \<Rightarrow> instant \<Rightarrow> pb_event \<Rightarrow> bool" where
  "event_before ip T (ShareSubmitted connID ip' isValid now now2) = (now < T)"
| "event_before ip T (Disconnected connID ip') = True"
| "event_before ip T (CleanupTick cw cb) = (cb ip < T)"

lemma pb_step_keeps_ban:
  assumes "banned pb ip = Some T" and "event_before ip T e"
  shows "banned (snd (pb_step cfg pb e)) ip = Some T"
proof (cases e)
  case (ShareSubmitted connID ip' v now now2)
  show ?thesis
  proof (cases "ip' = ip")
    case True
    then show ?thesis using assms ShareSubmitted by (simp add: RecordShare_while_banned)
  next
    case False
    then show ?thesis
      using assms ShareSubmitted RecordShare_banned_other [of cfg now now2 connID ip' v pb]
      by (auto split: go.splits)
  qed
next
  case (Disconnected connID ip')
  then show ?thesis using assms
    by (auto simp: CleanupConnection_def Let_def split: go.splits option.splits if_splits)
next
  case (CleanupTick cw cb)
  then show ?thesis using assms by (simp add: StartCleanup_tick_def)
qed

interpretation banKept: step_invariant
  "\<lambda>pb e. snd (pb_step cfg pb e)" "event_before ip T" "\<lambda>pb. banned pb ip = Some T"
  for cfg ip T
  by unfold_locales (rule pb_step_keeps_ban)

text \<open>C5: a ban lasts. From the moment an address is banned until the ban expires, whatever
  shares, disconnections and cleanups happen in between, new connections from it are refused
  and every share of it is rejected without touching the state.\<close>

theorem ban_holds_until_expiry:
  assumes ban: "banned pb ip = Some T" and es: "\<forall>e \<in> set es. event_before ip T e" and now: "now < T"
  shows "CheckBanned now ip (run (\<lambda>pb e. snd (pb_step cfg pb e)) pb es) \<and>
         RecordShare cfg now now2 connID ip isValid (run (\<lambda>pb e. snd (pb_step cfg pb e)) pb es) =
           Ret (False, run (\<lambda>pb e. snd (pb_step cfg pb e)) pb es)"
proof -
  have "banned (run (\<lambda>pb e. snd (pb_step cfg pb e)) pb es) ip = Some T"
    using ban es by (rule banKept.run_keeps)
  with now show ?thesis by (simp add: CheckBanned_def RecordShare_while_banned)
qed

lemma ban_holds_until_expiry_witness:
  "CheckBanned 50 ''10.0.0.1''
     (run (\<lambda>pb e. snd (pb_step sample_SlaveConfig pb e)) (empty_box\<lparr>banned := [''10.0.0.1'' \<mapsto> 100]\<rparr>)
       [ShareSubmitted 1 ''10.0.0.1'' True 10 11, Disconnected 1 ''10.0.0.1'', CleanupTick (\<lambda>_. 20) (\<lambda>_. 20)])"
  using ban_holds_until_expiry
    [of "empty_box\<lparr>banned := [''10.0.0.1'' \<mapsto> 100]\<rparr>" "''10.0.0.1''" 100
        "[ShareSubmitted 1 ''10.0.0.1'' True 10 11, Disconnected 1 ''10.0.0.1'', CleanupTick (\<lambda>_. 20) (\<lambda>_. 20)]"
        50 sample_SlaveConfig]
  by simp

section \<open>An abstract log of shares\<close>

text \<open>
  What the box promises, without counters or pruned lists: for each connection the log of the
  shares of its current window, with their times and verdicts. A share is refused when the
  address is banned, when the last \<open>N\<close> shares of the log came too fast, or when too many shares of
  the log are bad; a refusal for the log's own sake bans the address and forgets the logs of
  its connections.
\<close>

record share_log =
  log_banned :: "string \<rightharpoonup> instant"
  log_shares :: "u64 \<rightharpoonup> (instant \<times> bool) list"
  log_conns :: "string \<rightharpoonup> u64 list"

definition last_n :: "int \<Rightarrow> 'a list \<Rightarrow> 'a list" where
  "last_n n xs = drop (length xs - nat n) xs"

definition valid_count :: "(instant \<times> bool) list \<Rightarrow> int" where
  "valid_count h = int (length (filter snd h))"

definition bad_count :: "(instant \<times> bool) list \<Rightarrow> int" where
  "bad_count h = int (length (filter (\<lambda>x. \<not> snd x) h))"

definition log_refuses :: "SlaveConfig \<Rightarrow> instant \<Rightarrow> (instant \<times> bool) list \<Rightarrow> bool" where
  "log_refuses cfg now h =
     (rate_exceeded cfg now (last_n (ShareTimingWindowSize cfg) (map fst h)) \<or>
      ratio_exceeded cfg (valid_count h) (bad_count h))"

definition current_log :: "SlaveConfig \<Rightarrow> instant \<Rightarrow> u64 \<Rightarrow> share_log \<Rightarrow> (instant \<times> bool) list" where
  "current_log cfg now2 c L =
     (case log_shares L c of
        None \<Rightarrow> []
      | Some h \<Rightarrow> if time_Sub now2 (fst (hd h)) > Minutes (ShareWindowMinutes cfg) then [] else h)"

definition add_conn :: "u64 \<Rightarrow> u64 list \<Rightarrow> u64 list" where
  "add_conn c cs = (if c \<in> set cs then cs else cs @ [c])"

fun log_step :: "SlaveConfig \<Rightarrow> share_log \<Rightarrow> pb_event \<Rightarrow> pb_answer \<times> share_log" where
  "log_step cfg L (ShareSubmitted c ip v now now2) =
     (if CheckBanned now ip \<lparr>banned = log_banned L, windows = Map.empty, ipConns = Map.empty\<rparr>
      then (Verdict False, L)
      else
        let h = current_log cfg now2 c L;
            conns = (if h = [] then (log_conns L)(ip \<mapsto> add_conn c (map_get [] (log_conns L) ip))
                     else log_conns L);
            h' = h @ [(now, v)]
        in if log_refuses cfg now h'
           then (Verdict False,
                 L\<lparr>log_banned := (log_banned L)(ip \<mapsto> now + Minutes (BanDurationMinutes cfg)),
                   log_shares := (\<lambda>d. if d \<in> set (map_get [] conns ip) then None else log_shares L d),
                   log_conns := conns\<rparr>)
           else (Verdict True,
                 L\<lparr>log_banned := (log_banned L)(ip := None),
                   log_shares := (log_shares L)(c \<mapsto> h'), log_conns := conns\<rparr>))"
| "log_step cfg L (Disconnected c ip) =
     (Done,
      L\<lparr>log_shares := (log_shares L)(c := None),
        log_conns := (\<lambda>i. if i = ip
                          then Option.bind (log_conns L ip)
                                 (\<lambda>cs. let cs' = filter (\<lambda>d. d \<noteq> c) cs in if cs' = [] then None else Some cs')
                          else log_conns L i)\<rparr>)"
| "log_step cfg L (CleanupTick cw cb) =
     (Done,
      L\<lparr>log_shares := (\<lambda>c. Option.bind (log_shares L c)
                            (\<lambda>h. if time_Sub (cw c) (fst (hd h)) > Minutes 10 then None else Some h)),
        log_banned := (\<lambda>ip. Option.bind (log_banned L ip)
                             (\<lambda>T. if cb ip > T then None else Some T))\<rparr>)"

text \<open>How the box stores a log.\<close>

definition window_of :: "SlaveConfig \<Rightarrow> (instant \<times> bool) list \<Rightarrow> ShareWindow" where
  "window_of cfg h =
     \<lparr>Good = valid_count h, Bad = bad_count h, StartTime = fst (hd h),
      LastShareTime = fst (last h), ShareTimings = last_n (ShareTimingWindowSize cfg) (map fst h)\<rparr>"

definition box_of :: "SlaveConfig \<Rightarrow> share_log \<Rightarrow> PenaltyBox" where
  "box_of cfg L =
     \<lparr>banned = log_banned L, windows = (\<lambda>c. map_option (window_of cfg) (log_shares L c)),
      ipConns = log_conns L\<rparr>"

text \<open>A connection has one address, \<open>owner\<close>; the logs of an address's connections are tracked.\<close>

definition log_ok :: "(u64 \<Rightarrow> string) \<Rightarrow> share_log \<Rightarrow> bool" where
  "log_ok owner L =
     ((\<forall>c h. log_shares L c = Some h \<longrightarrow> h \<noteq> [] \<and> c \<in> set (map_get [] (log_conns L) (owner c))) \<and>
      (\<forall>ip. log_conns L ip \<noteq> Some []))"

fun owned :: "(u64 \<Rightarrow> string) \<Rightarrow> pb_event \<Rightarrow> bool" where
  "owned owner (ShareSubmitted c ip v now now2) = (ip = owner c)"
| "owned owner (Disconnected c ip) = (ip = owner c)"
| "owned owner (CleanupTick cw cb) = True"

lemma last_n_snoc:
  "0 \<le> n \<Longrightarrow> last_n n (xs @ [x]) =
     (let ys = last_n n xs @ [x] in if int (length ys) > n then tl ys else ys)"
proof -
  assume n: "0 \<le> n"
  show ?thesis
  proof (cases "int (length xs) < n")
    case True
    then show ?thesis by (simp add: last_n_def Let_def)
  next
    case False
    then have len: "nat n \<le> length xs" using n by linarith
    then have "last_n n (xs @ [x]) = drop (Suc (length xs - nat n)) (xs @ [x])"
      by (simp add: last_n_def Suc_diff_le)
    also have "\<dots> = tl (drop (length xs - nat n) (xs @ [x]))"
      by (simp only: drop_Suc tl_drop)
    also have "\<dots> = tl (last_n n xs @ [x])" by (simp add: last_n_def)
    finally show ?thesis using len n by (simp add: Let_def last_n_def)
  qed
qed

definition fresh_window :: "instant \<Rightarrow> ShareWindow" where
  "fresh_window now = \<lparr>Good = 0, Bad = 0, StartTime = now, LastShareTime = zero_time, ShareTimings = []\<rparr>"

definition log_window :: "SlaveConfig \<Rightarrow> instant \<Rightarrow> (instant \<times> bool) list \<Rightarrow> ShareWindow" where
  "log_window cfg now h = (if h = [] then fresh_window now else window_of cfg h)"

lemma push_timing_log:
  "0 \<le> ShareTimingWindowSize cfg \<Longrightarrow>
   push_timing cfg now (ShareTimings (log_window cfg now h)) =
     last_n (ShareTimingWindowSize cfg) (map fst (h @ [(now, v)]))"
  using last_n_snoc [of "ShareTimingWindowSize cfg" "map fst h" now]
  by (simp add: push_timing_def log_window_def fresh_window_def window_of_def last_n_def Let_def)

lemma log_window_snoc:
  "0 \<le> ShareTimingWindowSize cfg \<Longrightarrow>
   (count_share v ((log_window cfg now h)\<lparr>ShareTimings := push_timing cfg now (ShareTimings (log_window cfg now h))\<rparr>))
     \<lparr>LastShareTime := now\<rparr> = window_of cfg (h @ [(now, v)])"
  unfolding push_timing_log [where v = v]
  by (simp add: count_share_def log_window_def fresh_window_def window_of_def valid_count_def bad_count_def)

lemma log_window_counts:
  "Good (count_share v ((log_window cfg now h)\<lparr>ShareTimings := ts\<rparr>)) = valid_count (h @ [(now, v)])"
  "Bad (count_share v ((log_window cfg now h)\<lparr>ShareTimings := ts\<rparr>)) = bad_count (h @ [(now, v)])"
  by (simp_all add: count_share_def log_window_def fresh_window_def window_of_def valid_count_def bad_count_def)

definition log_tracked :: "u64 \<Rightarrow> string \<Rightarrow> (instant \<times> bool) list \<Rightarrow> share_log \<Rightarrow> string \<rightharpoonup> u64 list" where
  "log_tracked c ip h L =
     (if h = [] then (log_conns L)(ip \<mapsto> add_conn c (map_get [] (log_conns L) ip)) else log_conns L)"

lemma contains_iff [simp]: "contains cs c \<longleftrightarrow> c \<in> set cs"
  by (auto simp: contains_def list_ex_iff)

lemma tracked_same:
  "c \<in> set (map_get [] m ip) \<Longrightarrow> m(ip \<mapsto> map_get [] m ip) = m"
  by (auto simp: map_get_def split: option.splits)

lemma open_window_log:
  assumes ok: "log_ok owner L" and N: "0 \<le> ShareTimingWindowSize cfg"
    and h_def: "h = current_log cfg now2 c L"
  shows "open_window cfg now now2 c ip ((box_of cfg L)\<lparr>banned := B\<rparr>) =
    Ret (log_window cfg now h,
         \<lparr>banned = B,
          windows = (if h = [] then (windows (box_of cfg L))(c \<mapsto> fresh_window now) else windows (box_of cfg L)),
          ipConns = log_tracked c ip h L\<rparr>)"
proof -
  have ne: "log_shares L c = Some h' \<Longrightarrow> h' \<noteq> []" for h' using ok by (auto simp: log_ok_def)
  show ?thesis
    using N ne
    by (auto simp: open_window_def box_of_def h_def current_log_def log_window_def log_tracked_def
        fresh_window_def window_of_def Let_def tracked_same add_conn_def split: option.splits)
qed

lemma log_step_commutes_share:
  assumes ok: "log_ok owner L" and N: "0 \<le> ShareTimingWindowSize cfg" and ip: "ip = owner c"
  shows "pb_step cfg (box_of cfg L) (ShareSubmitted c ip v now now2) =
         apsnd (box_of cfg) (log_step cfg L (ShareSubmitted c ip v now now2))"
proof (cases "CheckBanned now ip (box_of cfg L)")
  case True
  then show ?thesis
    by (simp add: RecordShare_def CheckBanned_def box_of_def split: option.splits)
next
  case False
  define h where "h = current_log cfg now2 c L"
  let ?w = "(log_window cfg now h)\<lparr>ShareTimings := push_timing cfg now (ShareTimings (log_window cfg now h))\<rparr>"
  let ?conns = "log_tracked c ip h L"
  have tracked: "c \<in> set (map_get [] ?conns ip)"
    using ok ip by (auto simp: h_def log_tracked_def add_conn_def current_log_def log_ok_def map_get_def
        split: option.splits if_splits)
  have shut: "\<not> (case log_banned L ip of Some T \<Rightarrow> now < T | None \<Rightarrow> False)"
    using False by (simp add: CheckBanned_def box_of_def)
  have refuses: "log_refuses cfg now (h @ [(now, v)]) \<longleftrightarrow>
      rate_exceeded cfg now (ShareTimings ?w) \<or>
      ratio_exceeded cfg (Good (count_share v ?w)) (Bad (count_share v ?w))"
    by (simp add: log_refuses_def log_window_counts [where now = now] push_timing_log [OF N, where v = v])
  have rec: "RecordShare cfg now now2 c ip v (box_of cfg L) =
      (if log_refuses cfg now (h @ [(now, v)]) then
         Ret (False, \<lparr>banned = (log_banned L)(ip \<mapsto> now + Minutes (BanDurationMinutes cfg)),
                      windows = (\<lambda>d. if d \<in> set (map_get [] ?conns ip) then None else windows (box_of cfg L) d),
                      ipConns = ?conns\<rparr>)
       else Ret (True, \<lparr>banned = (log_banned L)(ip := None),
                        windows = (windows (box_of cfg L))(c \<mapsto> window_of cfg (h @ [(now, v)])),
                        ipConns = ?conns\<rparr>))"
    using shut tracked
    unfolding RecordShare_def Let_def open_window_log [OF ok N h_def]
    by (auto simp: box_of_def refuses ban_ip_def Let_def fun_eq_iff log_window_snoc [OF N] split: if_splits)
  show ?thesis
    using False unfolding pb_step.simps log_step.simps rec
    by (auto simp: Let_def box_of_def CheckBanned_def h_def [symmetric] log_tracked_def [symmetric] fun_eq_iff)
qed

lemma log_step_commutes:
  assumes "log_ok owner L" and "0 \<le> ShareTimingWindowSize cfg" and "owned owner e"
  shows "pb_step cfg (box_of cfg L) e = apsnd (box_of cfg) (log_step cfg L e)"
proof (cases e)
  case (ShareSubmitted c ip v now now2)
  with assms show ?thesis by (simp only: owned.simps log_step_commutes_share)
next
  case (Disconnected c ip)
  then show ?thesis using assms
    by (auto simp: CleanupConnection_def box_of_def log_ok_def Let_def fun_eq_iff split: option.splits)
next
  case (CleanupTick cw cb)
  then show ?thesis
    by (auto simp: StartCleanup_tick_def box_of_def window_of_def fun_eq_iff split: option.splits)
qed

lemma in_add_conn [simp]: "x \<in> set (add_conn c cs) \<longleftrightarrow> x = c \<or> x \<in> set cs"
  by (auto simp: add_conn_def)

lemma add_conn_nonempty [simp]: "add_conn c cs \<noteq> []"
  by (auto simp: add_conn_def)

lemma log_ok_share:
  assumes "log_ok owner L" and "ip = owner c"
  shows "log_ok owner (snd (log_step cfg L (ShareSubmitted c ip v now now2)))"
proof -
  have ne: "current_log cfg now2 c L \<noteq> [] \<Longrightarrow> c \<in> set (map_get [] (log_conns L) (owner c))"
    using assms by (auto simp: current_log_def log_ok_def split: option.splits if_splits)
  show ?thesis
    using assms ne unfolding log_ok_def
    by (auto simp: Let_def split: if_splits) (metis not_None_eq)+
qed

lemma log_ok_step:
  assumes "log_ok owner L" and "owned owner e"
  shows "log_ok owner (snd (log_step cfg L e))"
proof (cases e)
  case (ShareSubmitted c ip v now now2)
  with assms show ?thesis by (simp only: owned.simps log_ok_share)
next
  case (Disconnected c ip)
  with assms show ?thesis
    by (auto simp: log_ok_def Let_def map_get_def filter_empty_conv split: option.splits if_splits bind_splits)
      (metis not_None_eq option.inject)+
next
  case (CleanupTick cw cb)
  with assms show ?thesis by (auto simp: log_ok_def split: bind_splits if_splits)
qed

interpretation boxLog: refinement
  "pb_step cfg" "log_step cfg" "box_of cfg"
  "\<lambda>e. owned owner e \<and> 0 \<le> ShareTimingWindowSize cfg" "log_ok owner"
  for cfg owner
  by unfold_locales (auto simp: log_step_commutes log_ok_step)

text \<open>C6: the penalty box implements the abstract log. On any sequence of shares, disconnections
  and cleanup ticks in which every connection keeps its address, the verdicts are those of the
  log, no operation panics, and the box ends up storing the log's final state: the counters are
  the numbers of good and bad shares of the window and the timing list its last \<open>N\<close> times.\<close>

theorem penalty_box_refines_log:
  assumes "log_ok owner L" and "0 \<le> ShareTimingWindowSize cfg" and "\<forall>e \<in> set es. owned owner e"
  shows "answers (pb_step cfg) (box_of cfg L) es = apsnd (box_of cfg) (answers (log_step cfg) L es)"
  using assms by (intro boxLog.run_refines [where owner = owner]) auto

definition empty_log :: share_log where
  "empty_log = \<lparr>log_banned = Map.empty, log_shares = Map.empty, log_conns = Map.empty\<rparr>"

lemma empty_log_ok [simp]: "log_ok owner empty_log"
  by (simp add: log_ok_def empty_log_def)

lemma box_of_empty: "box_of cfg empty_log = empty_box"
  by (simp add: box_of_def empty_log_def empty_box_def)

lemma penalty_box_refines_log_witness:
  "answers (pb_step sample_SlaveConfig) (box_of sample_SlaveConfig empty_log)
     [ShareSubmitted 1 ''10.0.0.1'' True 0 0, ShareSubmitted 1 ''10.0.0.1'' False 5 6, Disconnected 1 ''10.0.0.1''] =
   apsnd (box_of sample_SlaveConfig) (answers (log_step sample_SlaveConfig) empty_log
     [ShareSubmitted 1 ''10.0.0.1'' True 0 0, ShareSubmitted 1 ''10.0.0.1'' False 5 6, Disconnected 1 ''10.0.0.1''])"
  by (rule penalty_box_refines_log [where owner = "\<lambda>_. ''10.0.0.1''"]) (simp_all add: sample_SlaveConfig_def)

section \<open>Bans and reconnections\<close>

lemma counts_length: "valid_count h + bad_count h = int (length h)"
  by (simp add: valid_count_def bad_count_def sum_length_filter_compl flip: of_nat_add)

lemma short_log_accepted: "length h \<le> 5 \<Longrightarrow> \<not> log_refuses cfg now h"
  by (auto simp: log_refuses_def rate_exceeded_def ratio_exceeded_def last_n_def counts_length)

definition session :: "string \<Rightarrow> u64 \<times> (bool \<times> instant \<times> instant) list \<Rightarrow> pb_event list" where
  "session ip = (\<lambda>(c, shs). map (\<lambda>(v, now, now2). ShareSubmitted c ip v now now2) shs @ [Disconnected c ip])"

lemma short_session:
  assumes "log_banned L ip = None" and "length (case_option [] id (log_shares L c)) + length shs \<le> 5"
  shows "\<exists>L'. answers (log_step cfg) L (session ip (c, shs)) = (replicate (length shs) (Verdict True) @ [Done], L') \<and>
              log_banned L' ip = None \<and> log_shares L' = (log_shares L)(c := None)"
  using assms
proof (induction shs arbitrary: L)
  case Nil
  then show ?case by (simp add: session_def fun_upd_def)
next
  case (Cons s shs)
  obtain v now now2 where s: "s = (v, now, now2)" by (cases s)
  define h where "h = current_log cfg now2 c L @ [(now, v)]"
  have len: "length h + length shs \<le> 5"
    using Cons.prems by (auto simp: h_def current_log_def split: option.splits)
  then have "\<not> log_refuses cfg now h" by (intro short_log_accepted) simp
  then obtain L1 where step: "log_step cfg L (ShareSubmitted c ip v now now2) = (Verdict True, L1)"
      and L1: "log_banned L1 ip = None" "log_shares L1 = (log_shares L)(c \<mapsto> h)"
    using Cons.prems by (simp add: CheckBanned_def Let_def flip: h_def)
  have "length (case_option [] id (log_shares L1 c)) + length shs \<le> 5" using len L1 by simp
  from Cons.IH [OF L1(1) this] L1(2) step show ?case
    by (auto simp: session_def s Let_def fun_eq_iff)
qed

lemma answers_append:
  "answers step s (es @ es') =
     (let (os, s1) = answers step s es; (os', s2) = answers step s1 es' in (os @ os', s2))"
  by (induction es arbitrary: s) (auto simp: Let_def split_beta)

lemma short_sessions:
  assumes "log_banned L ip = None" and "\<forall>(c, shs) \<in> set ss. length shs \<le> 5 \<and> log_shares L c = None"
  shows "\<exists>L'. answers (log_step cfg) L (concat (map (session ip) ss)) =
           (concat (map (\<lambda>(c, shs). replicate (length shs) (Verdict True) @ [Done]) ss), L')"
  using assms
proof (induction ss arbitrary: L)
  case (Cons s ss)
  obtain c shs where s: "s = (c, shs)" by (cases s)
  have "length (case_option [] id (log_shares L c)) + length shs \<le> 5" using Cons.prems s by auto
  from short_session [OF Cons.prems(1) this] obtain L1 where
    1: "answers (log_step cfg) L (session ip (c, shs)) = (replicate (length shs) (Verdict True) @ [Done], L1)"
       "log_banned L1 ip = None" "log_shares L1 = (log_shares L)(c := None)" by blast
  have "\<forall>(c, shs) \<in> set ss. length shs \<le> 5 \<and> log_shares L1 c = None" using Cons.prems 1(3) by auto
  from Cons.IH [OF 1(2) this] 1(1) show ?case by (auto simp: s answers_append Let_def)
qed simp

text \<open>C36: bans are per address, counts per connection. A client that sends at most five shares on
  each connection and then reconnects is never refused, even if every one of its shares is
  invalid, whatever the configured ratio, rate and times are.\<close>

theorem reconnecting_evades_ban:
  assumes "0 \<le> ShareTimingWindowSize cfg" and "\<forall>(c, shs) \<in> set ss. length shs \<le> 5"
  shows "fst (answers (pb_step cfg) empty_box (concat (map (session ip) ss))) =
         concat (map (\<lambda>(c, shs). replicate (length shs) (Verdict True) @ [Done]) ss)"
proof -
  have owned: "\<forall>e \<in> set (concat (map (session ip) ss)). owned (\<lambda>_. ip) e"
    by (auto simp: session_def)
  have "\<exists>L'. answers (log_step cfg) empty_log (concat (map (session ip) ss)) =
           (concat (map (\<lambda>(c, shs). replicate (length shs) (Verdict True) @ [Done]) ss), L')"
    using assms by (intro short_sessions) (auto simp: empty_log_def)
  moreover have "fst (answers (pb_step cfg) (box_of cfg empty_log) (concat (map (session ip) ss))) =
      fst (answers (log_step cfg) empty_log (concat (map (session ip) ss)))"
    using assms(1) owned by (intro boxLog.same_answers [where owner = "\<lambda>_. ip"]) auto
  ultimately show ?thesis by (auto simp: box_of_empty)
qed

lemma reconnecting_evades_ban_witness:
  "fst (answers (pb_step sample_SlaveConfig) empty_box
     (concat (map (session ''10.0.0.1'') [(1, [(False, 0, 1), (False, 2, 3)]), (2, [(False, 4, 5)])]))) =
   [Verdict True, Verdict True, Done, Verdict True, Done]"
  using reconnecting_evades_ban
    [of sample_SlaveConfig "[(1, [(False, 0, 1), (False, 2, 3)]), (2, [(False, 4, 5)])]" "''10.0.0.1''"]
  by (simp add: sample_SlaveConfig_def numeral_2_eq_2)

end
