(* ===== verification/Daemon_Pool.thy ===== *)
theory Daemon_Pool
  imports Slave_Config Go_Text
begin

text \<open>
  The pool of daemon connections of the slave (\<^verbatim>\<open>src/cmd/slave/daemon_pool.go\<close>): creation, the
  round-robin \<open>Get\<close> with replacement of aged connections, the recycler and \<open>ExecuteWithRetry\<close>.

  The RPC client is a third-party type, the type variable of the pool. What \<open>rpc.NewClient\<close>
  returns is an argument: \<open>None\<close> for an error, or the client with the reading of the clock that
  dates it. The function that \<open>ExecuteWithRetry\<close> runs returns an error string or nothing and may
  change a state of its own.
\<close>

record 'c PooledConnection =
  conn_client :: 'c
  createdAt :: instant

record 'c DaemonPool =
  connections :: "'c PooledConnection list"
  pool_size :: int
  maxAge :: duration
  cur :: nat

definition createConnection :: "('c \<times> instant) option \<Rightarrow> 'c PooledConnection option" where
  "createConnection r = map_option (\<lambda>(c, now). \<lparr>conn_client = c, createdAt = now\<rparr>) r"

definition NewDaemonPool ::
  "(nat \<Rightarrow> ('c \<times> instant) option) \<Rightarrow> int \<Rightarrow> duration \<Rightarrow> 'c DaemonPool option" where
  "NewDaemonPool dial sz age =
     (let sz = (if sz \<le> 0 then 5 else sz);
          age = (if age \<le> 0 then 5 * 60 * Second else age);
          conns = List.map_filter (\<lambda>i. createConnection (dial i)) [0..<nat sz]
      in if conns = [] then None
         else Some \<lparr>connections = conns, pool_size = sz, maxAge = age, cur = 0\<rparr>)"

text \<open>\<open>Get\<close>: \<open>now\<close> is the reading of \<open>time.Since\<close>, \<open>dial\<close> what a new connection would give.\<close>

definition Get :: "instant \<Rightarrow> ('c \<times> instant) option \<Rightarrow> 'c DaemonPool \<Rightarrow> 'c option \<times> 'c DaemonPool" where
  "Get now dial p =
     (if connections p = [] then (None, p)
      else
        let i = (cur p + 1) mod length (connections p);
            p = p\<lparr>cur := i\<rparr>;
            conn = connections p ! i
        in if time_Sub now (createdAt conn) > maxAge p then
             (case createConnection dial of
                Some new \<Rightarrow> (Some (conn_client new), p\<lparr>connections := (connections p)[i := new]\<rparr>)
              | None \<Rightarrow> (Some (conn_client conn), p))
           else (Some (conn_client conn), p))"

definition recyclePeriod :: "'c DaemonPool \<Rightarrow> duration" where
  "recyclePeriod p = (let d = maxAge p sdiv pool_size p in if d < 30 * Second then 30 * Second else d)"

text \<open>One tick of \<open>recycleLoop\<close>, with its local index.\<close>

definition recycle_tick :: "'c DaemonPool \<times> nat \<Rightarrow> ('c \<times> instant) option \<Rightarrow> 'c DaemonPool \<times> nat" where
  "recycle_tick = (\<lambda>(p, recycleIndex) dial.
     if connections p = [] then (p, recycleIndex)
     else
       let p' = (case createConnection dial of
                   Some new \<Rightarrow> p\<lparr>connections := (connections p)[recycleIndex := new]\<rparr>
                 | None \<Rightarrow> p)
       in (p', (recycleIndex + 1) mod length (connections p')))"

definition isConnectionError :: "string \<Rightarrow> bool" where
  "isConnectionError e =
     (strings_Contains e ''connection'' \<or> strings_Contains e ''timeout'' \<or>
      strings_Contains e ''refused'' \<or> strings_Contains e ''EOF'')"

datatype exec_result = ExecOk | NoConnections | AllFailed | FnError string

text \<open>The loop of \<open>ExecuteWithRetry\<close> with \<open>k\<close> attempts left; \<open>env\<close> gives the clock and the dial
  results of its successive calls of \<open>Get\<close>.\<close>

fun retry_loop ::
  "nat \<Rightarrow> (nat \<Rightarrow> instant \<times> ('c \<times> instant) option) \<Rightarrow> ('c \<Rightarrow> 's \<Rightarrow> string option \<times> 's)
     \<Rightarrow> 'c DaemonPool \<Rightarrow> 's \<Rightarrow> exec_result \<times> 'c DaemonPool \<times> 's" where
  "retry_loop 0 env fn p s = (AllFailed, p, s)"
| "retry_loop (Suc k) env fn p s =
     (case Get (fst (env 0)) (snd (env 0)) p of
        (None, p) \<Rightarrow> (NoConnections, p, s)
      | (Some client, p) \<Rightarrow>
          (case fn client s of
             (None, s) \<Rightarrow> (ExecOk, p, s)
           | (Some e, s) \<Rightarrow>
               if isConnectionError e then retry_loop k (\<lambda>i. env (Suc i)) fn p s
               else (FnError e, p, s)))"

definition ExecuteWithRetry ::
  "(nat \<Rightarrow> instant \<times> ('c \<times> instant) option) \<Rightarrow> ('c \<Rightarrow> 's \<Rightarrow> string option \<times> 's)
     \<Rightarrow> 'c DaemonPool \<Rightarrow> 's \<Rightarrow> exec_result \<times> 'c DaemonPool \<times> 's" where
  "ExecuteWithRetry env fn p s = retry_loop (length (connections p) + 1) env fn p s"

definition pool_Close :: "'c DaemonPool \<Rightarrow> 'c DaemonPool" where
  "pool_Close p = p\<lparr>connections := []\<rparr>"

section \<open>Round robin\<close>

text \<open>The connections in the order the next calls of \<open>Get\<close> return them.\<close>

definition upcoming :: "'c DaemonPool \<Rightarrow> nat \<Rightarrow> 'c list" where
  "upcoming p k =
     map (\<lambda>j. conn_client (connections p ! ((cur p + 1 + j) mod length (connections p)))) [0..<k]"

definition young :: "duration \<Rightarrow> 'c PooledConnection list \<Rightarrow> instant \<Rightarrow> bool" where
  "young age conns now = (\<forall>c \<in> set conns. time_Sub now (createdAt c) \<le> age)"

lemma Get_young:
  assumes "connections p \<noteq> []" and "young (maxAge p) (connections p) now"
  shows "Get now dial p =
    (Some (conn_client (connections p ! ((cur p + 1) mod length (connections p)))),
     p\<lparr>cur := (cur p + 1) mod length (connections p)\<rparr>)"
proof -
  have "connections p ! ((cur p + 1) mod length (connections p)) \<in> set (connections p)"
    using assms(1) by (intro nth_mem) simp
  then have "\<not> time_Sub now (createdAt (connections p ! ((cur p + 1) mod length (connections p)))) > maxAge p"
    using assms(2) by (simp add: young_def not_less)
  then show ?thesis using assms(1) by (simp add: Get_def Let_def)
qed

lemma upcoming_Suc:
  assumes "connections p \<noteq> []"
  shows "upcoming p (Suc k) =
    conn_client (connections p ! ((cur p + 1) mod length (connections p))) #
    upcoming (p\<lparr>cur := (cur p + 1) mod length (connections p)\<rparr>) k"
proof -
  have "[0..<Suc k] = 0 # map Suc [0..<k]" by (metis map_Suc_upt upt_conv_Cons zero_less_Suc)
  moreover have "(Suc ((cur p + 1) mod n) + j) mod n = (cur p + 1 + Suc j) mod n" for n j
    by (metis (no_types, lifting) add.commute add_Suc_right add_Suc_shift mod_add_left_eq)
  ultimately show ?thesis by (simp add: upcoming_def)
qed

text \<open>A whole round visits every connection.\<close>

lemma mod_shift_inj:
  fixes a :: nat
  assumes "(a + i) mod n = (a + j) mod n" and "i < n" and "j < n"
  shows "i = j"
proof -
  have *: "k = l" if "k \<le> l" "l < n" "(a + l) mod n = (a + k) mod n" for k l
  proof -
    have "n dvd (a + l) - (a + k)" using that by (subst mod_eq_dvd_iff_nat [symmetric]) auto
    then have "n dvd l - k" by simp
    then show ?thesis using that by (metis diff_is_0_eq dvd_imp_le leD le_antisym less_imp_diff_less not_gr_zero)
  qed
  show ?thesis using * [of i j] * [of j i] assms by (cases "i \<le> j") auto
qed

lemma upcoming_round: "set (upcoming p (length (connections p))) = conn_client ` set (connections p)"
proof -
  let ?n = "length (connections p)"
  let ?f = "\<lambda>j. (cur p + 1 + j) mod ?n"
  have "?f ` {0..<?n} = {0..<?n}"
  proof (rule card_subset_eq)
    show "?f ` {0..<?n} \<subseteq> {0..<?n}" by (auto intro!: mod_less_divisor)
    have "inj_on ?f {0..<?n}" 
    proof (rule inj_onI)
      fix i j assume "i \<in> {0..<?n}" "j \<in> {0..<?n}" "?f i = ?f j"
      then show "i = j" by (intro mod_shift_inj [of "cur p + 1" i ?n j]) auto
    qed
    then show "card (?f ` {0..<?n}) = card {0..<?n}" by (rule card_image)
  qed simp
  then have "(\<lambda>j. conn_client (connections p ! j)) ` ?f ` {0..<?n} = (\<lambda>j. conn_client (connections p ! j)) ` {0..<?n}"
    by (rule arg_cong)
  also have "\<dots> = conn_client ` set (connections p)"
    by (force simp: in_set_conv_nth image_iff)
  finally show ?thesis by (simp add: upcoming_def image_image)
qed

section \<open>Failover\<close>

text \<open>A function whose answer depends on the client alone, and which logs the clients called.\<close>

definition logged :: "('c \<Rightarrow> string option) \<Rightarrow> 'c \<Rightarrow> 'c list \<Rightarrow> string option \<times> 'c list" where
  "logged res c calls = (res c, calls @ [c])"

lemma retry_loop_log:
  assumes "connections p \<noteq> []" and "\<forall>i. young (maxAge p) (connections p) (fst (env i))"
    and "\<forall>c \<in> set (connections p). \<forall>e. res (conn_client c) = Some e \<longrightarrow> isConnectionError e"
  shows "\<exists>p'. retry_loop k env (logged res) p calls =
    (case dropWhile (\<lambda>c. res c \<noteq> None) (upcoming p k) of
       [] \<Rightarrow> (AllFailed, p', calls @ upcoming p k)
     | c # _ \<Rightarrow> (ExecOk, p', calls @ takeWhile (\<lambda>c. res c \<noteq> None) (upcoming p k) @ [c]))"
  using assms
proof (induction k arbitrary: env p calls)
  case 0
  then show ?case by (simp add: upcoming_def)
next
  case (Suc k)
  let ?i = "(cur p + 1) mod length (connections p)"
  let ?p = "p\<lparr>cur := ?i\<rparr>"
  let ?c = "conn_client (connections p ! ?i)"
  have Get: "Get (fst (env 0)) (snd (env 0)) p = (Some ?c, ?p)"
    using Suc.prems by (intro Get_young) auto
  have up: "upcoming p (Suc k) = ?c # upcoming ?p k" using Suc.prems(1) by (rule upcoming_Suc)
  have mem: "connections p ! ?i \<in> set (connections p)" using Suc.prems(1) by (intro nth_mem) simp
  show ?case
  proof (cases "res ?c")
    case None
    then show ?thesis unfolding retry_loop.simps Get up by (simp add: logged_def)
  next
    case (Some e)
    then have e: "isConnectionError e" using Suc.prems(3) mem by blast
    obtain p' where "retry_loop k (\<lambda>i. env (Suc i)) (logged res) ?p (calls @ [?c]) =
      (case dropWhile (\<lambda>c. res c \<noteq> None) (upcoming ?p k) of
         [] \<Rightarrow> (AllFailed, p', (calls @ [?c]) @ upcoming ?p k)
       | c # _ \<Rightarrow> (ExecOk, p', (calls @ [?c]) @ takeWhile (\<lambda>c. res c \<noteq> None) (upcoming ?p k) @ [c]))"
      using Suc.IH [of ?p "\<lambda>i. env (Suc i)" "calls @ [?c]"] Suc.prems by auto
    with Some e show ?thesis unfolding retry_loop.simps Get up
      by (intro exI [of _ p']) (simp add: logged_def del: not_None_eq split del: if_split cong: list.case_cong)
  qed
qed

lemma dropWhile_split:
  "(\<forall>x \<in> set xs. P x) \<or> (\<exists>y ys. xs = takeWhile P xs @ y # ys \<and> \<not> P y \<and> dropWhile P xs = y # ys)"
  by (induction xs) auto

text \<open>C22: failover is live. If no pooled connection has aged and the only errors are connection
  errors, a call succeeds whenever at least one connection works: it tries the connections
  round-robin, each at most once, and stops at the first that works. If none works it gives up
  after one more attempt than there are connections.\<close>

theorem ExecuteWithRetry_fails_over:
  assumes conns: "connections p \<noteq> []" and young: "\<forall>i. young (maxAge p) (connections p) (fst (env i))"
    and errs: "\<forall>c \<in> set (connections p). \<forall>e. res (conn_client c) = Some e \<longrightarrow> isConnectionError e"
  shows "if \<exists>c \<in> set (connections p). res (conn_client c) = None
         then \<exists>p' tried c rest.
                ExecuteWithRetry env (logged res) p [] = (ExecOk, p', tried @ [c]) \<and>
                upcoming p (length (connections p)) = tried @ c # rest \<and>
                res c = None \<and> (\<forall>x \<in> set tried. res x \<noteq> None)
         else \<exists>p'. ExecuteWithRetry env (logged res) p [] =
                (AllFailed, p', upcoming p (length (connections p) + 1))"
proof -
  let ?n = "length (connections p)"
  let ?P = "\<lambda>c. res c \<noteq> None"
  obtain p' where
    r: "ExecuteWithRetry env (logged res) p [] =
      (case dropWhile ?P (upcoming p (?n + 1)) of
         [] \<Rightarrow> (AllFailed, p', upcoming p (?n + 1))
       | c # _ \<Rightarrow> (ExecOk, p', takeWhile ?P (upcoming p (?n + 1)) @ [c]))"
    using retry_loop_log [OF assms, of "?n + 1" "[]"] unfolding ExecuteWithRetry_def append_Nil by blast
  have more: "upcoming p (?n + 1) = upcoming p ?n @ [conn_client (connections p ! ((cur p + 1 + ?n) mod ?n))]"
    by (simp add: upcoming_def)
  show ?thesis
  proof (cases "\<exists>c \<in> set (connections p). res (conn_client c) = None")
    case True
    then have "\<not> (\<forall>c \<in> set (upcoming p ?n). ?P c)" by (auto simp: upcoming_round)
    with dropWhile_split [of "upcoming p ?n" ?P] obtain y ys where
      y: "upcoming p ?n = takeWhile ?P (upcoming p ?n) @ y # ys" "\<not> ?P y" "dropWhile ?P (upcoming p ?n) = y # ys"
      by blast
    have "y \<in> set (upcoming p ?n)" by (subst y(1)) simp
    then have "ExecuteWithRetry env (logged res) p [] = (ExecOk, p', takeWhile ?P (upcoming p ?n) @ [y])"
      using y(2,3) unfolding r more by (simp add: dropWhile_append1 takeWhile_append1)
    then show ?thesis using True y by (auto dest: set_takeWhileD)
  next
    case False
    have "(cur p + 1 + ?n) mod ?n < ?n" using conns by (intro mod_less_divisor) simp
    then have "connections p ! ((cur p + 1 + ?n) mod ?n) \<in> set (connections p)" by simp
    then have "\<forall>c \<in> set (upcoming p (?n + 1)). ?P c"
      using False unfolding more set_append upcoming_round by auto
    then show ?thesis unfolding r using False by (simp add: dropWhile_eq_Nil_conv [THEN iffD2])
  qed
qed

definition sample_pool :: "nat DaemonPool" where
  "sample_pool = \<lparr>connections = map (\<lambda>i. \<lparr>conn_client = i, createdAt = 0\<rparr>) [7, 8, 9],
                  pool_size = 3, maxAge = 300 * Second, cur = 0\<rparr>"

lemma ExecuteWithRetry_fails_over_witness:
  "\<exists>p'. ExecuteWithRetry (\<lambda>i. (5, None)) (logged (\<lambda>c. if c = 9 then None else Some ''timeout'')) sample_pool [] =
     (ExecOk, p', [8, 9])"
proof -
  have "isConnectionError ''timeout''"
    by (simp add: isConnectionError_def strings_Contains_def)
  then have "\<exists>p' tried c rest.
      ExecuteWithRetry (\<lambda>i. (5, None)) (logged (\<lambda>c. if c = 9 then None else Some ''timeout'')) sample_pool [] =
        (ExecOk, p', tried @ [c]) \<and> [8, 9, 7] = tried @ c # rest \<and>
      (if c = 9 then None else Some ''timeout'') = None \<and> (\<forall>x \<in> set tried. (if x = 9 then None else Some ''timeout'') \<noteq> None)"
    using ExecuteWithRetry_fails_over
      [of sample_pool "\<lambda>i. (5, None)" "\<lambda>c. if c = 9 then None else Some ''timeout''"]
    by (simp add: sample_pool_def young_def time_Sub_def Second_def upcoming_def upt_rec)
  then show ?thesis by (auto simp: Cons_eq_append_conv split: if_splits)
qed

section \<open>Recycling\<close>

lemma recycle_tick_ok:
  assumes "i < length (connections p)"
  shows "recycle_tick (p, i) (Some (c, now)) =
    (p\<lparr>connections := (connections p)[i := \<lparr>conn_client = c, createdAt = now\<rparr>]\<rparr>, (i + 1) mod length (connections p))"
  using assms by (auto simp: recycle_tick_def createConnection_def)

text \<open>The index of the recycler stays inside the pool, whatever the dials return.\<close>

definition recycler_ok :: "'c DaemonPool \<times> nat \<Rightarrow> bool" where
  "recycler_ok s = (connections (fst s) = [] \<or> snd s < length (connections (fst s)))"

lemma recycler_ok_tick: "recycler_ok s \<Longrightarrow> recycler_ok (recycle_tick s d)"
  by (cases s; cases "createConnection d"; cases "connections (fst s) = []")
    (simp_all add: recycle_tick_def recycler_ok_def)

interpretation recycler: step_invariant recycle_tick "\<lambda>_. True" recycler_ok
  by unfold_locales (rule recycler_ok_tick)

text \<open>After as many successful ticks as there are connections, every connection is new.\<close>

lemma recycle_prefix:
  assumes "length ds \<le> length (connections p)"
  shows "run recycle_tick (p, 0) (map Some ds) =
    (p\<lparr>connections := map (\<lambda>(c, now). \<lparr>conn_client = c, createdAt = now\<rparr>) ds @ drop (length ds) (connections p)\<rparr>,
     if connections p = [] then 0 else length ds mod length (connections p))"
  using assms
proof (induction ds rule: rev_induct)
  case (snoc d ds)
  obtain c now where d: "d = (c, now)" by (cases d)
  have lt: "length ds < length (connections p)" using snoc.prems by simp
  then have "connections p \<noteq> []" by auto
  then show ?case
    using snoc lt
    by (simp add: d recycle_tick_def createConnection_def list_update_append Cons_nth_drop_Suc [symmetric])
qed simp

lemma recycle_round:
  "length ds = length (connections p) \<Longrightarrow>
   map conn_client (connections (fst (run recycle_tick (p, 0) (map Some ds)))) = map fst ds"
  by (auto simp: recycle_prefix)

end
