(* ===== verification/Verify_Queue.thy ===== *)
theory Verify_Queue
  imports Daemon_Pool Ledger
begin

text \<open>
  The verification queue of the slave (\<^verbatim>\<open>src/cmd/slave/verify_queue.go\<close>): a SQLite table of shares,
  worker goroutines that take the oldest pending row and check its proof of work against a
  daemon, statistics, alerts and the cleanup of old rows.

  A worker takes a row in one transaction (\<open>claim\<close>) and settles it in later statements
  (\<open>settle\<close>); between the two it holds the row outside the database. The system state has the
  rows held by the workers, and its steps interleave the workers, the submissions and the
  cleanup in any order. A restart of the process loses what the workers hold.

  \<open>encoding/json\<close> on the third-party parameter struct is a pair of parameters, with \<open>json_ok\<close> as
  its contract; \<open>pow\<close> is what \<open>CalcPow\<close> of a client returns. Statements that fail because the
  disk does are not modelled.
\<close>

record CalcPowParameters =
  cpMajorVersion :: u64
  cpHeight :: u64
  cpBlockBlob :: string
  cpSeedHash :: string

record ShareToVerify =
  svConnectionID :: u64
  svCalcPowParams :: CalcPowParameters
  svExpectedResult :: string
  svShareDiff :: u64
  svMinerAddr :: string
  svWorkerID :: string

datatype vstatus = VPending | VProcessing | VVerified | VFailed

record QueuedVerification =
  qvID :: int
  qvShareData :: string
  qvConnectionID :: int
  qvSubmittedAt :: int
  qvStartedAt :: "int option"
  qvCompletedAt :: "int option"
  qvStatus :: vstatus
  qvNodeUsed :: "string option"
  qvVerifyDuration :: "int option"

record QueueStats =
  qsPending :: int
  qsProcessing :: int
  qsVerified :: int
  qsFailed :: int
  qsAvgVerifyTime :: duration
  qsMaxVerifyTime :: duration
  qsLastAlert :: instant

definition zero_stats :: QueueStats where
  "zero_stats = \<lparr>qsPending = 0, qsProcessing = 0, qsVerified = 0, qsFailed = 0,
                 qsAvgVerifyTime = 0, qsMaxVerifyTime = 0, qsLastAlert = zero_time\<rparr>"

text \<open>A row of \<open>verify_metrics\<close>: time, pending, processing, average, maximum, verified, failed.\<close>

type_synonym vmetrics = "int \<times> int \<times> int \<times> int \<times> int \<times> int \<times> int"

record VerifyQueue =
  vqRows :: "QueuedVerification list"
  vqNextID :: int
  vqMetrics :: "vmetrics list"
  vqStats :: QueueStats

definition alertThreshold :: duration where
  "alertThreshold = 2 * Second"

definition NewVerifyQueue :: VerifyQueue where
  "NewVerifyQueue = \<lparr>vqRows = [], vqNextID = 1, vqMetrics = [], vqStats = zero_stats\<rparr>"

section \<open>Submission\<close>

text \<open>\<open>INSERT INTO verify_queue\<close>: the \<open>uint64\<close> connection id is refused if its high bit is set.\<close>

definition Submit ::
  "(ShareToVerify \<Rightarrow> string) \<Rightarrow> instant \<Rightarrow> ShareToVerify \<Rightarrow> VerifyQueue \<Rightarrow> unit res \<times> VerifyQueue" where
  "Submit marshal now share vq =
     (if \<not> bindable (svConnectionID share) then (Err HighBitUint64, vq)
      else (Ok (), vq\<lparr>vqRows := vqRows vq @
              [\<lparr>qvID = vqNextID vq, qvShareData = marshal share,
                qvConnectionID = int (unat (svConnectionID share)), qvSubmittedAt = now,
                qvStartedAt = None, qvCompletedAt = None, qvStatus = VPending,
                qvNodeUsed = None, qvVerifyDuration = None\<rparr>],
             vqNextID := vqNextID vq + 1\<rparr>))"

section \<open>Statistics and alerts\<close>

text \<open>\<open>alert\<close> answers whether it logged; it reads the clock twice.\<close>

definition alert :: "instant \<Rightarrow> instant \<Rightarrow> QueueStats \<Rightarrow> bool \<times> QueueStats" where
  "alert now now2 st =
     (let lastAlert = qsLastAlert st;
          st = st\<lparr>qsLastAlert := now\<rparr>
      in (\<not> time_Sub now2 lastAlert < 60 * Second, st))"

definition updateStats :: "duration \<Rightarrow> QueueStats \<Rightarrow> QueueStats" where
  "updateStats d st =
     (let st = st\<lparr>qsVerified := qsVerified st + 1\<rparr>;
          st = st\<lparr>qsAvgVerifyTime :=
                  (if qsAvgVerifyTime st = 0 then d else i64 (qsAvgVerifyTime st + d) sdiv 2)\<rparr>
      in if d > qsMaxVerifyTime st then st\<lparr>qsMaxVerifyTime := d\<rparr> else st)"

section \<open>Workers\<close>

definition update_row ::
  "int \<Rightarrow> (QueuedVerification \<Rightarrow> QueuedVerification) \<Rightarrow> VerifyQueue \<Rightarrow> VerifyQueue" where
  "update_row i f vq = vq\<lparr>vqRows := map (\<lambda>r. if qvID r = i then f r else r) (vqRows vq)\<rparr>"

definition pending_rows :: "VerifyQueue \<Rightarrow> QueuedVerification list" where
  "pending_rows vq = filter (\<lambda>r. qvStatus r = VPending) (vqRows vq)"

text \<open>The transaction of \<open>processNext\<close>: the first pending row in the order of \<open>submitted_at\<close>.\<close>

definition claim ::
  "(QueuedVerification list \<Rightarrow> QueuedVerification list) \<Rightarrow> instant \<Rightarrow> VerifyQueue
     \<Rightarrow> QueuedVerification option \<times> VerifyQueue" where
  "claim order startTime vq =
     (case order (pending_rows vq) of
        [] \<Rightarrow> (None, vq)
      | item # _ \<Rightarrow>
          (Some item,
           update_row (qvID item) (\<lambda>r. r\<lparr>qvStatus := VProcessing, qvStartedAt := Some startTime\<rparr>) vq))"

definition markFailed :: "instant \<Rightarrow> int \<Rightarrow> string \<Rightarrow> VerifyQueue \<Rightarrow> VerifyQueue" where
  "markFailed now i reason vq =
     (let vq = update_row i (\<lambda>r. r\<lparr>qvStatus := VFailed, qvCompletedAt := Some now, qvNodeUsed := Some reason\<rparr>) vq
      in vq\<lparr>vqStats := (vqStats vq)\<lparr>qsFailed := qsFailed (vqStats vq) + 1\<rparr>\<rparr>)"

definition markVerified :: "instant \<Rightarrow> duration \<Rightarrow> int \<Rightarrow> VerifyQueue \<Rightarrow> VerifyQueue" where
  "markVerified now d i =
     update_row i (\<lambda>r. r\<lparr>qvStatus := VVerified, qvCompletedAt := Some now,
                         qvVerifyDuration := Some (Milliseconds d)\<rparr>)"

text \<open>The closure given to the daemon pool: it keeps the last result of \<open>CalcPow\<close>.\<close>

definition calc_pow_fn ::
  "('c \<Rightarrow> CalcPowParameters \<Rightarrow> string + string) \<Rightarrow> CalcPowParameters \<Rightarrow> 'c \<Rightarrow> string \<Rightarrow> string option \<times> string" where
  "calc_pow_fn pow params client calcPow =
     (case pow client params of Inl e \<Rightarrow> (Some e, calcPow) | Inr result \<Rightarrow> (None, result))"

text \<open>The readings of the clock and the environment of one settlement.\<close>

record 'c settle_env =
  seDial :: "nat \<Rightarrow> instant \<times> ('c \<times> instant) option"
  sePow :: "'c \<Rightarrow> CalcPowParameters \<Rightarrow> string + string"
  seDuration :: duration
  seNow :: instant
  seAlert :: "instant \<times> instant"

definition settle ::
  "(string \<Rightarrow> ShareToVerify option) \<Rightarrow> 'c settle_env \<Rightarrow> QueuedVerification
     \<Rightarrow> 'c DaemonPool \<times> VerifyQueue \<Rightarrow> 'c DaemonPool \<times> VerifyQueue" where
  "settle unmarshal env item = (\<lambda>(pool, vq).
     case unmarshal (qvShareData item) of
       None \<Rightarrow> (pool, markFailed (seNow env) (qvID item) ''invalid_data'' vq)
     | Some share \<Rightarrow>
         (case ExecuteWithRetry (seDial env) (calc_pow_fn (sePow env) (svCalcPowParams share)) pool '''' of
            (r, pool, calcPow) \<Rightarrow>
              (if r \<noteq> ExecOk then (pool, markFailed (seNow env) (qvID item) ''calc_pow_error'' vq)
               else if calcPow \<noteq> svExpectedResult share
                    then (pool, markFailed (seNow env) (qvID item) ''invalid_pow'' vq)
               else
                 let vq = markVerified (seNow env) (seDuration env) (qvID item) vq;
                     vq = (if seDuration env > alertThreshold
                           then vq\<lparr>vqStats := snd (alert (fst (seAlert env)) (snd (seAlert env)) (vqStats vq))\<rparr>
                           else vq)
                 in (pool, vq\<lparr>vqStats := updateStats (seDuration env) (vqStats vq)\<rparr>))))"

text \<open>\<open>processNext\<close> of a worker that nothing interrupts.\<close>

definition processNext ::
  "(string \<Rightarrow> ShareToVerify option) \<Rightarrow> (QueuedVerification list \<Rightarrow> QueuedVerification list) \<Rightarrow> instant
     \<Rightarrow> 'c settle_env \<Rightarrow> 'c DaemonPool \<times> VerifyQueue \<Rightarrow> 'c DaemonPool \<times> VerifyQueue" where
  "processNext unmarshal order startTime env = (\<lambda>(pool, vq).
     case claim order startTime vq of
       (None, vq) \<Rightarrow> (pool, vq)
     | (Some item, vq) \<Rightarrow> settle unmarshal env item (pool, vq))"

section \<open>Monitoring and cleanup\<close>

definition cleanup :: "instant \<Rightarrow> VerifyQueue \<Rightarrow> VerifyQueue" where
  "cleanup now vq =
     (let cutoff = now - 3600 * Second in
      vq\<lparr>vqRows := filter (\<lambda>r. \<not> (qvStatus r \<in> {VVerified, VFailed} \<and>
                               (case qvCompletedAt r of Some t \<Rightarrow> t < cutoff | None \<Rightarrow> False)))
                   (vqRows vq)\<rparr>)"

text \<open>\<open>INSERT INTO verify_metrics\<close> fails on a timestamp already there.\<close>

definition metrics_tick :: "int \<Rightarrow> instant \<Rightarrow> VerifyQueue \<Rightarrow> VerifyQueue" where
  "metrics_tick unixNow now vq =
     (let st = vqStats vq;
          row = (unixNow, qsPending st, qsProcessing st, Milliseconds (qsAvgVerifyTime st),
                 Milliseconds (qsMaxVerifyTime st), qsVerified st, qsFailed st);
          vq = (if unixNow \<in> fst ` set (vqMetrics vq) then vq
                else vq\<lparr>vqMetrics := vqMetrics vq @ [row]\<rparr>)
      in cleanup now vq)"

definition status_count :: "vstatus \<Rightarrow> VerifyQueue \<Rightarrow> int" where
  "status_count s vq = int (length (filter (\<lambda>r. qvStatus r = s) (vqRows vq)))"

text \<open>One tick of \<open>monitorLoop\<close>: \<open>now\<close> is the reading for the age of the oldest pending row, \<open>a1\<close>
  and \<open>a2\<close> those of the two possible alerts.\<close>

definition monitor_tick ::
  "instant \<Rightarrow> instant \<times> instant \<Rightarrow> instant \<times> instant \<Rightarrow> VerifyQueue \<Rightarrow> VerifyQueue" where
  "monitor_tick now a1 a2 vq =
     (let pending = status_count VPending vq;
          processing = status_count VProcessing vq;
          st = (if pending > 1000 then snd (alert (fst a1) (snd a1) (vqStats vq)) else vqStats vq);
          times = map qvSubmittedAt (pending_rows vq);
          st = (if times \<noteq> [] \<and> 0 < Min (set times) \<and> time_Sub now (Min (set times)) > 30 * Second
                then snd (alert (fst a2) (snd a2) st) else st)
      in vq\<lparr>vqStats := st\<lparr>qsPending := pending, qsProcessing := processing\<rparr>\<rparr>)"

section \<open>The queue and its workers as a system\<close>

record 'c vq_sys =
  vsQueue :: VerifyQueue
  vsPool :: "'c DaemonPool"
  vsHeld :: "nat \<rightharpoonup> QueuedVerification"

inductive vq_step ::
  "(ShareToVerify \<Rightarrow> string) \<Rightarrow> (string \<Rightarrow> ShareToVerify option)
     \<Rightarrow> (QueuedVerification list \<Rightarrow> QueuedVerification list)
     \<Rightarrow> ('c \<Rightarrow> CalcPowParameters \<Rightarrow> string + string) \<Rightarrow> 'c vq_sys \<Rightarrow> 'c vq_sys \<Rightarrow> bool"
  for marshal unmarshal order pow
where
  submits: "Submit marshal now share (vsQueue s) = (r, q) \<Longrightarrow>
     vq_step marshal unmarshal order pow s (s\<lparr>vsQueue := q\<rparr>)"
| claims: "vsHeld s w = None \<Longrightarrow> claim order now (vsQueue s) = (Some item, q) \<Longrightarrow>
     vq_step marshal unmarshal order pow s (s\<lparr>vsQueue := q, vsHeld := (vsHeld s)(w \<mapsto> item)\<rparr>)"
| settles: "vsHeld s w = Some item \<Longrightarrow> sePow env = pow \<Longrightarrow>
     settle unmarshal env item (vsPool s, vsQueue s) = (pool, q) \<Longrightarrow>
     vq_step marshal unmarshal order pow s (s\<lparr>vsQueue := q, vsPool := pool, vsHeld := (vsHeld s)(w := None)\<rparr>)"
| metrics: "vq_step marshal unmarshal order pow s (s\<lparr>vsQueue := metrics_tick unixNow now (vsQueue s)\<rparr>)"
| monitors: "vq_step marshal unmarshal order pow s (s\<lparr>vsQueue := monitor_tick now a1 a2 (vsQueue s)\<rparr>)"
| restarts: "vq_step marshal unmarshal order pow s
     (s\<lparr>vsQueue := (vsQueue s)\<lparr>vqStats := zero_stats\<rparr>, vsPool := pool, vsHeld := Map.empty\<rparr>)"

inductive vq_reachable ::
  "(ShareToVerify \<Rightarrow> string) \<Rightarrow> (string \<Rightarrow> ShareToVerify option)
     \<Rightarrow> (QueuedVerification list \<Rightarrow> QueuedVerification list)
     \<Rightarrow> ('c \<Rightarrow> CalcPowParameters \<Rightarrow> string + string) \<Rightarrow> 'c vq_sys \<Rightarrow> 'c vq_sys \<Rightarrow> bool"
  for marshal unmarshal order pow s0
where
  here: "vq_reachable marshal unmarshal order pow s0 s0"
| further: "vq_reachable marshal unmarshal order pow s0 s \<Longrightarrow> vq_step marshal unmarshal order pow s t \<Longrightarrow>
     vq_reachable marshal unmarshal order pow s0 t"

definition vq_start :: "'c DaemonPool \<Rightarrow> 'c vq_sys" where
  "vq_start pool = \<lparr>vsQueue = NewVerifyQueue, vsPool = pool, vsHeld = Map.empty\<rparr>"

section \<open>The invariant\<close>

definition proved ::
  "(string \<Rightarrow> ShareToVerify option) \<Rightarrow> ('c \<Rightarrow> CalcPowParameters \<Rightarrow> string + string) \<Rightarrow> string \<Rightarrow> bool" where
  "proved unmarshal pow d =
     (\<exists>share c. unmarshal d = Some share \<and> pow c (svCalcPowParams share) = Inr (svExpectedResult share))"

definition row_ok ::
  "(string \<Rightarrow> ShareToVerify option) \<Rightarrow> ('c \<Rightarrow> CalcPowParameters \<Rightarrow> string + string)
     \<Rightarrow> QueuedVerification \<Rightarrow> bool" where
  "row_ok unmarshal pow r =
     ((qvStatus r \<in> {VVerified, VFailed}) = (qvCompletedAt r \<noteq> None) \<and>
      (qvStatus r = VPending \<longrightarrow> qvStartedAt r = None) \<and>
      (qvStatus r = VVerified \<longrightarrow> proved unmarshal pow (qvShareData r)))"

definition rows_ok ::
  "(string \<Rightarrow> ShareToVerify option) \<Rightarrow> ('c \<Rightarrow> CalcPowParameters \<Rightarrow> string + string) \<Rightarrow> VerifyQueue \<Rightarrow> bool" where
  "rows_ok unmarshal pow vq =
     (distinct (map qvID (vqRows vq)) \<and>
      (\<forall>r \<in> set (vqRows vq). qvID r < vqNextID vq \<and> row_ok unmarshal pow r))"

text \<open>A worker holds a row that is being processed, and no two workers hold the same one.\<close>

definition held_ok :: "VerifyQueue \<Rightarrow> (nat \<rightharpoonup> QueuedVerification) \<Rightarrow> bool" where
  "held_ok vq held =
     ((\<forall>w item. held w = Some item \<longrightarrow>
         (\<exists>r \<in> set (vqRows vq). qvID r = qvID item \<and> qvStatus r = VProcessing \<and> qvShareData r = qvShareData item)) \<and>
      (\<forall>w w' item item'. held w = Some item \<longrightarrow> held w' = Some item' \<longrightarrow> qvID item = qvID item' \<longrightarrow> w = w'))"

definition vq_inv ::
  "(string \<Rightarrow> ShareToVerify option) \<Rightarrow> ('c \<Rightarrow> CalcPowParameters \<Rightarrow> string + string) \<Rightarrow> 'c vq_sys \<Rightarrow> bool" where
  "vq_inv unmarshal pow s = (rows_ok unmarshal pow (vsQueue s) \<and> held_ok (vsQueue s) (vsHeld s))"

lemma retry_loop_ok:
  "retry_loop k env fn p s = (ExecOk, p', s') \<Longrightarrow> \<exists>c s0. fn c s0 = (None, s')"
proof (induction k arbitrary: env p s)
  case (Suc k)
  then show ?case
    by (auto split: prod.splits option.splits if_splits)
qed simp

lemma calc_pow_ok:
  "ExecuteWithRetry env (calc_pow_fn pow params) p s = (ExecOk, p', result) \<Longrightarrow> \<exists>c. pow c params = Inr result"
proof -
  assume "ExecuteWithRetry env (calc_pow_fn pow params) p s = (ExecOk, p', result)"
  from retry_loop_ok [OF this [unfolded ExecuteWithRetry_def]]
  obtain c s0 where "calc_pow_fn pow params c s0 = (None, result)" by blast
  then show ?thesis by (cases "pow c params") (auto simp: calc_pow_fn_def)
qed

text \<open>What settling a row does to the table.\<close>

definition settled :: "QueuedVerification \<Rightarrow> QueuedVerification \<Rightarrow> bool" where
  "settled r r' =
     (qvID r' = qvID r \<and> qvShareData r' = qvShareData r \<and> qvSubmittedAt r' = qvSubmittedAt r \<and>
      qvStatus r' \<in> {VVerified, VFailed} \<and> qvCompletedAt r' \<noteq> None)"

definition fail_row :: "instant \<Rightarrow> string \<Rightarrow> QueuedVerification \<Rightarrow> QueuedVerification" where
  "fail_row now reason r = r\<lparr>qvStatus := VFailed, qvCompletedAt := Some now, qvNodeUsed := Some reason\<rparr>"

definition verify_row :: "instant \<Rightarrow> duration \<Rightarrow> QueuedVerification \<Rightarrow> QueuedVerification" where
  "verify_row now d r = r\<lparr>qvStatus := VVerified, qvCompletedAt := Some now, qvVerifyDuration := Some (Milliseconds d)\<rparr>"

lemma settled_rows [simp]: "settled r (fail_row now reason r)" "settled r (verify_row now d r)"
  by (simp_all add: settled_def fail_row_def verify_row_def)

lemma row_status [simp]:
  "qvStatus (fail_row now reason r) = VFailed" "qvStatus (verify_row now d r) = VVerified"
  by (simp_all add: fail_row_def verify_row_def)

lemma markFailed_rows [simp]:
  "vqRows (markFailed now i reason vq) = map (\<lambda>r. if qvID r = i then fail_row now reason r else r) (vqRows vq)"
  "vqNextID (markFailed now i reason vq) = vqNextID vq"
  by (simp_all add: markFailed_def update_row_def fail_row_def Let_def)

lemma markVerified_rows [simp]:
  "vqRows (markVerified now d i vq) = map (\<lambda>r. if qvID r = i then verify_row now d r else r) (vqRows vq)"
  "vqNextID (markVerified now d i vq) = vqNextID vq"
  by (simp_all add: markVerified_def update_row_def verify_row_def)

lemma settle_cases:
  assumes "settle unmarshal env item (pool, vq) = (pool', vq')"
  obtains (failed) reason where
      "vqRows vq' = map (\<lambda>r. if qvID r = qvID item then fail_row (seNow env) reason r else r) (vqRows vq)"
      "vqNextID vq' = vqNextID vq"
  | (verified) "vqRows vq' = map (\<lambda>r. if qvID r = qvID item then verify_row (seNow env) (seDuration env) r else r) (vqRows vq)"
      "vqNextID vq' = vqNextID vq" "proved unmarshal (sePow env) (qvShareData item)"
proof (cases "unmarshal (qvShareData item)")
  case None
  with assms failed [of "''invalid_data''"] show thesis by (auto simp: settle_def)
next
  case (Some share)
  obtain r pool1 result where
    e: "ExecuteWithRetry (seDial env) (calc_pow_fn (sePow env) (svCalcPowParams share)) pool '''' = (r, pool1, result)"
    by (metis prod_cases3)
  consider "r \<noteq> ExecOk" | "r = ExecOk" "result \<noteq> svExpectedResult share" | "r = ExecOk" "result = svExpectedResult share"
    by blast
  then show thesis
  proof cases
    case 1
    with assms Some e failed [of "''calc_pow_error''"] show thesis by (auto simp: settle_def)
  next
    case 2
    with assms Some e failed [of "''invalid_pow''"] show thesis by (auto simp: settle_def)
  next
    case 3
    with e have "\<exists>c. sePow env c (svCalcPowParams share) = Inr (svExpectedResult share)"
      by (auto dest: calc_pow_ok)
    then have "proved unmarshal (sePow env) (qvShareData item)" using Some by (auto simp: proved_def)
    moreover have "vqRows vq' = vqRows (markVerified (seNow env) (seDuration env) (qvID item) vq)"
        "vqNextID vq' = vqNextID (markVerified (seNow env) (seDuration env) (qvID item) vq)"
      using assms Some e 3 by (auto simp: settle_def Let_def)
    ultimately show thesis using verified by simp
  qed
qed

lemma settledD:
  "settled r r' \<Longrightarrow> qvID r' = qvID r" "settled r r' \<Longrightarrow> qvShareData r' = qvShareData r"
  by (simp_all add: settled_def)

lemma rows_ok_map:
  assumes "rows_ok unmarshal pow vq"
    and "\<forall>r \<in> set (vqRows vq). qvID (g r) = qvID r \<and> row_ok unmarshal pow (g r)"
    and "vqRows vq' = map g (vqRows vq)" and "vqNextID vq' = vqNextID vq"
  shows "rows_ok unmarshal pow vq'"
proof -
  have "map qvID (map g (vqRows vq)) = map qvID (vqRows vq)" using assms(2) by simp
  then show ?thesis
    using assms(1,2) unfolding rows_ok_def assms(3,4) by (auto simp del: map_map)
qed

lemma row_ok_fail [simp]: "row_ok unmarshal pow (fail_row now reason r)"
  by (simp add: row_ok_def fail_row_def)

lemma row_ok_verify [simp]: "row_ok unmarshal pow (verify_row now d r) \<longleftrightarrow> proved unmarshal pow (qvShareData r)"
  by (simp add: row_ok_def verify_row_def)

lemma unique_row:
  "rows_ok unmarshal pow vq \<Longrightarrow> r \<in> set (vqRows vq) \<Longrightarrow> r' \<in> set (vqRows vq) \<Longrightarrow> qvID r = qvID r' \<Longrightarrow> r = r'"
  by (auto simp: rows_ok_def distinct_map dest: inj_onD)

lemma claim_cases:
  assumes "claim order now vq = (Some item, vq')" and "orders_by qvSubmittedAt order"
  shows "item \<in> set (vqRows vq)" and "qvStatus item = VPending"
    and "\<forall>r \<in> set (vqRows vq). qvStatus r = VPending \<longrightarrow> qvSubmittedAt item \<le> qvSubmittedAt r"
    and "vq' = update_row (qvID item) (\<lambda>r. r\<lparr>qvStatus := VProcessing, qvStartedAt := Some now\<rparr>) vq"
proof -
  from assms obtain rest where o: "order (pending_rows vq) = item # rest"
    and vq': "vq' = update_row (qvID item) (\<lambda>r. r\<lparr>qvStatus := VProcessing, qvStartedAt := Some now\<rparr>) vq"
    by (auto simp: claim_def split: list.splits)
  have ms: "mset (item # rest) = mset (pending_rows vq)" "sorted (map qvSubmittedAt (item # rest))"
    using assms(2) o unfolding orders_by_def by metis+
  from ms(1) have set: "set (item # rest) = set (pending_rows vq)" by (metis set_mset_mset)
  then have "item \<in> set (pending_rows vq)" by auto
  then show "item \<in> set (vqRows vq)" "qvStatus item = VPending" by (auto simp: pending_rows_def)
  show "\<forall>r \<in> set (vqRows vq). qvStatus r = VPending \<longrightarrow> qvSubmittedAt item \<le> qvSubmittedAt r"
  proof (intro ballI impI)
    fix r assume "r \<in> set (vqRows vq)" "qvStatus r = VPending"
    then have "r \<in> set (item # rest)" using set by (auto simp: pending_rows_def)
    then show "qvSubmittedAt item \<le> qvSubmittedAt r" using ms(2) by auto
  qed
  show "vq' = update_row (qvID item) (\<lambda>r. r\<lparr>qvStatus := VProcessing, qvStartedAt := Some now\<rparr>) vq" by (rule vq')
qed

lemma held_okE:
  assumes "held_ok vq held" and "held w = Some item"
  obtains r where "r \<in> set (vqRows vq)" "qvID r = qvID item" "qvStatus r = VProcessing"
    "qvShareData r = qvShareData item"
  using assms unfolding held_ok_def by blast

lemma vq_inv_submit:
  assumes "vq_inv unmarshal pow s" and "Submit marshal now share (vsQueue s) = (r, q)"
  shows "vq_inv unmarshal pow (s\<lparr>vsQueue := q\<rparr>)"
  using assms
  by (fastforce simp: vq_inv_def Submit_def rows_ok_def held_ok_def row_ok_def split: if_splits)

lemma vq_inv_claim:
  assumes inv: "vq_inv unmarshal pow s" and order: "orders_by qvSubmittedAt order"
    and c: "claim order now (vsQueue s) = (Some item, q)"
  shows "vq_inv unmarshal pow (s\<lparr>vsQueue := q, vsHeld := (vsHeld s)(w \<mapsto> item)\<rparr>)"
proof -
  let ?g = "\<lambda>r. if qvID r = qvID item then r\<lparr>qvStatus := VProcessing, qvStartedAt := Some now\<rparr> else r"
  note cl = claim_cases [OF c order]
  have q: "vqRows q = map ?g (vqRows (vsQueue s))" "vqNextID q = vqNextID (vsQueue s)"
    by (simp_all add: cl(4) update_row_def)
  have rows: "rows_ok unmarshal pow (vsQueue s)" and held: "held_ok (vsQueue s) (vsHeld s)"
    using inv by (simp_all add: vq_inv_def)
  have uniq: "r = item" if "r \<in> set (vqRows (vsQueue s))" "qvID r = qvID item" for r
    using unique_row [OF rows that(1) cl(1)] that(2) by blast
  have "qvCompletedAt item = None" using rows cl(1,2) by (auto simp: rows_ok_def row_ok_def)
  then have "rows_ok unmarshal pow q"
    using rows uniq by (intro rows_ok_map [OF rows _ q]) (auto simp: rows_ok_def row_ok_def dest!: uniq)
  moreover have "held_ok q ((vsHeld s)(w \<mapsto> item))"
  proof -
    have other: "qvID i \<noteq> qvID item" if "vsHeld s w' = Some i" for w' i
      using held that cl(2) uniq unfolding held_ok_def by (metis vstatus.distinct(1))
    have "\<exists>r \<in> set (vqRows q). qvID r = qvID i \<and> qvStatus r = VProcessing \<and> qvShareData r = qvShareData i"
      if "((vsHeld s)(w \<mapsto> item)) w' = Some i" for w' i
    proof (cases "w' = w")
      case True
      then have "?g item \<in> set (vqRows q)" "i = item" using that cl(1) by (auto simp: q)
      then show ?thesis by (intro bexI [of _ "?g item"]) auto
    next
      case False
      then have h: "vsHeld s w' = Some i" using that by simp
      obtain r where r: "r \<in> set (vqRows (vsQueue s))" "qvID r = qvID i" "qvStatus r = VProcessing"
        "qvShareData r = qvShareData i" using held_okE [OF held h] by blast
      have "qvID r \<noteq> qvID item" using other [OF h] r(2) by simp
      then have "r \<in> set (vqRows q)" using r(1) by (force simp: q)
      then show ?thesis using r by blast
    qed
    moreover have "w1 = w2" if "((vsHeld s)(w \<mapsto> item)) w1 = Some i1" "((vsHeld s)(w \<mapsto> item)) w2 = Some i2"
        "qvID i1 = qvID i2" for w1 w2 i1 i2
      using that other held unfolding held_ok_def by (metis fun_upd_apply option.inject)
    ultimately show ?thesis unfolding held_ok_def by blast
  qed
  ultimately show ?thesis by (simp add: vq_inv_def)
qed

text \<open>Rewriting the one row a worker holds and letting go of it keeps the workers apart.\<close>

lemma held_ok_release:
  assumes "held_ok vq held" and "held w = Some item"
    and "vqRows vq' = map (\<lambda>r. if qvID r = qvID item then f r else r) (vqRows vq)"
  shows "held_ok vq' (held(w := None))"
  unfolding held_ok_def
proof (intro conjI allI impI)
  fix w' i assume "(held(w := None)) w' = Some i"
  then have h: "held w' = Some i" "w' \<noteq> w" by (auto split: if_splits)
  obtain r where r: "r \<in> set (vqRows vq)" "qvID r = qvID i" "qvStatus r = VProcessing"
    "qvShareData r = qvShareData i" using held_okE [OF assms(1) h(1)] by blast
  have "qvID i \<noteq> qvID item" using assms(1,2) h unfolding held_ok_def by blast
  then have "r \<in> set (vqRows vq')" using r(1,2) by (force simp: assms(3))
  then show "\<exists>r \<in> set (vqRows vq'). qvID r = qvID i \<and> qvStatus r = VProcessing \<and> qvShareData r = qvShareData i"
    using r by blast
next
  fix w1 w2 i1 i2
  assume "(held(w := None)) w1 = Some i1" "(held(w := None)) w2 = Some i2" "qvID i1 = qvID i2"
  then show "w1 = w2" using assms(1) unfolding held_ok_def by (metis fun_upd_apply option.distinct(1))
qed

lemma vq_inv_settle:
  assumes inv: "vq_inv unmarshal pow s" and held: "vsHeld s w = Some item" and pow: "sePow env = pow"
    and st: "settle unmarshal env item (vsPool s, vsQueue s) = (pool, q)"
  shows "vq_inv unmarshal pow (s\<lparr>vsQueue := q, vsPool := pool, vsHeld := (vsHeld s)(w := None)\<rparr>)"
proof -
  have rows: "rows_ok unmarshal pow (vsQueue s)" and h: "held_ok (vsQueue s) (vsHeld s)"
    using inv by (simp_all add: vq_inv_def)
  obtain row where row: "row \<in> set (vqRows (vsQueue s))" "qvID row = qvID item" "qvShareData row = qvShareData item"
    using held_okE [OF h held] by blast
  have uniq: "r = row" if "r \<in> set (vqRows (vsQueue s))" "qvID r = qvID item" for r
    using unique_row [OF rows that(1) row(1)] that(2) row(2) by simp
  from st show ?thesis
  proof (cases rule: settle_cases)
    case (failed reason)
    have "rows_ok unmarshal pow q"
      using rows by (intro rows_ok_map [OF rows _ failed]) (auto simp: rows_ok_def settledD(1) [OF settled_rows(1)])
    then show ?thesis using held_ok_release [OF h held failed(1)] by (simp add: vq_inv_def)
  next
    case verified
    have "rows_ok unmarshal pow q"
      using rows verified(3) row pow
      by (intro rows_ok_map [OF rows _ verified(1,2)])
        (auto simp: rows_ok_def settledD(1) [OF settled_rows(2)] dest!: uniq)
    then show ?thesis using held_ok_release [OF h held verified(1)] by (simp add: vq_inv_def)
  qed
qed

lemma vq_inv_same_rows:
  assumes "vq_inv unmarshal pow s" and "vqRows q = vqRows (vsQueue s)" and "vqNextID q = vqNextID (vsQueue s)"
  shows "vq_inv unmarshal pow (s\<lparr>vsQueue := q\<rparr>)"
  using assms by (simp add: vq_inv_def rows_ok_def held_ok_def)

lemma cleanup_rows:
  "set (vqRows (cleanup now vq)) \<subseteq> set (vqRows vq)"
  "r \<in> set (vqRows vq) \<Longrightarrow> qvStatus r \<in> {VPending, VProcessing} \<Longrightarrow> r \<in> set (vqRows (cleanup now vq))"
  by (auto simp: cleanup_def Let_def)

lemma vq_inv_cleanup:
  assumes inv: "vq_inv unmarshal pow s" and rows: "vqRows q = vqRows (vsQueue s)" and "vqNextID q = vqNextID (vsQueue s)"
  shows "vq_inv unmarshal pow (s\<lparr>vsQueue := cleanup now q\<rparr>)"
proof -
  have "vq_inv unmarshal pow (s\<lparr>vsQueue := q\<rparr>)" using assms by (rule vq_inv_same_rows)
  then have ok: "rows_ok unmarshal pow q" and held: "held_ok q (vsHeld s)" by (simp_all add: vq_inv_def)
  have "rows_ok unmarshal pow (cleanup now q)"
    using ok by (auto simp: rows_ok_def cleanup_def Let_def distinct_map_filter)
  moreover have "held_ok (cleanup now q) (vsHeld s)"
    using held cleanup_rows(2) [of _ q now] unfolding held_ok_def by (metis insertCI)
  ultimately show ?thesis by (simp add: vq_inv_def)
qed

lemma vq_step_inv:
  assumes "vq_step marshal unmarshal order pow s t" and "orders_by qvSubmittedAt order" and "vq_inv unmarshal pow s"
  shows "vq_inv unmarshal pow t"
  using assms
proof (induction rule: vq_step.induct)
  case (submits now share s r q)
  then show ?case by (intro vq_inv_submit)
next
  case (claims s w now item q)
  then show ?case by (intro vq_inv_claim)
next
  case (settles s w item env pool q)
  then show ?case by (intro vq_inv_settle)
next
  case (metrics s unixNow now)
  then show ?case unfolding metrics_tick_def Let_def by (intro vq_inv_cleanup) auto
next
  case (monitors s now a1 a2)
  then show ?case unfolding monitor_tick_def Let_def by (intro vq_inv_same_rows) auto
next
  case (restarts s pool)
  then show ?case by (simp add: vq_inv_def rows_ok_def held_ok_def)
qed

lemma vq_reachable_inv:
  assumes "vq_reachable marshal unmarshal order pow s0 s" and "orders_by qvSubmittedAt order" and "vq_inv unmarshal pow s0"
  shows "vq_inv unmarshal pow s"
  using assms by (induction rule: vq_reachable.induct) (auto intro: vq_step_inv)

lemma vq_start_inv [simp]: "vq_inv unmarshal pow (vq_start pool)"
  by (simp add: vq_inv_def vq_start_def NewVerifyQueue_def rows_ok_def held_ok_def)

text \<open>C4: the queue is safe under any interleaving of submissions, workers, cleanups and restarts.
  No two workers ever hold the same row, and a row is marked verified only if some daemon
  computed, for the parameters of the share stored in it, exactly the result the miner claimed.\<close>

theorem verify_queue_safe:
  assumes "vq_reachable marshal unmarshal order pow (vq_start pool) s" and "orders_by qvSubmittedAt order"
  shows "(\<forall>w w' item item'. vsHeld s w = Some item \<longrightarrow> vsHeld s w' = Some item' \<longrightarrow> qvID item = qvID item' \<longrightarrow> w = w') \<and>
         (\<forall>r \<in> set (vqRows (vsQueue s)). qvStatus r = VVerified \<longrightarrow>
            (\<exists>share c. unmarshal (qvShareData r) = Some share \<and>
                       pow c (svCalcPowParams share) = Inr (svExpectedResult share)))"
proof -
  have "vq_inv unmarshal pow s" using assms vq_start_inv by (rule vq_reachable_inv)
  then show ?thesis
    unfolding vq_inv_def rows_ok_def row_ok_def held_ok_def proved_def by blast
qed

section \<open>Lost rows\<close>

definition orphaned :: "QueuedVerification \<Rightarrow> 'c vq_sys \<Rightarrow> bool" where
  "orphaned r s =
     (r \<in> set (vqRows (vsQueue s)) \<and> qvStatus r = VProcessing \<and>
      (\<forall>w item. vsHeld s w = Some item \<longrightarrow> qvID item \<noteq> qvID r))"

lemma orphaned_same_rows:
  "orphaned r s \<Longrightarrow> vqRows q = vqRows (vsQueue s) \<Longrightarrow> orphaned r (s\<lparr>vsQueue := q\<rparr>)"
  by (simp add: orphaned_def)

lemma in_map_other:
  "r \<in> set xs \<Longrightarrow> key r \<noteq> i \<Longrightarrow> r \<in> set (map (\<lambda>x. if key x = i then f x else x) xs)"
  by force

lemma vq_step_orphaned:
  assumes "vq_step marshal unmarshal order pow s t" and "orders_by qvSubmittedAt order"
    and "vq_inv unmarshal pow s" and "orphaned r s"
  shows "orphaned r t"
  using assms
proof (induction rule: vq_step.induct)
  case (submits now share s r' q)
  then show ?case by (auto simp: orphaned_def Submit_def split: if_splits)
next
  case (claims s w now item q)
  note cl = claim_cases [OF claims(2,3)]
  have r: "r \<in> set (vqRows (vsQueue s))" "qvStatus r = VProcessing" using claims by (auto simp: orphaned_def)
  have rows: "rows_ok unmarshal pow (vsQueue s)" using claims by (simp add: vq_inv_def)
  have "qvID r \<noteq> qvID item" using unique_row [OF rows r(1) cl(1)] r(2) cl(2) by auto
  with claims r show ?case
    by (auto simp: orphaned_def cl(4) update_row_def simp del: set_map intro!: in_map_other)
next
  case (settles s w item env pool q)
  have r: "r \<in> set (vqRows (vsQueue s))" "qvStatus r = VProcessing" "qvID r \<noteq> qvID item"
    using settles(1,6) unfolding orphaned_def by metis+
  from settles(3) have "r \<in> set (vqRows q)"
    by (cases rule: settle_cases) (simp_all del: set_map add: in_map_other r)
  with settles r show ?case by (auto simp: orphaned_def)
next
  case (metrics s unixNow now)
  let ?q = "metrics_tick unixNow now (vsQueue s)"
  have "r \<in> set (vqRows ?q)"
    using metrics(3) unfolding metrics_tick_def Let_def orphaned_def by (intro cleanup_rows(2)) auto
  then show ?case using metrics by (auto simp: orphaned_def)
next
  case (monitors s now a1 a2)
  then show ?case unfolding monitor_tick_def Let_def by (intro orphaned_same_rows) auto
next
  case (restarts s pool)
  then show ?case by (simp add: orphaned_def)
qed

text \<open>A verification interrupted by a restart is lost. A row that is being processed and that
  no worker holds any more is never taken up again and never cleaned up: it stays in the
  table, unchanged, whatever happens afterwards.\<close>

theorem interrupted_row_is_lost:
  assumes "vq_reachable marshal unmarshal order pow (vq_start pool) s" and "orders_by qvSubmittedAt order"
    and "r \<in> set (vqRows (vsQueue s))" and "qvStatus r = VProcessing"
    and "\<forall>w item. vsHeld s w = Some item \<longrightarrow> qvID item \<noteq> qvID r"
    and "vq_reachable marshal unmarshal order pow s t"
  shows "r \<in> set (vqRows (vsQueue t)) \<and> qvStatus r = VProcessing"
proof -
  have inv: "vq_inv unmarshal pow s" using assms(1,2) vq_start_inv by (rule vq_reachable_inv)
  have "orphaned r s" using assms(3-5) by (simp add: orphaned_def)
  with assms(6) have "orphaned r t \<and> vq_inv unmarshal pow t"
    using inv assms(2) by (induction rule: vq_reachable.induct) (auto intro: vq_step_orphaned vq_step_inv)
  then show ?thesis by (simp add: orphaned_def)
qed

section \<open>Draining\<close>

lemma processNext_rows:
  assumes order: "orders_by qvSubmittedAt order" and dist: "distinct (map qvID (vqRows vq))"
    and pend: "pending_rows vq \<noteq> []"
    and p: "processNext unmarshal order now env (pool, vq) = (pool', vq')"
  shows "\<exists>item f. item \<in> set (vqRows vq) \<and> qvStatus item = VPending \<and> (\<forall>r. settled r (f r)) \<and>
           vqRows vq' = map (\<lambda>r. if qvID r = qvID item then f r else r) (vqRows vq)"
proof -
  have "order (pending_rows vq) \<noteq> []"
    using order pend unfolding orders_by_def by (metis mset_zero_iff_right)
  then obtain item vq1 where c: "claim order now vq = (Some item, vq1)"
    by (auto simp: claim_def neq_Nil_conv)
  note cl = claim_cases [OF c order]
  let ?u = "\<lambda>r. r\<lparr>qvStatus := VProcessing, qvStartedAt := Some now\<rparr>"
  have rows1: "vqRows vq1 = map (\<lambda>r. if qvID r = qvID item then ?u r else r) (vqRows vq)"
    by (simp add: cl(4) update_row_def)
  have twice: "map (\<lambda>r. if qvID r = i then f r else r) (map (\<lambda>r. if qvID r = i then ?u r else r) xs) =
      map (\<lambda>r. if qvID r = i then f (?u r) else r) xs" for f :: "QueuedVerification \<Rightarrow> QueuedVerification" and xs i
    by (induction xs) auto
  from p c have "settle unmarshal env item (pool, vq1) = (pool', vq')" by (simp add: processNext_def)
  then show ?thesis
  proof (cases rule: settle_cases)
    case (failed reason)
    then show ?thesis using cl(1,2)
      by (intro exI [of _ item] exI [of _ "\<lambda>r. fail_row (seNow env) reason (?u r)"])
        (simp only: rows1 twice, simp add: settled_def fail_row_def)
  next
    case verified
    then show ?thesis using cl(1,2)
      by (intro exI [of _ item] exI [of _ "\<lambda>r. verify_row (seNow env) (seDuration env) (?u r)"])
        (simp only: rows1 twice, simp add: settled_def verify_row_def)
  qed
qed

definition drained :: "QueuedVerification \<Rightarrow> QueuedVerification \<Rightarrow> bool" where
  "drained r r' = (if qvStatus r = VPending then settled r r' else r' = r)"

definition advanced :: "QueuedVerification \<Rightarrow> QueuedVerification \<Rightarrow> bool" where
  "advanced r r' = (r' = r \<or> qvStatus r = VPending \<and> settled r r')"

lemma advanced_trans: "advanced r r' \<Longrightarrow> advanced r' r'' \<Longrightarrow> advanced r r''"
  by (auto simp: advanced_def settled_def)

lemma advanced_drained:
  "list_all2 advanced xs ys \<Longrightarrow> \<forall>r \<in> set ys. qvStatus r \<noteq> VPending \<Longrightarrow> list_all2 drained xs ys"
  by (induction rule: list_all2_induct) (auto simp: advanced_def drained_def)

lemma advanced_ids: "list_all2 advanced xs ys \<Longrightarrow> map qvID ys = map qvID xs"
  by (induction rule: list_all2_induct) (auto simp: advanced_def settled_def)

lemma filter_map_replaced:
  "\<forall>r \<in> set xs. if r = a then \<not> P (g r) else g r = r \<Longrightarrow>
   filter P (map g xs) = filter (\<lambda>r. r \<noteq> a) (filter P xs)"
  by (induction xs) (auto split: if_splits)

lemma length_filter_other:
  "distinct xs \<Longrightarrow> a \<in> set xs \<Longrightarrow> length (filter (\<lambda>r. r \<noteq> a) xs) = length xs - 1"
proof (induction xs)
  case (Cons x xs)
  then show ?case
  proof (cases "x = a")
    case True
    then have "filter (\<lambda>r. r \<noteq> a) xs = xs" using Cons.prems by (intro filter_True) auto
    then show ?thesis using True by simp
  next
    case False
    then have "a \<in> set xs" "xs \<noteq> []" using Cons.prems by auto
    then show ?thesis using False Cons by simp
  qed
qed simp

lemma processNext_advances:
  assumes order: "orders_by qvSubmittedAt order" and dist: "distinct (map qvID (vqRows vq))"
    and p: "processNext unmarshal order now env (pool, vq) = (pool', vq')"
  shows "list_all2 advanced (vqRows vq) (vqRows vq') \<and>
         length (pending_rows vq') = length (pending_rows vq) - 1"
proof (cases "pending_rows vq = []")
  case True
  then have "order (pending_rows vq) = []" using order unfolding orders_by_def by (metis mset_zero_iff)
  then have "vq' = vq" using p by (simp add: processNext_def claim_def)
  then show ?thesis using True by (auto simp: advanced_def list_all2_same)
next
  case False
  from processNext_rows [OF order dist False p] obtain item f where
    i: "item \<in> set (vqRows vq)" "qvStatus item = VPending" and f: "\<forall>r. settled r (f r)"
    and rows: "vqRows vq' = map (\<lambda>r. if qvID r = qvID item then f r else r) (vqRows vq)" by blast
  have only: "qvID r = qvID item \<longleftrightarrow> r = item" if "r \<in> set (vqRows vq)" for r
    using dist i(1) that by (auto simp: distinct_map dest: inj_onD)
  have "\<forall>r \<in> set (vqRows vq). advanced r (if qvID r = qvID item then f r else r)"
    using only i(2) f by (auto simp: advanced_def)
  then have all: "list_all2 advanced (vqRows vq) (vqRows vq')"
    by (simp add: rows list_all2_conv_all_nth)
  have notp: "qvStatus (f r) \<noteq> VPending" for r using f [rule_format, of r] by (auto simp: settled_def)
  have "pending_rows vq' = filter (\<lambda>r. r \<noteq> item) (pending_rows vq)"
    unfolding pending_rows_def rows using only notp by (intro filter_map_replaced) auto
  moreover have "distinct (pending_rows vq)" "item \<in> set (pending_rows vq)"
    using dist i by (auto simp: pending_rows_def distinct_map)
  ultimately have "length (pending_rows vq') = length (pending_rows vq) - 1"
    by (simp add: length_filter_other)
  with all show ?thesis by blast
qed

text \<open>C23: an undisturbed worker drains the queue. However the daemons answer, after at least as
  many calls of \<open>processNext\<close> as there were pending rows, every one of these rows is settled
  (verified or failed, with its completion time) and all other rows are as they were.\<close>

theorem worker_drains_queue:
  assumes "orders_by qvSubmittedAt order" and "distinct (map qvID (vqRows vq))"
    and "length (pending_rows vq) \<le> length envs"
  shows "list_all2 drained (vqRows vq)
    (vqRows (snd (run (\<lambda>st (now, env). processNext unmarshal order now env st) (pool, vq) envs)))"
proof -
  have "list_all2 advanced (vqRows vq) (vqRows (snd st)) \<and> length (pending_rows (snd st)) = length (pending_rows vq) - length envs"
    if "st = run (\<lambda>st (now, env). processNext unmarshal order now env st) (pool, vq) envs" for st
    using assms(2) that
  proof (induction envs arbitrary: pool vq)
    case Nil
    then show ?case by (simp add: list_all2_same advanced_def)
  next
    case (Cons e envs)
    obtain now env where e: "e = (now, env)" by (cases e)
    obtain pool1 vq1 where p: "processNext unmarshal order now env (pool, vq) = (pool1, vq1)" by fastforce
    note adv = processNext_advances [OF assms(1) Cons.prems(1) p]
    have "distinct (map qvID (vqRows vq1))" using adv Cons.prems(1) advanced_ids by metis
    moreover have "st = run (\<lambda>st (now, env). processNext unmarshal order now env st) (pool1, vq1) envs"
      using Cons.prems(2) e p by simp
    ultimately have ih: "list_all2 advanced (vqRows vq1) (vqRows (snd st)) \<and>
        length (pending_rows (snd st)) = length (pending_rows vq1) - length envs"
      by (rule Cons.IH)
    have "list_all2 advanced (vqRows vq) (vqRows (snd st))"
      by (rule list_all2_trans [OF advanced_trans adv [THEN conjunct1] ih [THEN conjunct1]])
    with ih adv show ?case by simp
  qed
  note st = this [OF refl]
  let ?rows = "vqRows (snd (run (\<lambda>st (now, env). processNext unmarshal order now env st) (pool, vq) envs))"
  have "\<forall>r \<in> set ?rows. qvStatus r \<noteq> VPending"
    using st assms(3) by (auto simp: pending_rows_def filter_empty_conv)
  with st show ?thesis by (intro advanced_drained) auto
qed

section \<open>Alerts\<close>

text \<open>\<open>alert\<close> moves \<open>LastAlert\<close> even when it stays silent, so alerts that keep coming within a
  minute of each other silence each other for good: only the first is logged.\<close>

fun spaced :: "instant \<Rightarrow> (instant \<times> instant) list \<Rightarrow> bool" where
  "spaced t [] = True"
| "spaced t ((now, now2) # es) = (t \<le> now2 \<and> now2 - t < 60 * Second \<and> spaced now es)"

lemma repeated_alerts_silent:
  "spaced (qsLastAlert st) es \<Longrightarrow>
   fst (answers (\<lambda>st (now, now2). alert now now2 st) st es) = replicate (length es) False"
proof (induction es arbitrary: st)
  case (Cons e es)
  obtain now now2 where e: "e = (now, now2)" by (cases e)
  have "time_Sub now2 (qsLastAlert st) < 60 * Second"
    using Cons.prems time_Sub_le [of now2 "qsLastAlert st"] by (simp add: e)
  then have a: "alert now now2 st = (False, st\<lparr>qsLastAlert := now\<rparr>)" by (simp add: alert_def Let_def)
  have "spaced (qsLastAlert (st\<lparr>qsLastAlert := now\<rparr>)) es" using Cons.prems by (simp add: e)
  from Cons.IH [OF this] show ?case by (simp add: e a split_beta)
qed simp

section \<open>A sample run\<close>

definition sample_share :: ShareToVerify where
  "sample_share = \<lparr>svConnectionID = 7,
     svCalcPowParams = \<lparr>cpMajorVersion = 16, cpHeight = 1, cpBlockBlob = ''00'', cpSeedHash = ''ff''\<rparr>,
     svExpectedResult = ''ab'', svShareDiff = 1000, svMinerAddr = ''m'', svWorkerID = ''w''\<rparr>"

definition sample_row :: QueuedVerification where
  "sample_row = \<lparr>qvID = 1, qvShareData = ''json'', qvConnectionID = 7, qvSubmittedAt = 100,
     qvStartedAt = None, qvCompletedAt = None, qvStatus = VPending, qvNodeUsed = None, qvVerifyDuration = None\<rparr>"

definition sample_taken :: QueuedVerification where
  "sample_taken = sample_row\<lparr>qvStatus := VProcessing, qvStartedAt := Some 200\<rparr>"

definition sample_env :: "nat settle_env" where
  "sample_env = \<lparr>seDial = (\<lambda>_. (5, None)), sePow = (\<lambda>c p. Inr ''ab''), seDuration = Second,
                 seNow = 300, seAlert = (300, 300)\<rparr>"

definition sample_queue :: "QueuedVerification \<Rightarrow> VerifyQueue" where
  "sample_queue r = \<lparr>vqRows = [r], vqNextID = 2, vqMetrics = [], vqStats = zero_stats\<rparr>"

definition sample_sys :: "QueuedVerification \<Rightarrow> (nat \<rightharpoonup> QueuedVerification) \<Rightarrow> nat vq_sys" where
  "sample_sys r held = \<lparr>vsQueue = sample_queue r, vsPool = sample_pool, vsHeld = held\<rparr>"

abbreviation sample_reachable :: "nat vq_sys \<Rightarrow> nat vq_sys \<Rightarrow> bool" where
  "sample_reachable \<equiv>
     vq_reachable (\<lambda>_. ''json'') (\<lambda>_. Some sample_share) (sort_key qvSubmittedAt) (\<lambda>c p. Inr ''ab'')"

lemma sample_order: "orders_by qvSubmittedAt (sort_key qvSubmittedAt)"
  by (simp add: orders_by_def)

lemma sample_submitted: "sample_reachable (vq_start sample_pool) (sample_sys sample_row Map.empty)"
proof -
  have "Submit (\<lambda>_. ''json'') 100 sample_share NewVerifyQueue = (Ok (), sample_queue sample_row)"
    by (simp add: Submit_def bindable_def sample_share_def NewVerifyQueue_def sample_queue_def sample_row_def)
  then have "vq_step (\<lambda>_. ''json'') (\<lambda>_. Some sample_share) (sort_key qvSubmittedAt) (\<lambda>c p. Inr ''ab'')
      (vq_start sample_pool) ((vq_start sample_pool)\<lparr>vsQueue := sample_queue sample_row\<rparr>)"
    by (intro vq_step.submits) (simp add: vq_start_def)
  then show ?thesis
    by (intro vq_reachable.further [OF vq_reachable.here]) (simp add: vq_start_def sample_sys_def)
qed

lemma sample_claimed: "sample_reachable (vq_start sample_pool) (sample_sys sample_taken [0 \<mapsto> sample_row])"
proof -
  have "claim (sort_key qvSubmittedAt) 200 (sample_queue sample_row) = (Some sample_row, sample_queue sample_taken)"
    by (simp add: claim_def pending_rows_def sample_queue_def sample_row_def sample_taken_def update_row_def)
  then have "vq_step (\<lambda>_. ''json'') (\<lambda>_. Some sample_share) (sort_key qvSubmittedAt) (\<lambda>c p. Inr ''ab'')
      (sample_sys sample_row Map.empty)
      ((sample_sys sample_row Map.empty)\<lparr>vsQueue := sample_queue sample_taken,
         vsHeld := (vsHeld (sample_sys sample_row Map.empty))(0 \<mapsto> sample_row)\<rparr>)"
    by (intro vq_step.claims [where now = 200]) (simp_all add: sample_sys_def)
  then show ?thesis
    by (intro vq_reachable.further [OF sample_submitted]) (simp add: sample_sys_def)
qed

lemma sample_restarted: "sample_reachable (vq_start sample_pool) (sample_sys sample_taken Map.empty)"
proof -
  have "vq_step (\<lambda>_. ''json'') (\<lambda>_. Some sample_share) (sort_key qvSubmittedAt) (\<lambda>c p. Inr ''ab'')
      (sample_sys sample_taken [0 \<mapsto> sample_row])
      ((sample_sys sample_taken [0 \<mapsto> sample_row])
         \<lparr>vsQueue := (vsQueue (sample_sys sample_taken [0 \<mapsto> sample_row]))\<lparr>vqStats := zero_stats\<rparr>,
          vsPool := sample_pool, vsHeld := Map.empty\<rparr>)"
    by (rule vq_step.restarts)
  then show ?thesis
    by (intro vq_reachable.further [OF sample_claimed]) (simp add: sample_sys_def sample_queue_def)
qed

lemma sample_verified:
  "settle (\<lambda>_. Some sample_share) sample_env sample_row (sample_pool, sample_queue sample_taken) =
     (sample_pool\<lparr>cur := 1\<rparr>,
      (sample_queue (verify_row 300 Second sample_taken))\<lparr>vqStats := updateStats Second zero_stats\<rparr>)"
  by (simp add: settle_def sample_share_def sample_env_def ExecuteWithRetry_def sample_pool_def Get_def
      time_Sub_def Second_def calc_pow_fn_def alertThreshold_def markVerified_def update_row_def
      sample_queue_def verify_row_def sample_taken_def sample_row_def)

lemma verify_queue_safe_witness:
  "\<exists>s. sample_reachable (vq_start sample_pool) s \<and>
       (\<exists>r \<in> set (vqRows (vsQueue s)). qvStatus r = VVerified \<and>
          (\<exists>share (c :: nat). Some sample_share = Some share \<and>
             (Inr ''ab'' :: string + string) = Inr (svExpectedResult share)))"
proof -
  let ?s = "(sample_sys sample_taken [0 \<mapsto> sample_row])
      \<lparr>vsQueue := (sample_queue (verify_row 300 Second sample_taken))\<lparr>vqStats := updateStats Second zero_stats\<rparr>,
       vsPool := sample_pool\<lparr>cur := 1\<rparr>, vsHeld := (vsHeld (sample_sys sample_taken [0 \<mapsto> sample_row]))(0 := None)\<rparr>"
  have "vq_step (\<lambda>_. ''json'') (\<lambda>_. Some sample_share) (sort_key qvSubmittedAt) (\<lambda>c p. Inr ''ab'')
      (sample_sys sample_taken [0 \<mapsto> sample_row]) ?s"
    by (rule vq_step.settles [where env = sample_env and item = sample_row])
      (simp_all add: sample_sys_def sample_verified, simp add: sample_env_def)
  then have r: "sample_reachable (vq_start sample_pool) ?s" by (rule vq_reachable.further [OF sample_claimed])
  have "\<forall>r \<in> set (vqRows (vsQueue ?s)). qvStatus r = VVerified \<longrightarrow>
          (\<exists>share (c :: nat). Some sample_share = Some share \<and>
             (Inr ''ab'' :: string + string) = Inr (svExpectedResult share))"
    using verify_queue_safe [OF r sample_order] by blast
  then show ?thesis
    by (intro exI [of _ ?s] conjI r bexI [of _ "verify_row 300 Second sample_taken"]) (simp_all add: sample_queue_def)
qed

lemma interrupted_row_is_lost_witness:
  "sample_taken \<in> set (vqRows (metrics_tick 9 9000000000000 (sample_queue sample_taken))) \<and> qvStatus sample_taken = VProcessing"
proof -
  have "vq_step (\<lambda>_. ''json'') (\<lambda>_. Some sample_share) (sort_key qvSubmittedAt) (\<lambda>c p. Inr ''ab'')
      (sample_sys sample_taken Map.empty)
      ((sample_sys sample_taken Map.empty)\<lparr>vsQueue := metrics_tick 9 9000000000000 (vsQueue (sample_sys sample_taken Map.empty))\<rparr>)"
    by (rule vq_step.metrics)
  note reach = vq_reachable.further [OF vq_reachable.here this]
  have "sample_taken \<in> set (vqRows (vsQueue (sample_sys sample_taken Map.empty)))" "qvStatus sample_taken = VProcessing"
    "\<forall>w item. vsHeld (sample_sys sample_taken Map.empty) w = Some item \<longrightarrow> qvID item \<noteq> qvID sample_taken"
    by (simp_all add: sample_sys_def sample_queue_def sample_taken_def)
  from interrupted_row_is_lost [OF sample_restarted sample_order this reach] show ?thesis
    by (simp add: sample_sys_def)
qed

lemma worker_drains_queue_witness:
  "list_all2 drained [sample_row]
     (vqRows (snd (run (\<lambda>st (now, env). processNext (\<lambda>_. None) (sort_key qvSubmittedAt) now env st)
                       (sample_pool, sample_queue sample_row) [(200, sample_env)])))"
  using worker_drains_queue
    [of "sort_key qvSubmittedAt" "sample_queue sample_row" "[(200, sample_env)]" "\<lambda>_. None" sample_pool]
  by (simp add: sample_order sample_queue_def pending_rows_def)

end
