(* ===== verification/Slave_Link.thy ===== *)
theory Slave_Link
  imports Serializer Go_Text
begin

text \<open>
  The link between a slave and the master. Slave side: the share cache and its flush
  (\<^verbatim>\<open>src/slave/slaveQueue.go\<close>) and the packets (\<^verbatim>\<open>src/slave/slaveClient.go\<close>). Master side:
  the framing loop and the packet decoder (\<^verbatim>\<open>src/cmd/master/handler.go\<close>,
  \<^verbatim>\<open>src/cmd/master/crypto.go\<close>).

  XChaCha20-Poly1305 is a third-party package: its \<open>Seal\<close> and \<open>Open\<close> under the shared key are
  the parameters \<open>seal nonce plaintext\<close> and \<open>opn nonce ciphertext\<close>; \<open>aead_ok\<close> is what its
  documentation promises of them. The random nonces are arguments.
\<close>

section \<open>The share cache\<close>

record ShareCache =
  NumShares :: u32
  TotalDiff :: u64
  WorkerID :: string

type_synonym cache = "string \<rightharpoonup> ShareCache"

definition zero_cache :: ShareCache where
  "zero_cache = \<lparr>NumShares = 0, TotalDiff = 0, WorkerID = ''''\<rparr>"

definition cache_key :: "string \<Rightarrow> string \<Rightarrow> string" where
  "cache_key wallet workerID = wallet @ '':'' @ workerID"

definition cacheShareWithWorker :: "cache \<Rightarrow> string \<Rightarrow> string \<Rightarrow> u64 \<Rightarrow> cache" where
  "cacheShareWithWorker c wallet workerID diff =
     (let key = cache_key wallet workerID;
          x = map_get zero_cache c key;
          x = x\<lparr>NumShares := NumShares x + 1\<rparr>;
          x = x\<lparr>TotalDiff := TotalDiff x + diff\<rparr>;
          x = x\<lparr>WorkerID := workerID\<rparr>
      in c(key \<mapsto> x))"

definition cacheShare :: "cache \<Rightarrow> string \<Rightarrow> u64 \<Rightarrow> cache" where
  "cacheShare c wallet diff = cacheShareWithWorker c wallet ''legacy'' diff"

section \<open>Packets of the slave\<close>

definition cached_share_packet :: "u32 \<Rightarrow> string \<Rightarrow> string \<Rightarrow> u64 \<Rightarrow> byte list" where
  "cached_share_packet cnt wallet workerID diff =
     (let s = \<lparr>sData = [0]\<rparr>;
          s = AddUvarint s (ucast cnt);
          s = AddString s wallet;
          s = AddString s workerID;
          s = AddUvarint s diff
      in sData s)"

definition block_found_packet :: "u64 \<Rightarrow> u64 \<Rightarrow> byte list \<Rightarrow> byte list go" where
  "block_found_packet height reward hash =
     (let s = \<lparr>sData = [1]\<rparr>;
          s = AddUvarint s height;
          s = AddUvarint s reward
      in go_map sData (AddFixedByteArray s hash 32))"

definition stats_packet :: "u64 \<Rightarrow> byte list" where
  "stats_packet nrMiners = sData (AddUvarint \<lparr>sData = [2]\<rparr> nrMiners)"

definition share_found_packet :: "u64 \<Rightarrow> byte list" where
  "share_found_packet height = sData (AddUvarint \<lparr>sData = [3]\<rparr> height)"

section \<open>Encryption and framing\<close>

definition NonceSize :: nat where
  "NonceSize = 24"

definition Overhead :: nat where
  "Overhead = 40"

definition aead_ok :: "(byte list \<Rightarrow> byte list \<Rightarrow> byte list) \<Rightarrow> (byte list \<Rightarrow> byte list \<Rightarrow> byte list option) \<Rightarrow> bool" where
  "aead_ok seal opn =
     ((\<forall>n m. length n = NonceSize \<longrightarrow> opn n (seal n m) = Some m) \<and>
      (\<forall>n m. length (seal n m) = length m + 16))"

text \<open>\<open>Seal(nonce, nonce, msg, nil)\<close> appends the ciphertext to the nonce.\<close>

definition Encrypt :: "(byte list \<Rightarrow> byte list \<Rightarrow> byte list) \<Rightarrow> byte list \<Rightarrow> byte list \<Rightarrow> byte list" where
  "Encrypt seal nonce msg = nonce @ seal nonce msg"

datatype decrypt_error = CyphertextTooShort | AuthenticationFailed

text \<open>The master's \<open>Decrypt\<close> returns an error on a short input where the slave's panics.\<close>

definition Decrypt ::
  "(byte list \<Rightarrow> byte list \<Rightarrow> byte list option) \<Rightarrow> byte list \<Rightarrow> decrypt_error + byte list" where
  "Decrypt opn msg =
     (if length msg < NonceSize then Inl CyphertextTooShort
      else case opn (take NonceSize msg) (drop NonceSize msg) of
             None \<Rightarrow> Inl AuthenticationFailed
           | Some m \<Rightarrow> Inr m)"

definition slave_Decrypt ::
  "(byte list \<Rightarrow> byte list \<Rightarrow> byte list option) \<Rightarrow> byte list \<Rightarrow> (decrypt_error + byte list) go" where
  "slave_Decrypt opn msg =
     (if length msg < NonceSize then Panic (Explicit ''ciphertext too short'')
      else Ret (Decrypt opn msg))"

text \<open>\<open>sendToConn\<close>: the bytes written to a connection, none when there is no connection.\<close>

definition sendToConn ::
  "(byte list \<Rightarrow> byte list \<Rightarrow> byte list) \<Rightarrow> bool \<Rightarrow> byte list \<Rightarrow> byte list \<Rightarrow> byte list \<Rightarrow> byte list" where
  "sendToConn seal isUp n1 n2 data =
     (if \<not> isUp then []
      else let dataLenBin = le_bytes 2 (of_nat (length data) :: u16)
           in Encrypt seal n1 dataLenBin @ Encrypt seal n2 data)"

text \<open>
  The receiving loop of \<open>HandleSlave\<close> on the bytes that arrive: the messages handed to
  \<open>OnMessage\<close>, in order, and why the loop ended. \<open>io.ReadFull\<close> fails when the stream ends
  inside a frame.
\<close>

datatype recv_end = StreamEnded | BadFrame decrypt_error | LengthPanic

function HandleSlave_loop ::
  "(byte list \<Rightarrow> byte list \<Rightarrow> byte list option) \<Rightarrow> byte list \<Rightarrow> byte list list \<times> recv_end" where
  "HandleSlave_loop opn stream =
     (if length stream < 2 + Overhead then ([], StreamEnded)
      else case Decrypt opn (take (2 + Overhead) stream) of
        Inl e \<Rightarrow> ([], BadFrame e)
      | Inr lenBuf \<Rightarrow>
          (if length lenBuf < 2 then ([], LengthPanic)
           else let len = nat (uint (lenBuf ! 0) OR push_bit 8 (uint (lenBuf ! 1)));
                    stream' = drop (2 + Overhead) stream in
             if length stream' < len + Overhead then ([], StreamEnded)
             else case Decrypt opn (take (len + Overhead) stream') of
               Inl e \<Rightarrow> ([], BadFrame e)
             | Inr msg \<Rightarrow>
                 (case HandleSlave_loop opn (drop (len + Overhead) stream') of
                    (ms, r) \<Rightarrow> (msg # ms, r))))"
  by pat_completeness auto
termination
  by (relation "measure (\<lambda>(opn, stream). length stream)") (auto simp: Overhead_def)

declare HandleSlave_loop.simps [simp del]

section \<open>Flushing the cache\<close>

text \<open>The wallet of a cache key: everything before its last colon.\<close>

definition key_wallet :: "string \<Rightarrow> string" where
  "key_wallet key =
     (let lastColon = int (length key) - 1 in
      if 0 < lastColon then
        (case last_index (CHR '':'') key of Some i \<Rightarrow> take i key | None \<Rightarrow> key)
      else key)"

text \<open>
  One round of the flush loop, for the order \<open>keys\<close> in which the map is iterated: the packets
  sent and the new cache. Without a connection nothing happens.
\<close>

definition flush_cache :: "bool \<Rightarrow> cache \<Rightarrow> string list \<Rightarrow> byte list list \<times> cache" where
  "flush_cache isUp c keys =
     (if isUp then
        (map (\<lambda>key. let v = map_get zero_cache c key in
                 cached_share_packet (NumShares v) (key_wallet key) (WorkerID v) (TotalDiff v)) keys,
         Map.empty)
      else ([], c))"

text \<open>The bytes one round writes to the connection, with the nonces of its messages.\<close>

definition flush_stream :: "(byte list \<Rightarrow> byte list \<Rightarrow> byte list) \<Rightarrow> (byte list \<times> byte list) list \<Rightarrow> byte list list \<Rightarrow> byte list" where
  "flush_stream seal nonces packets = concat (map2 (\<lambda>(n1, n2) m. sendToConn seal True n1 n2 m) nonces packets)"

section \<open>The packet decoder of the master\<close>

text \<open>What \<open>OnMessage\<close> does with a message: the handler it calls, or what it logs.\<close>

datatype master_call =
    CallShareFound string u64 u32 string
  | CallBlockFound u64 u64 string
  | SetNumConns u32
  | CallP2PoolShareFound u64
  | LogDeserError deser_error
  | LogUnexpectedPacket
  | LogUnknownPacket byte

definition OnMessage_call :: "bool \<Rightarrow> byte list \<Rightarrow> master_call go" where
  "OnMessage_call useP2Pool msg =
     (case ReadUint8 \<lparr>Data = msg, Error = None\<rparr> of (packet, d) \<Rightarrow>
      if packet = 0 then
        (case ReadUvarint d of (n, d) \<Rightarrow>
         go_bind (ReadString d) (\<lambda>(wallet, d).
         go_bind (ReadString d) (\<lambda>(workerID, d).
         case ReadUvarint d of (diff, d) \<Rightarrow>
         case Error d of
           Some e \<Rightarrow> Ret (LogDeserError e)
         | None \<Rightarrow> Ret (CallShareFound wallet diff (ucast n) workerID))))
      else if packet = 1 then
        (if useP2Pool then Ret LogUnexpectedPacket
         else case ReadUvarint d of (height, d) \<Rightarrow>
              case ReadUvarint d of (reward, d) \<Rightarrow>
              case ReadFixedByteArray d 32 of (hash, d) \<Rightarrow>
              case Error d of
                Some e \<Rightarrow> Ret (LogDeserError e)
              | None \<Rightarrow> Ret (CallBlockFound height reward (hex_EncodeToString hash)))
      else if packet = 2 then
        (case ReadUvarint d of (conns, d) \<Rightarrow>
         case Error d of
           Some e \<Rightarrow> Ret (LogDeserError e)
         | None \<Rightarrow> Ret (SetNumConns (ucast conns)))
      else if packet = 3 then
        (if \<not> useP2Pool then Ret LogUnexpectedPacket
         else case ReadUvarint d of (height, d) \<Rightarrow> Ret (CallP2PoolShareFound height))
      else Ret (LogUnknownPacket packet))"

text \<open>\<open>numConns\<close>: the connection counts the slaves report, summed with wrap-around.\<close>

definition GetTotalWorkers :: "(u64 \<times> u32) list \<Rightarrow> u32" where
  "GetTotalWorkers numConns = foldl (\<lambda>total (_, v). total + v) 0 numConns"


section \<open>Lemmas\<close>

lemma ucast_ucast_u32 [simp]: "ucast (ucast (n :: u32) :: u64) = n"
  by (rule bit_word_eqI) (auto simp: bit_simps)

lemma key_wallet_key:
  assumes "CHR '':'' \<notin> set wk" "w \<noteq> []"
  shows "key_wallet (cache_key w wk) = w"
proof -
  have "0 < int (length w) + int (length wk)" using assms(2) by (cases w) auto
  then show ?thesis
    using last_index_append [OF assms(1), of w] by (simp add: key_wallet_def cache_key_def Let_def)
qed

lemma cache_key_inj:
  assumes "CHR '':'' \<notin> set wk" "CHR '':'' \<notin> set wk'"
  shows "cache_key w wk = cache_key w' wk' \<longleftrightarrow> w = w' \<and> wk = wk'"
proof
  assume e: "cache_key w wk = cache_key w' wk'"
  have "last_index (CHR '':'') (cache_key w wk) = Some (length w)"
    "last_index (CHR '':'') (cache_key w' wk') = Some (length w')"
    using assms by (simp_all add: cache_key_def last_index_append)
  with e have "length w = length w'" by simp
  with e show "w = w' \<and> wk = wk'" by (simp add: cache_key_def)
qed simp

lemma packet_share:
  assumes "length w < 9223372036854775808" "length wk < 9223372036854775808"
  shows "OnMessage_call p2 (cached_share_packet n w wk diff) = Ret (CallShareFound w diff n wk)"
  using assms by (simp add: OnMessage_call_def cached_share_packet_def codec_simps)

lemma length_cached_share_packet:
  "length (cached_share_packet n w wk diff) \<le> length w + length wk + 41"
proof -
  have "length (cached_share_packet n w wk diff) = 1 + length (put_uvarint (ucast n)) + length (put_uvarint (of_nat (length w)))
      + length w + length (put_uvarint (of_nat (length wk))) + length wk + length (put_uvarint diff)"
    by (simp add: cached_share_packet_def codec_simps put_string_def put_bytes_def)
  with length_put_uvarint [of "ucast n"] length_put_uvarint [of "of_nat (length w)"]
    length_put_uvarint [of "of_nat (length wk)"] length_put_uvarint [of diff]
  show ?thesis by linarith
qed

interpretation heightReward: codec_pair put_uvarint "\<lambda>d. Ret (ReadUvarint d)" "\<lambda>_. True"
    put_uvarint "\<lambda>d. Ret (ReadUvarint d)" "\<lambda>_. True"
  by unfold_locales

text \<open>The header of a block packet is two varints read in a row.\<close>

lemma block_header_read:
  "get_pair (\<lambda>d. Ret (ReadUvarint d)) (\<lambda>d. Ret (ReadUvarint d))
     \<lparr>Data = put_uvarint h @ put_uvarint r @ rest, Error = None\<rparr>
   = Ret ((h, r), \<lparr>Data = rest, Error = None\<rparr>)"
  using heightReward.pair.get_put [of "(h, r)" rest] by simp

lemma packet_block:
  assumes "length hash = 32"
  shows "go_bind (block_found_packet h r hash) (OnMessage_call False)
    = Ret (CallBlockFound h r (hex_EncodeToString hash))"
proof -
  have "block_found_packet h r hash = Ret (1 # put_uvarint h @ put_uvarint r @ hash)"
    using assms by (simp add: block_found_packet_def AddFixedByteArray_def codec_simps)
  then show ?thesis
    using assms block_header_read [of h r hash] ReadFixedByteArray_put [of hash 32 "[]"]
    by (simp add: OnMessage_call_def codec_simps get_pair_def split: prod.splits)
qed

section \<open>Framing\<close>

lemma Decrypt_Encrypt:
  assumes "aead_ok seal opn" "length n = NonceSize"
  shows "Decrypt opn (Encrypt seal n m) = Inr m"
  using assms by (simp add: Decrypt_def Encrypt_def aead_ok_def)

lemma length_Encrypt:
  assumes "aead_ok seal opn" "length n = NonceSize"
  shows "length (Encrypt seal n m) = length m + Overhead"
  using assms by (simp add: Encrypt_def aead_ok_def NonceSize_def Overhead_def)

lemma le_bytes_2_len:
  assumes "k < 65536"
  shows "nat (uint (le_bytes 2 (of_nat k :: u16) ! 0) OR push_bit 8 (uint (le_bytes 2 (of_nat k :: u16) ! Suc 0))) = k"
proof -
  let ?w = "of_nat k :: u16"
  have k: "k = unat ?w" using assms by (simp add: unat_of_nat)
  have b: "le_bytes 2 ?w ! 0 = ucast ?w" "le_bytes 2 ?w ! 1 = ucast (drop_bit 8 ?w)"
    by (simp_all add: le_bytes_def upt_conv_Cons)
  have "uint (le_bytes 2 ?w ! 0) OR push_bit 8 (uint (le_bytes 2 ?w ! 1)) = uint ?w"
    unfolding b
    by (rule bit_eqI) (auto simp: bit_simps bit_uint_iff dest: bit_imp_le_length)
  then show ?thesis using k by simp
qed

lemma frame_read:
  assumes "aead_ok seal opn" "length n1 = NonceSize" "length n2 = NonceSize" "length m < 65536"
  shows "HandleSlave_loop opn (sendToConn seal True n1 n2 m @ rest)
    = (m # fst (HandleSlave_loop opn rest), snd (HandleSlave_loop opn rest))"
proof -
  let ?lb = "le_bytes 2 (of_nat (length m) :: u16)"
  have l1: "length (Encrypt seal n1 ?lb) = 2 + Overhead"
    and l2: "length (Encrypt seal n2 m) = length m + Overhead"
    using assms by (simp_all add: length_Encrypt)
  have s: "sendToConn seal True n1 n2 m @ rest = Encrypt seal n1 ?lb @ Encrypt seal n2 m @ rest"
    by (simp add: sendToConn_def)
  show ?thesis
    unfolding s
    by (subst HandleSlave_loop.simps)
      (simp add: l1 l2 Decrypt_Encrypt [OF assms(1,2)] Decrypt_Encrypt [OF assms(1,3)]
        le_bytes_2_len [OF assms(4)] Let_def split: prod.splits)
qed


lemma frames_read:
  assumes "aead_ok seal opn"
    and "\<forall>(n1, n2, m) \<in> set frames. length n1 = NonceSize \<and> length n2 = NonceSize \<and> length m < 65536"
  shows "HandleSlave_loop opn (concat (map (\<lambda>(n1, n2, m). sendToConn seal True n1 n2 m) frames))
    = (map (\<lambda>(n1, n2, m). m) frames, StreamEnded)"
  using assms(2)
proof (induction frames)
  case Nil
  show ?case by (simp add: HandleSlave_loop.simps Overhead_def)
next
  case (Cons f frames)
  obtain n1 n2 m where f: "f = (n1, n2, m)" by (cases f)
  show ?case using Cons frame_read [OF assms(1), of n1 n2 m] by (simp add: f)
qed

text \<open>
  C7: Whatever messages of at most 65535 bytes the slave sends over a connection, the
  receiving loop of the master hands exactly these messages, in order, to its packet
  handler, and ends only because the stream ended, for any AEAD that decrypts what it sealed
  and adds 16 bytes.
\<close>
theorem frames_delivered_in_order:
  assumes "aead_ok seal opn"
    and "\<forall>(n1, n2, m) \<in> set frames. length n1 = NonceSize \<and> length n2 = NonceSize \<and> length m < 65536"
  shows "HandleSlave_loop opn (concat (map (\<lambda>(n1, n2, m). sendToConn seal True n1 n2 m) frames))
    = (map (\<lambda>(n1, n2, m). m) frames, StreamEnded)"
  using assms by (rule frames_read)

text \<open>A toy cipher that keeps the text and appends a fixed tag satisfies the AEAD contract.\<close>

lemma frames_delivered_in_order_witness:
  "HandleSlave_loop (\<lambda>n ct. Some (take (length ct - 16) ct))
     (sendToConn (\<lambda>n m. m @ replicate 16 0) True (replicate 24 1) (replicate 24 2) [3, 7]) = ([[3, 7]], StreamEnded)"
proof -
  have "aead_ok (\<lambda>n m. m @ replicate 16 0) (\<lambda>n ct. Some (take (length ct - 16) ct))"
    by (simp add: aead_ok_def)
  from frames_delivered_in_order [OF this, of "[(replicate 24 1, replicate 24 2, [3, 7])]"]
  show ?thesis by (simp add: NonceSize_def)
qed

section \<open>What the cache accumulates\<close>

type_synonym share_event = "string \<times> string \<times> u64"

definition cache_step :: "cache \<Rightarrow> share_event \<Rightarrow> cache" where
  "cache_step c e = (case e of (wallet, workerID, diff) \<Rightarrow> cacheShareWithWorker c wallet workerID diff)"

definition event_key :: "share_event \<Rightarrow> string" where
  "event_key e = (case e of (wallet, workerID, _) \<Rightarrow> cache_key wallet workerID)"

definition event_diff :: "share_event \<Rightarrow> u64" where
  "event_diff e = (case e of (_, _, diff) \<Rightarrow> diff)"

text \<open>A login is read from a line of at most \<open>MAX_REQUEST_SIZE\<close> bytes, so wallets and worker names are far
  shorter than \<open>2 ^ 62\<close> together.\<close>

definition event_short :: "share_event \<Rightarrow> bool" where
  "event_short e = (length (fst e) + length (fst (snd e)) < 4611686018427387904)"

text \<open>Worker names without a colon, and wallets that are not empty.\<close>

definition colon_free :: "share_event \<Rightarrow> bool" where
  "colon_free e = (fst e \<noteq> [] \<and> CHR '':'' \<notin> set (fst (snd e)))"

lemma cache_step_entry:
  "cache_step c e k =
     (if event_key e = k
      then Some \<lparr>NumShares = NumShares (map_get zero_cache c k) + 1,
        TotalDiff = TotalDiff (map_get zero_cache c k) + event_diff e, WorkerID = fst (snd e)\<rparr>
      else c k)"
  by (cases "map_get zero_cache c k")
    (auto simp: cache_step_def event_key_def event_diff_def cacheShareWithWorker_def Let_def split: prod.splits)

lemma map_get_cache_step:
  "map_get zero_cache (cache_step c e) k =
     (if event_key e = k
      then \<lparr>NumShares = NumShares (map_get zero_cache c k) + 1,
        TotalDiff = TotalDiff (map_get zero_cache c k) + event_diff e, WorkerID = fst (snd e)\<rparr>
      else map_get zero_cache c k)"
  by (simp add: map_get_def [of _ "cache_step c e"] cache_step_entry) (simp add: map_get_def)

definition key_events :: "share_event list \<Rightarrow> string \<Rightarrow> share_event list" where
  "key_events es k = filter (\<lambda>e. event_key e = k) es"

text \<open>What a flush reports for a cache key: the wallet cut from the key, the worker of the last share under
  the key, the total difficulty and the number of shares.\<close>

definition reported :: "share_event list \<Rightarrow> string \<Rightarrow> string \<times> string \<times> u64 \<times> nat" where
  "reported es k = (key_wallet k, fst (snd (last (key_events es k))), sum_list (map event_diff (key_events es k)),
     length (key_events es k))"

lemma cache_run_accounted:
  "map_get zero_cache (run cache_step Map.empty es) k =
     (if k \<in> event_key ` set es
      then \<lparr>NumShares = of_nat (length (key_events es k)), TotalDiff = sum_list (map event_diff (key_events es k)),
            WorkerID = fst (snd (last (key_events es k)))\<rparr>
      else zero_cache)"
proof (induction es rule: rev_induct)
  case (snoc e es)
  have "key_events es k = []" if "k \<notin> event_key ` set es" using that by (auto simp: key_events_def filter_empty_conv)
  with snoc show ?case
    by (cases "event_key e = k"; cases "k \<in> event_key ` set es")
      (auto simp: map_get_cache_step key_events_def, auto simp: zero_cache_def)
qed simp

lemma dom_cache_run: "dom (run cache_step Map.empty es) = event_key ` set es"
proof (induction es rule: rev_induct)
  case (snoc e es)
  then show ?case by (auto simp: dom_def cache_step_entry split: if_splits)
qed simp

lemma key_eventsD: "e \<in> set (key_events es k) \<Longrightarrow> e \<in> set es \<and> event_key e = k"
  by (simp add: key_events_def)

lemma last_key_event:
  assumes "k \<in> event_key ` set es"
  shows "last (key_events es k) \<in> set es" "event_key (last (key_events es k)) = k"
proof -
  have "key_events es k \<noteq> []" using assms by (auto simp: key_events_def filter_empty_conv)
  then have "last (key_events es k) \<in> set (key_events es k)" by (rule last_in_set)
  then show "last (key_events es k) \<in> set es" "event_key (last (key_events es k)) = k"
    using key_eventsD by blast+
qed

lemma length_key_wallet: "length (key_wallet k) \<le> length k"
  by (auto simp: key_wallet_def Let_def split: option.split)

text \<open>The wallet of a packet is the wallet of the share exactly when the worker name has no colon.\<close>

lemma key_wallet_right:
  assumes "w \<noteq> []"
  shows "key_wallet (cache_key w wk) = w \<longleftrightarrow> CHR '':'' \<notin> set wk"
proof
  assume r: "key_wallet (cache_key w wk) = w"
  show "CHR '':'' \<notin> set wk"
  proof
    assume "CHR '':'' \<in> set wk"
    then obtain a b where wk: "wk = a @ CHR '':'' # b" "CHR '':'' \<notin> set b" by (meson split_list_last)
    have "cache_key w wk = cache_key (w @ CHR '':'' # a) b" by (simp add: cache_key_def wk(1))
    then have "key_wallet (cache_key w wk) = w @ CHR '':'' # a"
      using key_wallet_key [OF wk(2), of "w @ CHR '':'' # a"] by simp
    with r show False by simp
  qed
qed (use key_wallet_key assms in blast)

text \<open>The packets a flush sends, for every cache.\<close>

lemma flush_packets:
  assumes "range_order (run cache_step Map.empty es) keys"
  shows "fst (flush_cache True (run cache_step Map.empty es) keys)
    = map (\<lambda>k. case reported es k of (w, wk, d, n) \<Rightarrow> cached_share_packet (of_nat n) w wk d) keys"
proof -
  have "k \<in> event_key ` set es" if "k \<in> set keys" for k
    using assms that by (simp add: range_order_def dom_cache_run)
  then show ?thesis by (simp add: flush_cache_def cache_run_accounted reported_def Let_def)
qed

lemma reported_lengths:
  assumes "\<forall>e \<in> set es. length (fst e) + length (fst (snd e)) < b" "k \<in> event_key ` set es" "reported es k = (w, wk, d, n)"
  shows "length w \<le> b" "length wk < b" "length w + length wk \<le> 2 * b"
proof -
  obtain e where e: "e = last (key_events es k)" "e \<in> set es" "event_key e = k" using last_key_event [OF assms(2)] by blast
  have "length k \<le> b" using e(2,3) assms(1) by (fastforce simp: event_key_def cache_key_def split: prod.splits)
  moreover have "w = key_wallet k" "wk = fst (snd e)" using assms(3) e(1) by (simp_all add: reported_def)
  moreover have "length wk < b" using e(2) assms(1) \<open>wk = fst (snd e)\<close> by fastforce
  ultimately show "length w \<le> b" "length wk < b" "length w + length wk \<le> 2 * b"
    using length_key_wallet [of k] by simp_all
qed

text \<open>The handler calls a flush causes, whatever the iteration order of the map.\<close>

lemma flush_calls:
  assumes "\<forall>e \<in> set es. event_short e" "range_order (run cache_step Map.empty es) keys"
  shows "map (OnMessage_call p2) (fst (flush_cache True (run cache_step Map.empty es) keys))
    = map (\<lambda>k. case reported es k of (w, wk, d, n) \<Rightarrow> Ret (CallShareFound w d (of_nat n) wk)) keys"
proof -
  have "OnMessage_call p2 (cached_share_packet (of_nat n) w wk d) = Ret (CallShareFound w d (of_nat n) wk)"
    if "k \<in> set keys" "reported es k = (w, wk, d, n)" for k w wk d n
  proof -
    have "k \<in> event_key ` set es" using assms(2) that(1) by (simp add: range_order_def dom_cache_run)
    from reported_lengths [OF assms(1) [unfolded event_short_def] this that(2)] show ?thesis
      by (intro packet_share) simp_all
  qed
  then show ?thesis unfolding flush_packets [OF assms(2)] by (auto split: prod.split)
qed

text \<open>Without colons the keys are as good as the pairs of wallet and worker.\<close>

lemma reported_pair:
  assumes "\<forall>e \<in> set es. colon_free e" "e \<in> set es"
  shows "reported es (event_key e) =
    (fst e, fst (snd e), sum_list (map event_diff (filter (\<lambda>e'. (fst e', fst (snd e')) = (fst e, fst (snd e))) es)),
     length (filter (\<lambda>e'. (fst e', fst (snd e')) = (fst e, fst (snd e))) es))"
proof -
  have key: "event_key e' = event_key e \<longleftrightarrow> (fst e', fst (snd e')) = (fst e, fst (snd e))" if "e' \<in> set es" for e'
  proof -
    obtain w wk d w' wk' d' where e: "e = (w, wk, d)" "e' = (w', wk', d')" by (metis prod.exhaust)
    then have "CHR '':'' \<notin> set wk" "CHR '':'' \<notin> set wk'" using assms that by (auto simp: colon_free_def)
    from cache_key_inj [OF this(2,1)] show ?thesis by (simp add: event_key_def e)
  qed
  then have k: "key_events es (event_key e) = filter (\<lambda>e'. (fst e', fst (snd e')) = (fst e, fst (snd e))) es"
    unfolding key_events_def by (intro filter_cong) auto
  have "event_key e \<in> event_key ` set es" using assms(2) by simp
  from last_key_event [OF this] key have "fst (snd (last (key_events es (event_key e)))) = fst (snd e)" by blast
  moreover have "key_wallet (event_key e) = fst e"
    using assms key_wallet_right [of "fst e" "fst (snd e)"] by (auto simp: event_key_def colon_free_def split: prod.splits)
  ultimately show ?thesis unfolding reported_def by (simp add: k)
qed

lemma flush_stream_read:
  assumes "aead_ok seal opn" "\<forall>(n1, n2) \<in> set nonces. length n1 = NonceSize \<and> length n2 = NonceSize"
    and "length nonces = length packets" "\<forall>m \<in> set packets. length m < 65536"
  shows "HandleSlave_loop opn (flush_stream seal nonces packets) = (packets, StreamEnded)"
proof -
  let ?frames = "map2 (\<lambda>(n1, n2) m. (n1, n2, m)) nonces packets"
  have "\<forall>(n1, n2, m) \<in> set ?frames. length n1 = NonceSize \<and> length n2 = NonceSize \<and> length m < 65536"
    using assms(2,4) by (fastforce dest: set_zip_leftD set_zip_rightD)
  note read = frames_read [OF assms(1) this]
  have "map (\<lambda>(n1, n2, m). m) ?frames = map snd (zip nonces packets)"
    by (simp add: case_prod_beta)
  also have "\<dots> = packets" using assms(3) by simp
  finally have m: "map (\<lambda>(n1, n2, m). m) ?frames = packets" .
  have "flush_stream seal nonces packets = concat (map (\<lambda>(n1, n2, m). sendToConn seal True n1 n2 m) ?frames)"
    unfolding flush_stream_def by (rule arg_cong [where f = concat]) auto
  with read m show ?thesis by simp
qed

lemma flush_packets_short:
  assumes "\<forall>e \<in> set es. length (fst e) + length (fst (snd e)) < 32000"
    and "range_order (run cache_step Map.empty es) keys"
    and "m \<in> set (fst (flush_cache True (run cache_step Map.empty es) keys))"
  shows "length m < 65536"
proof -
  obtain k w wk d n where k: "k \<in> set keys" "reported es k = (w, wk, d, n)" "m = cached_share_packet (of_nat n) w wk d"
    using assms(3) by (auto simp: flush_packets [OF assms(2)] split: prod.splits)
  have "k \<in> event_key ` set es" using k(1) assms(2) by (simp add: range_order_def dom_cache_run)
  from reported_lengths(3) [OF assms(1) this k(2)] length_cached_share_packet [of "of_nat n" w wk d]
  show ?thesis by (simp add: k(3))
qed

text \<open>
  C1: What a flush makes of the cached shares. After any sequence of cached shares, a flush over
  an established connection makes the master call its share handler exactly once for every key
  \<open>wallet:worker\<close> under which there were shares, with the number of these shares and the sum of
  their difficulties (modulo \<open>2 ^ 32\<close> and \<open>2 ^ 64\<close>), and leaves the cache empty, whatever the
  iteration order of the map. The wallet it reports is the right one exactly for the worker names
  without a colon; for the others it is cut wrongly. If no worker name has a colon, no two pairs of
  wallet and worker share a key, so that each pair is reported once, with the pair's own totals.
\<close>
theorem flush_delivers_totals:
  assumes "\<forall>e \<in> set es. event_short e"
    and "range_order (run cache_step Map.empty es) keys"
  shows "snd (flush_cache True (run cache_step Map.empty es) keys) = Map.empty \<and>
    distinct keys \<and> set keys = event_key ` set es \<and>
    map (OnMessage_call p2) (fst (flush_cache True (run cache_step Map.empty es) keys))
      = map (\<lambda>k. case reported es k of (w, wk, d, n) \<Rightarrow> Ret (CallShareFound w d (of_nat n) wk)) keys \<and>
    (\<forall>(w, wk, d) \<in> set es. w \<noteq> [] \<longrightarrow> (fst (reported es (cache_key w wk)) = w \<longleftrightarrow> CHR '':'' \<notin> set wk)) \<and>
    ((\<forall>e \<in> set es. colon_free e) \<longrightarrow>
      (\<forall>e \<in> set es. reported es (event_key e) =
        (fst e, fst (snd e), sum_list (map event_diff (filter (\<lambda>e'. (fst e', fst (snd e')) = (fst e, fst (snd e))) es)),
         length (filter (\<lambda>e'. (fst e', fst (snd e')) = (fst e, fst (snd e))) es))))"
proof -
  have "distinct keys" "set keys = event_key ` set es" using assms(2) by (simp_all add: range_order_def dom_cache_run)
  moreover have "snd (flush_cache True (run cache_step Map.empty es) keys) = Map.empty" by (simp add: flush_cache_def)
  moreover have "\<forall>(w, wk, d) \<in> set es. w \<noteq> [] \<longrightarrow> (fst (reported es (cache_key w wk)) = w \<longleftrightarrow> CHR '':'' \<notin> set wk)"
    using key_wallet_right by (auto simp: reported_def)
  ultimately show ?thesis using flush_calls [OF assms] reported_pair by blast
qed

lemma flush_delivers_totals_witness:
  "map (OnMessage_call False) (fst (flush_cache True
        (run cache_step Map.empty [(''w'', ''a'', 5), (''w'', ''a'', 7)]) [''w:a'']))
      = [Ret (CallShareFound ''w'' 12 2 ''a'')]"
proof -
  let ?es = "[(''w'', ''a'', 5), (''w'', ''a'', 7)] :: share_event list"
  have short: "\<forall>e \<in> set ?es. event_short e" and free: "\<forall>e \<in> set ?es. colon_free e"
    by (simp_all add: event_short_def colon_free_def)
  have r: "range_order (run cache_step Map.empty ?es) [''w:a'']"
    by (simp add: range_order_def dom_cache_run event_key_def cache_key_def del: run_simps)
  note f = flush_delivers_totals [OF short r, of False]
  have k: "event_key (''w'', ''a'', 5) = ''w:a''" by (simp add: event_key_def cache_key_def)
  from f free have "\<forall>e \<in> set ?es. reported ?es (event_key e) =
    (fst e, fst (snd e), sum_list (map event_diff (filter (\<lambda>e'. (fst e', fst (snd e')) = (fst e, fst (snd e))) ?es)),
     length (filter (\<lambda>e'. (fst e', fst (snd e')) = (fst e, fst (snd e))) ?es))" by blast
  from bspec [OF this, of "(''w'', ''a'', 5)"] have r: "reported ?es ''w:a'' = (''w'', ''a'', 12, 2)"
    unfolding k by (simp add: event_diff_def numeral_2_eq_2)
  from f have "map (OnMessage_call False) (fst (flush_cache True (run cache_step Map.empty ?es) [''w:a'']))
    = map (\<lambda>k. case reported ?es k of (w, wk, d, n) \<Rightarrow> Ret (CallShareFound w d (of_nat n) wk)) [''w:a'']" by blast
  then show ?thesis unfolding list.map r by simp
qed

text \<open>
  A worker name that contains a colon corrupts the wallet the master credits: the flush
  cuts the key at its last colon, so the shares of wallet \<open>w\<close> and worker \<open>a:b\<close> are reported
  for the wallet \<open>w:a\<close>, while the worker name is reported in full.
\<close>
theorem colon_worker_misattributed:
  assumes "CHR '':'' \<notin> set b" "length w + length a < 4611686018427387904" "length b < 4611686018427387904"
    and "c = cacheShareWithWorker Map.empty w (a @ '':'' @ b) diff"
  shows "map (OnMessage_call p2) (fst (flush_cache True c [cache_key w (a @ '':'' @ b)]))
    = [Ret (CallShareFound (w @ '':'' @ a) diff 1 (a @ '':'' @ b))]"
proof -
  let ?k = "cache_key w (a @ '':'' @ b)"
  have "?k = cache_key (w @ '':'' @ a) b" by (simp add: cache_key_def)
  then have "key_wallet ?k = w @ '':'' @ a" using key_wallet_key [OF assms(1), of "w @ '':'' @ a"] by simp
  then show ?thesis
    using assms(2,3) by (simp add: flush_cache_def assms(4) cacheShareWithWorker_def zero_cache_def Let_def packet_share)
qed

lemma colon_worker_misattributed_witness:
  "map (OnMessage_call False) (fst (flush_cache True
      (cacheShareWithWorker Map.empty ''W'' ''rig:1'' 5) [cache_key ''W'' ''rig:1'']))
    = [Ret (CallShareFound ''W:rig'' 5 1 ''rig:1'')]"
  using colon_worker_misattributed [of "''1''" "''W''" "''rig''" "cacheShareWithWorker Map.empty ''W'' ''rig:1'' 5" 5 False]
  by simp

text \<open>
  A block a slave announces reaches the master's block handler with its height, its reward
  and its hash in hexadecimal, if the hash has 32 bytes (otherwise building the packet
  panics on the slave), and is refused when the master runs on P2Pool.
\<close>
theorem block_packet_delivered:
  "block_found_packet h r hash =
     (if length hash = 32 then Ret (1 # put_uvarint h @ put_uvarint r @ hash)
      else Panic (Explicit ''invalid length'')) \<and>
   (length hash = 32 \<longrightarrow>
     OnMessage_call False (1 # put_uvarint h @ put_uvarint r @ hash)
       = Ret (CallBlockFound h r (hex_EncodeToString hash)) \<and>
     OnMessage_call True (1 # put_uvarint h @ put_uvarint r @ hash) = Ret LogUnexpectedPacket)"
proof -
  have "block_found_packet h r hash =
     (if length hash = 32 then Ret (1 # put_uvarint h @ put_uvarint r @ hash)
      else Panic (Explicit ''invalid length''))"
    by (simp add: block_found_packet_def AddFixedByteArray_def codec_simps)
  with packet_block [of hash h r] show ?thesis by (simp add: OnMessage_call_def codec_simps)
qed

lemma block_packet_delivered_witness:
  "OnMessage_call False (1 # put_uvarint 5 @ put_uvarint 7 @ replicate 32 9)
     = Ret (CallBlockFound 5 7 (hex_EncodeToString (replicate 32 9)))"
  using block_packet_delivered [of 5 7 "replicate 32 9"] by simp

end
