(* ===== verification/Submit.thy ===== *)
theory Submit
  imports Login Penalty Verify_Queue Slave_Link
begin

text \<open>
  The request loop of a miner's session (\<^verbatim>\<open>HandleConnection\<close> in \<^verbatim>\<open>src/cmd/slave/conn.go\<close>, from the
  first read after the login): keep-alives, the checks on a submitted share, its verification or
  queueing, the penalty box, the accounting towards the master, found blocks and the retargeting
  of the miner's difficulty.

  One request is one step on the state of the session and of the slave. The two locks that the
  handler takes, the connection's and that of the global chain information, are flags: a handler
  that finds one taken waits for ever (\<open>Stuck\<close>), because all other holders release it.
\<close>

section \<open>State\<close>

record Slave =
  slBox :: PenaltyBox
  slInfo :: Infos
  slInfoLocked :: bool
  slQueue :: VerifyQueue
  slCache :: cache
  slServer :: Server

record MinerSession =
  msConn :: Connection
  msLocked :: bool
  msAddress :: string
  msWorkerID :: string
  msClientIP :: string
  msJobDiff :: u64

text \<open>What the outside world answers to one request: clock readings of the penalty box and of the
  queue, the daemon's \<open>CalcPow\<close>, \<open>SubmitBlock\<close> (the block identifier) and header (its hash), two
  random bytes and two readings of the clock in milliseconds.\<close>

record submit_env =
  suPenaltyNow :: "instant \<times> instant"
  suQueueNow :: instant
  suCalcPow :: "CalcPowParameters \<Rightarrow> string + string"
  suSubmitBlock :: "string \<Rightarrow> string + string"
  suHeaderHash :: "u64 \<Rightarrow> string + string"
  suRandom :: "byte \<times> byte"
  suMillis :: "int \<times> int"

datatype request_end = Continue | SessionEnd | Stuck

record submit_out =
  soEnd :: request_end
  soReplies :: "reply list"
  soPackets :: "byte list list"
  soSession :: MinerSession
  soSlave :: Slave

section \<open>Fees\<close>

definition f32_of_f64 :: "f64 \<Rightarrow> f64" where
  "f32_of_f64 x = (case x of Fin q \<Rightarrow> f32_round q | _ \<Rightarrow> x)"

text \<open>\<open>util.RandomFloat\<close> on its random byte, in single precision.\<close>

definition RandomFloat :: "byte \<Rightarrow> f64" where
  "RandomFloat b = f32_round (of_nat (unat b) / 255)"

definition share_recipient :: "Config \<Rightarrow> bool \<Rightarrow> string \<Rightarrow> string \<Rightarrow> byte \<times> byte \<Rightarrow> string \<times> string" where
  "share_recipient cfg isTls addr worker r =
     (if f32_of_f64 (Fin 1 - SlaveFee (SlaveCfg cfg) div Fin 100) < RandomFloat (fst r) then (FeeAddress cfg, ''fee'')
      else if isTls \<or> f32_round (1 / 1000) < RandomFloat (snd r) then (addr, worker)
      else (FeeAddress cfg, ''fee''))"

section \<open>Retargeting\<close>

definition clamp_delta :: "u64 \<Rightarrow> int \<Rightarrow> int" where
  "clamp_delta target deltaT =
     (if deltaT < sint (target * 1000 div 4) then sint (target * 1000 div 4)
      else if deltaT > sint (target * 1000 * 4) then sint (target * 1000 * 4)
      else deltaT)"

definition retarget :: "u64 \<Rightarrow> u64 \<Rightarrow> int \<Rightarrow> f64 \<Rightarrow> f64" where
  "retarget target jobDiff deltaT nextDiff =
     (let estHr = f64_of_u64 jobDiff div f64_of_int (clamp_delta target deltaT);
          nd = estHr * Fin 1000 * f64_of_u64 target
      in (nd + Fin 6 * nextDiff) div Fin 7)"

definition i32 :: "int \<Rightarrow> int" where
  "i32 x = (x + 2 ^ 31) mod 2 ^ 32 - 2 ^ 31"

section \<open>Checks on a share\<close>

definition well_formed :: "JobResultRequest \<Rightarrow> bool" where
  "well_formed p = (\<not> (length (jrNonce p) \<noteq> 8 \<or> length (jrResult p) \<noteq> 64 \<or>
                       \<not> IsHex (jrNonce p) \<or> \<not> IsHex (jrResult p)))"

text \<open>The job the share is for: the last one, the current one, or none.\<close>

definition share_job :: "Connection \<Rightarrow> string \<Rightarrow> ConnJob option" where
  "share_job c jobID =
     (if jobID = cjJobID (LastJob c) \<and> jobID \<noteq> '''' then Some (LastJob c)
      else if jobID \<noteq> cjJobID (CurrentJob c) then None
      else Some (CurrentJob c))"

definition put_nonce :: "byte list \<Rightarrow> byte list \<Rightarrow> byte list go" where
  "put_nonce blob nonce =
     go_bind (go_update blob 39 (nonce ! 0)) (\<lambda>b.
     go_bind (go_update b 40 (nonce ! 1)) (\<lambda>b.
     go_bind (go_update b 41 (nonce ! 2)) (\<lambda>b.
     go_update b 42 (nonce ! 3))))"

definition hex_or_panic :: "string \<Rightarrow> string \<Rightarrow> byte list go" where
  "hex_or_panic s msg = (case hex_DecodeString s of Some b \<Rightarrow> Ret b | None \<Rightarrow> Panic (Explicit msg))"

definition error_reply :: "u64 \<Rightarrow> string \<Rightarrow> reply" where
  "error_reply i msg = ReplyError (Some i) (-1) msg"

section \<open>An accepted share\<close>

text \<open>\<open>SendBlockFound\<close> after a successful \<open>SubmitBlock\<close>: the packet, or nothing when the identifier
  could not be had; in that case the request ends without an answer.\<close>

definition block_report :: "submit_env \<Rightarrow> Infos \<Rightarrow> string \<Rightarrow> byte list option go" where
  "block_report env info blockId =
     (let send = (\<lambda>h. go_map Some (block_found_packet (infoFutureHeight info) (infoBlockReward info) h)) in
      if length blockId = 64 then
        (case hex_DecodeString blockId of None \<Rightarrow> Ret None | Some h \<Rightarrow> send h)
      else
        (case suHeaderHash env (infoFutureHeight info) of
           Inl e \<Rightarrow> Ret None
         | Inr hash \<Rightarrow> (case hex_DecodeString hash of None \<Rightarrow> Ret None | Some h \<Rightarrow> send h)))"

text \<open>The end of the loop body: retargeting and the answer.\<close>

definition finish_share ::
  "Config \<Rightarrow> submit_env \<Rightarrow> u64 \<Rightarrow> ConnJob \<Rightarrow> byte list list \<Rightarrow> MinerSession \<Rightarrow> Slave \<Rightarrow> submit_out" where
  "finish_share cfg env reqID job packets ms sl =
     (let c = msConn ms;
          c = c\<lparr>NextDiff := retarget (ShareTargetTime (SlaveCfg cfg)) (cjDiff job)
                             (fst (suMillis env) - LastShare c) (NextDiff c)\<rparr>;
          c = c\<lparr>LastShare := snd (suMillis env)\<rparr>
      in \<lparr>soEnd = Continue, soReplies = [ReplyStatus reqID ''OK''], soPackets = packets,
          soSession = ms\<lparr>msConn := c, msLocked := False\<rparr>, soSlave = sl\<rparr>)"

text \<open>From \<open>Share is valid!\<close> on.\<close>

definition accept_share ::
  "Config \<Rightarrow> submit_env \<Rightarrow> u64 \<Rightarrow> ConnJob \<Rightarrow> u64 \<Rightarrow> byte list \<Rightarrow> MinerSession \<Rightarrow> Slave \<Rightarrow> submit_out go" where
  "accept_share cfg env reqID job shareDiff blockBlob ms sl =
     go_bind (RecordShare (SlaveCfg cfg) (fst (suPenaltyNow env)) (snd (suPenaltyNow env))
                (connId (msConn ms)) (msClientIP ms) True (slBox sl)) (\<lambda>(accepted, box).
     let sl = sl\<lparr>slBox := box\<rparr> in
     if \<not> accepted then
       Ret \<lparr>soEnd = SessionEnd, soReplies = [], soPackets = [], soSession = ms\<lparr>msLocked := True\<rparr>,
            soSlave = sl\<lparr>slServer := Kick (connId (msConn ms)) (slServer sl)\<rparr>\<rparr>
     else
       let ms = ms\<lparr>msConn := (msConn ms)\<lparr>Score := i32 (Score (msConn ms) + 1)\<rparr>\<rparr>;
           (wallet, worker) = share_recipient cfg (connIsTls (msConn ms)) (msAddress ms) (msWorkerID ms) (suRandom env);
           sl = sl\<lparr>slCache := cacheShareWithWorker (slCache sl) wallet worker (cjDiff job)\<rparr>;
           packets = (if UseP2Pool cfg \<and> msJobDiff ms < shareDiff
                      then [share_found_packet (infoHeight (slInfo sl))] else [])
       in if \<not> UseP2Pool cfg \<and> infoDifficulty (slInfo sl) \<le> shareDiff then
            (case suSubmitBlock env (hex_EncodeToString blockBlob) of
               Inl e \<Rightarrow> Ret (finish_share cfg env reqID job packets ms sl)
             | Inr blockId \<Rightarrow>
                 go_map (\<lambda>report.
                     case report of
                       None \<Rightarrow> \<lparr>soEnd = Continue, soReplies = [], soPackets = packets,
                               soSession = ms\<lparr>msLocked := False\<rparr>, soSlave = sl\<rparr>
                     | Some p \<Rightarrow> finish_share cfg env reqID job (packets @ [p]) ms sl)
                   (block_report env (slInfo sl) blockId))
          else Ret (finish_share cfg env reqID job packets ms sl))"

section \<open>A submitted share\<close>

definition share_to_verify :: "MinerSession \<Rightarrow> Slave \<Rightarrow> byte list \<Rightarrow> string \<Rightarrow> u64 \<Rightarrow> ShareToVerify" where
  "share_to_verify ms sl hashingBlob result shareDiff =
     \<lparr>svConnectionID = connId (msConn ms),
      svCalcPowParams = \<lparr>cpMajorVersion = infoMajorVersion (slInfo sl), cpHeight = infoHeight (slInfo sl),
                         cpBlockBlob = hex_EncodeToString hashingBlob, cpSeedHash = infoSeedHash (slInfo sl)\<rparr>,
      svExpectedResult = result, svShareDiff = shareDiff, svMinerAddr = msAddress ms, svWorkerID = msWorkerID ms\<rparr>"

text \<open>An early answer: both locks are free again.\<close>

definition answer :: "MinerSession \<Rightarrow> Slave \<Rightarrow> reply \<Rightarrow> submit_out" where
  "answer ms sl r = \<lparr>soEnd = Continue, soReplies = [r], soPackets = [], soSession = ms\<lparr>msLocked := False\<rparr>, soSlave = sl\<rparr>"

text \<open>The part under the lock of \<open>CurInfo\<close>: \<open>Inl\<close> ends the request, \<open>Inr\<close> goes on with the slave's
  new state. A potential block is checked at once; any other share only goes to the queue, and an
  error of the queue is only logged.\<close>

definition verify_share ::
  "Config \<Rightarrow> (ShareToVerify \<Rightarrow> string) \<Rightarrow> submit_env \<Rightarrow> u64 \<Rightarrow> string \<Rightarrow> u64 \<Rightarrow> byte list \<Rightarrow> MinerSession \<Rightarrow> Slave
     \<Rightarrow> (submit_out + Slave) go" where
  "verify_share cfg marshal env reqID result shareDiff hashingBlob ms sl =
     (let share = share_to_verify ms sl hashingBlob result shareDiff in
      if infoDifficulty (slInfo sl) \<le> shareDiff then
        (case suCalcPow env (svCalcPowParams share) of
           Inl e \<Rightarrow> Ret (Inl (answer ms sl (error_reply reqID ''internal server error'')))
         | Inr calcPow \<Rightarrow>
             if calcPow \<noteq> result then
               go_map (\<lambda>(accepted, box).
                   let sl = sl\<lparr>slBox := box\<rparr> in
                   Inl (if \<not> accepted then
                          \<lparr>soEnd = SessionEnd, soReplies = [error_reply reqID ''Too many invalid shares. Banned.''],
                           soPackets = [], soSession = ms\<lparr>msLocked := True\<rparr>,
                           soSlave = sl\<lparr>slInfoLocked := True, slServer := Kick (connId (msConn ms)) (slServer sl)\<rparr>\<rparr>
                        else answer (ms\<lparr>msConn := (msConn ms)\<lparr>Score := - 100\<rparr>\<rparr>) sl (error_reply reqID ''wrong hash'')))
                 (RecordShare (SlaveCfg cfg) (fst (suPenaltyNow env)) (snd (suPenaltyNow env))
                    (connId (msConn ms)) (msClientIP ms) False (slBox sl))
             else Ret (Inr sl))
      else Ret (Inr (sl\<lparr>slQueue := snd (Submit marshal (suQueueNow env) share (slQueue sl))\<rparr>)))"

definition handle_submit ::
  "Config \<Rightarrow> (ShareToVerify \<Rightarrow> string) \<Rightarrow> submit_env \<Rightarrow> RequestJob \<Rightarrow> MinerSession \<Rightarrow> Slave \<Rightarrow> submit_out go" where
  "handle_submit cfg marshal env req ms sl =
     (let p = rjParams req; c = msConn ms; reqID = rjID req in
      if msLocked ms then
        Ret \<lparr>soEnd = Stuck, soReplies = [], soPackets = [], soSession = ms, soSlave = sl\<rparr>
      else if \<not> well_formed p then Ret (answer ms sl (error_reply reqID ''malformed share''))
      else case share_job c (jrJobID p) of
        None \<Rightarrow> Ret (answer ms sl (error_reply reqID ''wrong job id''))
      | Some job \<Rightarrow>
          go_bind (hex_or_panic (jrResult p) ''ERROR DECODING HEX HASH! This should NEVER happen!'') (\<lambda>resultHash.
          go_bind (hex_or_panic (jrNonce p) ''ERROR DECODING HEX NONCE! This should NEVER happen!'') (\<lambda>resultNonce.
          if Nicehash c \<and> cjNicehashByte job \<noteq> 0 \<and> resultNonce ! 3 \<noteq> cjNicehashByte job then
            Ret (answer ms sl (error_reply reqID ''wrong nicehash nonce''))
          else
            go_bind (put_nonce (cjHashingBlob job) resultNonce) (\<lambda>hashingBlob.
            go_bind (if UseP2Pool cfg then Ret (replicate (length (cjBlob job)) 0) else put_nonce (cjBlob job) resultNonce) (\<lambda>blockBlob.
            go_bind (HashToDiff resultHash) (\<lambda>shareDiff.
            if slInfoLocked sl then
              Ret \<lparr>soEnd = Stuck, soReplies = [], soPackets = [], soSession = ms\<lparr>msLocked := True\<rparr>, soSlave = sl\<rparr>
            else
              go_bind (verify_share cfg marshal env reqID (jrResult p) shareDiff hashingBlob ms sl) (\<lambda>v.
              case v of
                Inl out \<Rightarrow> Ret out
              | Inr sl \<Rightarrow>
                  if shareDiff < cjDiff job then Ret (answer ms sl (error_reply reqID ''hash does not meet diff''))
                  else accept_share cfg env reqID job shareDiff blockBlob ms sl)))))))"

text \<open>One turn of the loop; \<open>None\<close> is a failed read.\<close>

definition handle_request ::
  "Config \<Rightarrow> (ShareToVerify \<Rightarrow> string) \<Rightarrow> submit_env \<Rightarrow> RequestJob option \<Rightarrow> MinerSession \<Rightarrow> Slave \<Rightarrow> submit_out go" where
  "handle_request cfg marshal env r ms sl =
     (case r of
        None \<Rightarrow> Ret \<lparr>soEnd = SessionEnd, soReplies = [], soPackets = [], soSession = ms,
                    soSlave = sl\<lparr>slServer := Kick (connId (msConn ms)) (slServer sl)\<rparr>\<rparr>
      | Some req \<Rightarrow>
          if rjMethod req = ''keepalived'' then
            Ret \<lparr>soEnd = Continue, soReplies = [ReplyStatus (rjID req) ''KEEPALIVED''], soPackets = [],
                 soSession = ms, soSlave = sl\<rparr>
          else if rjMethod req \<noteq> ''submit'' then
            Ret \<lparr>soEnd = Continue, soReplies = [], soPackets = [], soSession = ms, soSlave = sl\<rparr>
          else handle_submit cfg marshal env req ms sl)"

section \<open>Shares are credited on the miner's word\<close>

text \<open>A connection the penalty box has nothing against: no ban, and at most \<open>k\<close> shares, all good, in
  its window.\<close>

definition clean :: "nat \<Rightarrow> u64 \<Rightarrow> string \<Rightarrow> PenaltyBox \<Rightarrow> bool" where
  "clean k c ip box =
     (banned box ip = None \<and>
      (\<forall>w. windows box c = Some w \<longrightarrow> Bad w = 0 \<and> length (ShareTimings w) \<le> k))"

lemma not_rate_exceeded: "length ts < 10 \<Longrightarrow> \<not> rate_exceeded cfg now ts"
  by (simp add: rate_exceeded_def)

lemma length_push_timing: "length (push_timing cfg now ts) \<le> length ts + 1"
  by (simp add: push_timing_def Let_def)

lemma open_window_clean:
  assumes "clean k c ip box" and "0 \<le> ShareTimingWindowSize cfg"
  shows "\<exists>w box'. open_window cfg now now2 c ip (box\<lparr>banned := (banned box)(ip := None)\<rparr>) = Ret (w, box') \<and>
           Bad w = 0 \<and> length (ShareTimings w) \<le> k \<and> banned box' ip = None"
  using assms by (auto simp: open_window_def clean_def Let_def split: option.splits)

lemma RecordShare_clean:
  assumes "clean k c ip box" and "k < 9" and "0 \<le> ShareTimingWindowSize cfg"
  shows "\<exists>box'. RecordShare cfg now now2 c ip True box = Ret (True, box') \<and> clean (Suc k) c ip box'"
proof -
  obtain w box1 where w: "open_window cfg now now2 c ip (box\<lparr>banned := (banned box)(ip := None)\<rparr>) = Ret (w, box1)"
    "Bad w = 0" "length (ShareTimings w) \<le> k" "banned box1 ip = None"
    using open_window_clean [OF assms(1,3)] by blast
  let ?ts = "push_timing cfg now (ShareTimings w)"
  have "length ?ts \<le> Suc k" using length_push_timing [of cfg now "ShareTimings w"] w(3) by simp
  moreover from this assms(2) have "\<not> rate_exceeded cfg now ?ts" by (intro not_rate_exceeded) simp
  moreover have "banned box ip = None" using assms(1) by (simp add: clean_def)
  ultimately show ?thesis
    using w by (simp add: RecordShare_def Let_def count_share_def ratio_exceeded_def clean_def)
qed

lemma put_nonce_ok: "43 \<le> length b \<Longrightarrow> \<exists>b'. put_nonce b nonce = Ret b'"
  by (simp add: put_nonce_def)

text \<open>What holds of the session while it resubmits a solution.\<close>

text \<open>The check of the nonce's last byte on a NiceHash connection: the job's byte is 0 or the nonce has it.\<close>

definition nicehash_ok :: "Connection \<Rightarrow> ConnJob \<Rightarrow> string \<Rightarrow> bool" where
  "nicehash_ok c job nonceHex =
     (\<not> (Nicehash c \<and> cjNicehashByte job \<noteq> 0 \<and>
         (case hex_DecodeString nonceHex of Some n \<Rightarrow> n ! 3 \<noteq> cjNicehashByte job | None \<Rightarrow> True)))"

lemma nicehash_byte:
  assumes "nicehash_ok c job nonceHex" "hex_DecodeString nonceHex = Some n"
  shows "(Nicehash c \<and> cjNicehashByte job \<noteq> 0 \<and> n ! 3 \<noteq> cjNicehashByte job) = False"
  using assms by (auto simp: nicehash_ok_def)

definition ready :: "nat \<Rightarrow> JobResultRequest \<Rightarrow> ConnJob \<Rightarrow> MinerSession \<Rightarrow> Slave \<Rightarrow> bool" where
  "ready k p job ms sl =
     (\<not> msLocked ms \<and> \<not> slInfoLocked sl \<and> nicehash_ok (msConn ms) job (jrNonce p) \<and>
      share_job (msConn ms) (jrJobID p) = Some job \<and>
      43 \<le> length (cjHashingBlob job) \<and> 43 \<le> length (cjBlob job) \<and>
      clean k (connId (msConn ms)) (msClientIP ms) (slBox sl))"

lemma share_job_upd [simp]:
  "share_job (c\<lparr>NextDiff := x\<rparr>) = share_job c" "share_job (c\<lparr>LastShare := t\<rparr>) = share_job c"
  "share_job (c\<lparr>Score := n\<rparr>) = share_job c"
  by (simp_all add: share_job_def fun_eq_iff)

lemma nicehash_ok_upd [simp]:
  "nicehash_ok (c\<lparr>NextDiff := x\<rparr>) = nicehash_ok c" "nicehash_ok (c\<lparr>LastShare := t\<rparr>) = nicehash_ok c"
  "nicehash_ok (c\<lparr>Score := n\<rparr>) = nicehash_ok c"
  by (simp_all add: nicehash_ok_def fun_eq_iff)

lemma submit_once:
  assumes r: "ready k (rjParams req) job ms sl" and k: "k < 9" "0 \<le> ShareTimingWindowSize (SlaveCfg cfg)"
    and p2: "\<not> UseP2Pool cfg" and wf: "well_formed (rjParams req)"
    and hash: "hex_DecodeString (jrResult (rjParams req)) = Some hash" "HashToDiff hash = Ret sd"
    and sd: "cjDiff job \<le> sd" "sd < infoDifficulty (slInfo sl)"
  shows "\<exists>out. handle_submit cfg marshal env req ms sl = Ret out \<and> soEnd out = Continue \<and>
     soReplies out = [ReplyStatus (rjID req) ''OK''] \<and>
     slCache (soSlave out) =
       (let (wallet, worker) = share_recipient cfg (connIsTls (msConn ms)) (msAddress ms) (msWorkerID ms) (suRandom env)
        in cacheShareWithWorker (slCache sl) wallet worker (cjDiff job)) \<and>
     length (vqRows (slQueue (soSlave out))) = length (vqRows (slQueue sl)) + (if bindable (connId (msConn ms)) then 1 else 0) \<and>
     slInfo (soSlave out) = slInfo sl \<and> ready (Suc k) (rjParams req) job (soSession out) (soSlave out) \<and>
     connId (msConn (soSession out)) = connId (msConn ms) \<and> connIsTls (msConn (soSession out)) = connIsTls (msConn ms) \<and>
     msAddress (soSession out) = msAddress ms \<and> msWorkerID (soSession out) = msWorkerID ms"
proof -
  obtain nonce where nonce: "hex_DecodeString (jrNonce (rjParams req)) = Some nonce"
    using wf hex_decode_total [of "jrNonce (rjParams req)"] by (auto simp: well_formed_def)
  obtain hb bb where hb: "put_nonce (cjHashingBlob job) nonce = Ret hb" and bb: "put_nonce (cjBlob job) nonce = Ret bb"
    using r put_nonce_ok by (fastforce simp: ready_def)
  have below: "\<not> infoDifficulty (slInfo sl) \<le> sd" and enough: "\<not> sd < cjDiff job" using sd by (simp_all only: not_le not_less)
  let ?sl = "sl\<lparr>slQueue := snd (Submit marshal (suQueueNow env) (share_to_verify ms sl hb (jrResult (rjParams req)) sd) (slQueue sl))\<rparr>"
  have nh: "nicehash_ok (msConn ms) job (jrNonce (rjParams req))" using r by (simp add: ready_def)
  have ver: "verify_share cfg marshal env (rjID req) (jrResult (rjParams req)) sd hb ms sl = Ret (Inr ?sl)"
    using below by (simp add: verify_share_def Let_def)
  have rows: "length (vqRows (slQueue ?sl)) = length (vqRows (slQueue sl)) + (if bindable (connId (msConn ms)) then 1 else 0)"
    by (simp add: Submit_def share_to_verify_def)
  obtain box where box: "RecordShare (SlaveCfg cfg) (fst (suPenaltyNow env)) (snd (suPenaltyNow env)) (connId (msConn ms))
      (msClientIP ms) True (slBox sl) = Ret (True, box)" "clean (Suc k) (connId (msConn ms)) (msClientIP ms) box"
    using RecordShare_clean r k by (fastforce simp: ready_def)
  have sub: "handle_submit cfg marshal env req ms sl = accept_share cfg env (rjID req) job sd bb ms ?sl"
    using r p2 wf hash enough nonce hb bb ver
    by (simp add: handle_submit_def Let_def ready_def hex_or_panic_def nicehash_byte [OF nh nonce])
  let ?ms = "ms\<lparr>msConn := (msConn ms)\<lparr>Score := i32 (Score (msConn ms) + 1)\<rparr>\<rparr>"
  let ?rcp = "share_recipient cfg (connIsTls (msConn ms)) (msAddress ms) (msWorkerID ms) (suRandom env)"
  have acc: "accept_share cfg env (rjID req) job sd bb ms ?sl =
      Ret (finish_share cfg env (rjID req) job [] ?ms
        (?sl\<lparr>slBox := box, slCache := cacheShareWithWorker (slCache sl) (fst ?rcp) (snd ?rcp) (cjDiff job)\<rparr>))"
    using box(1) p2 below by (simp add: accept_share_def Let_def split_beta)
  let ?out = "finish_share cfg env (rjID req) job [] ?ms
        (?sl\<lparr>slBox := box, slCache := cacheShareWithWorker (slCache sl) (fst ?rcp) (snd ?rcp) (cjDiff job)\<rparr>)"
  have "ready (Suc k) (rjParams req) job (soSession ?out) (soSlave ?out)"
    using r box(2) by (simp add: ready_def finish_share_def Let_def)
  then show ?thesis
    using sub acc rows by (intro exI [of _ ?out]) (simp add: finish_share_def Let_def split_beta)
qed

text \<open>The same request sent again and again, with one environment each time.\<close>

fun resubmit ::
  "Config \<Rightarrow> (ShareToVerify \<Rightarrow> string) \<Rightarrow> RequestJob \<Rightarrow> submit_env list \<Rightarrow> MinerSession \<Rightarrow> Slave
     \<Rightarrow> (reply list \<times> MinerSession \<times> Slave) go" where
  "resubmit cfg marshal req [] ms sl = Ret ([], ms, sl)"
| "resubmit cfg marshal req (env # envs) ms sl =
     go_bind (handle_submit cfg marshal env req ms sl) (\<lambda>out.
     go_map (\<lambda>(rs, st). (soReplies out @ rs, st)) (resubmit cfg marshal req envs (soSession out) (soSlave out)))"

definition credit :: "Config \<Rightarrow> MinerSession \<Rightarrow> u64 \<Rightarrow> submit_env \<Rightarrow> cache \<Rightarrow> cache" where
  "credit cfg ms d env c =
     (let (wallet, worker) = share_recipient cfg (connIsTls (msConn ms)) (msAddress ms) (msWorkerID ms) (suRandom env)
      in cacheShareWithWorker c wallet worker d)"

lemma resubmit_ready:
  assumes "ready k (rjParams req) job ms sl" and "k + length envs \<le> 9"
    and "0 \<le> ShareTimingWindowSize (SlaveCfg cfg)" and "\<not> UseP2Pool cfg" and "well_formed (rjParams req)"
    and "hex_DecodeString (jrResult (rjParams req)) = Some hash" and "HashToDiff hash = Ret sd"
    and "cjDiff job \<le> sd" and "sd < infoDifficulty (slInfo sl)"
  shows "\<exists>ms' sl'. resubmit cfg marshal req envs ms sl =
      Ret (replicate (length envs) (ReplyStatus (rjID req) ''OK''), ms', sl') \<and>
     slCache sl' = fold (credit cfg ms (cjDiff job)) envs (slCache sl) \<and>
     length (vqRows (slQueue sl')) = length (vqRows (slQueue sl)) + (if bindable (connId (msConn ms)) then length envs else 0)"
  using assms
proof (induction envs arbitrary: k ms sl)
  case (Cons env envs)
  have "k < 9" using Cons.prems(2) by simp
  from submit_once [OF Cons.prems(1) this Cons.prems(3-9), where env = env and marshal = marshal]
  obtain out where out: "handle_submit cfg marshal env req ms sl = Ret out"
      "soReplies out = [ReplyStatus (rjID req) ''OK'']" "slCache (soSlave out) = credit cfg ms (cjDiff job) env (slCache sl)"
      "length (vqRows (slQueue (soSlave out))) = length (vqRows (slQueue sl)) + (if bindable (connId (msConn ms)) then 1 else 0)"
    and next1: "slInfo (soSlave out) = slInfo sl" "ready (Suc k) (rjParams req) job (soSession out) (soSlave out)"
      "connId (msConn (soSession out)) = connId (msConn ms)" "connIsTls (msConn (soSession out)) = connIsTls (msConn ms)"
      "msAddress (soSession out) = msAddress ms" "msWorkerID (soSession out) = msWorkerID ms"
    unfolding credit_def by blast
  have "credit cfg (soSession out) = credit cfg ms" using next1(4-6) by (simp add: credit_def fun_eq_iff)
  moreover obtain ms' sl' where "resubmit cfg marshal req envs (soSession out) (soSlave out) =
      Ret (replicate (length envs) (ReplyStatus (rjID req) ''OK''), ms', sl')"
     "slCache sl' = fold (credit cfg (soSession out) (cjDiff job)) envs (slCache (soSlave out))"
     "length (vqRows (slQueue sl')) = length (vqRows (slQueue (soSlave out))) + (if bindable (connId (msConn ms)) then length envs else 0)"
    using Cons.IH [OF next1(2)] Cons.prems(2-9) next1(1,3) by (auto simp del: if_split)
  ultimately show ?case using out by simp
qed simp

text \<open>C10: shares below the network difficulty are credited on the miner's word, and again when they
  are sent again. Without p2pool, on a connection with a clean record, any well-formed result that
  claims at least the job's difficulty and less than the network's is answered OK and credited each
  of up to nine times in a row (after ten, the check of the share rate can ban), whatever the nonce
  is, apart from its last byte on a NiceHash connection, and whatever the daemon would compute for
  it: its proof of work is only queued, and not even that on a connection whose identifier is
  \<open>2 ^ 63\<close> or more, which the database refuses; and nothing remembers that the nonce was used before. (With
  p2pool the recorded network difficulty is never set, so that every share is checked at once.)\<close>

theorem unverified_shares_credited:
  assumes locks: "\<not> msLocked ms" "\<not> slInfoLocked sl"
    and nh: "nicehash_ok (msConn ms) job (jrNonce (rjParams req))"
    and job: "share_job (msConn ms) (jrJobID (rjParams req)) = Some job"
      "43 \<le> length (cjHashingBlob job)" "43 \<le> length (cjBlob job)"
    and box: "clean 0 (connId (msConn ms)) (msClientIP ms) (slBox sl)" "0 \<le> ShareTimingWindowSize (SlaveCfg cfg)"
    and p2: "\<not> UseP2Pool cfg" and wf: "well_formed (rjParams req)"
    and hash: "hex_DecodeString (jrResult (rjParams req)) = Some hash" "HashToDiff hash = Ret sd"
      "cjDiff job \<le> sd" "sd < infoDifficulty (slInfo sl)"
    and n: "length envs \<le> 9"
  shows "\<exists>ms' sl'. resubmit cfg marshal req envs ms sl =
      Ret (replicate (length envs) (ReplyStatus (rjID req) ''OK''), ms', sl') \<and>
     slCache sl' = fold (credit cfg ms (cjDiff job)) envs (slCache sl) \<and>
     length (vqRows (slQueue sl')) = length (vqRows (slQueue sl)) + (if bindable (connId (msConn ms)) then length envs else 0)"
  using assms by (intro resubmit_ready [where k = 0 and sd = sd and hash = hash]) (simp_all add: ready_def)

section \<open>Locks left behind\<close>

text \<open>A share that passes every check before the lock of the chain information, on jobs whose blobs
  have the bytes of a nonce.\<close>

definition presents :: "Config \<Rightarrow> RequestJob \<Rightarrow> MinerSession \<Rightarrow> ConnJob \<Rightarrow> u64 \<Rightarrow> bool" where
  "presents cfg req ms job sd =
     (\<not> msLocked ms \<and> nicehash_ok (msConn ms) job (jrNonce (rjParams req)) \<and> well_formed (rjParams req) \<and>
      share_job (msConn ms) (jrJobID (rjParams req)) = Some job \<and>
      43 \<le> length (cjHashingBlob job) \<and> (UseP2Pool cfg \<or> 43 \<le> length (cjBlob job)) \<and>
      go_bind (hex_or_panic (jrResult (rjParams req)) '''') HashToDiff = Ret sd)"

definition under_lock ::
  "Config \<Rightarrow> (ShareToVerify \<Rightarrow> string) \<Rightarrow> submit_env \<Rightarrow> RequestJob \<Rightarrow> ConnJob \<Rightarrow> u64 \<Rightarrow> byte list \<Rightarrow> byte list
     \<Rightarrow> MinerSession \<Rightarrow> Slave \<Rightarrow> submit_out go" where
  "under_lock cfg marshal env req job sd hb bb ms sl =
     (if slInfoLocked sl then
        Ret \<lparr>soEnd = Stuck, soReplies = [], soPackets = [], soSession = ms\<lparr>msLocked := True\<rparr>, soSlave = sl\<rparr>
      else
        go_bind (verify_share cfg marshal env (rjID req) (jrResult (rjParams req)) sd hb ms sl) (\<lambda>v.
        case v of
          Inl out \<Rightarrow> Ret out
        | Inr sl \<Rightarrow>
            if sd < cjDiff job then Ret (answer ms sl (error_reply (rjID req) ''hash does not meet diff''))
            else accept_share cfg env (rjID req) job sd bb ms sl))"

lemma presents_submit:
  assumes "presents cfg req ms job sd"
  shows "\<exists>hb bb. handle_submit cfg marshal env req ms sl = under_lock cfg marshal env req job sd hb bb ms sl"
proof -
  have wf: "well_formed (rjParams req)" using assms by (simp add: presents_def)
  obtain nonce where nonce: "hex_DecodeString (jrNonce (rjParams req)) = Some nonce"
    using wf hex_decode_total [of "jrNonce (rjParams req)"] by (auto simp: well_formed_def)
  obtain hash where hash: "hex_DecodeString (jrResult (rjParams req)) = Some hash"
    using wf hex_decode_total [of "jrResult (rjParams req)"] by (auto simp: well_formed_def)
  have nh: "nicehash_ok (msConn ms) job (jrNonce (rjParams req))" using assms by (simp add: presents_def)
  have sd: "HashToDiff hash = Ret sd" using assms hash by (simp add: presents_def hex_or_panic_def)
  obtain hb where hb: "put_nonce (cjHashingBlob job) nonce = Ret hb"
    using assms put_nonce_ok by (fastforce simp: presents_def)
  have job: "share_job (msConn ms) (jrJobID (rjParams req)) = Some job" and free: "\<not> msLocked ms"
    using assms by (simp_all add: presents_def)
  note facts = wf hash nonce sd hb job free
  show ?thesis
  proof (cases "UseP2Pool cfg")
    case True
    then show ?thesis using facts
      by (intro exI [of _ hb] exI [of _ "replicate (length (cjBlob job)) 0"])
        (simp add: handle_submit_def under_lock_def Let_def hex_or_panic_def nicehash_byte [OF nh nonce])
  next
    case False
    with assms have "43 \<le> length (cjBlob job)" by (simp add: presents_def)
    with put_nonce_ok obtain bb where "put_nonce (cjBlob job) nonce = Ret bb" by blast
    with False facts show ?thesis
      by (intro exI [of _ hb] exI [of _ bb])
        (simp add: handle_submit_def under_lock_def Let_def hex_or_panic_def nicehash_byte [OF nh nonce])
  qed
qed

text \<open>While the lock of the chain information is held no submission changes the slave's state.\<close>

lemma frozen_submit:
  assumes "slInfoLocked sl" "handle_submit cfg marshal env req ms sl = Ret out"
  shows "soSlave out = sl \<and> soPackets out = [] \<and>
    (soEnd out = Stuck \<or> soEnd out = Continue \<and> (\<exists>msg. soReplies out = [error_reply (rjID req) msg]))"
proof -
  have "\<exists>msg. out = answer ms sl (error_reply (rjID req) msg)" if "soEnd out \<noteq> Stuck"
  proof (cases "msLocked ms \<or> \<not> well_formed (rjParams req)")
    case True
    show ?thesis
    proof (cases "msLocked ms")
      case True
      with assms(2) have "soEnd out = Stuck" by (auto simp: handle_submit_def Let_def)
      with that show ?thesis by simp
    next
      case False
      with True assms(2) show ?thesis by (simp add: handle_submit_def Let_def) blast
    qed
  next
    case False
    then have f: "\<not> msLocked ms" "well_formed (rjParams req)" by simp_all
    show ?thesis
    proof (cases "share_job (msConn ms) (jrJobID (rjParams req))")
      case None
      with f assms(2) show ?thesis by (simp add: handle_submit_def Let_def) blast
    next
      case (Some job)
      from assms(2) [unfolded handle_submit_def] f Some assms(1) show ?thesis using that
        by (simp add: Let_def go_bind_eq_Ret split: if_split_asm) auto
    qed
  qed
  moreover have "soSlave out = sl \<and> soPackets out = []" if "soEnd out = Stuck"
    using assms that by (simp add: handle_submit_def Let_def go_bind_eq_Ret answer_def
      split: if_split_asm option.split_asm) auto
  ultimately show ?thesis by (cases "soEnd out = Stuck") (auto simp: answer_def)
qed

text \<open>C11: a ban freezes the slave. When a miner claims a block, the daemon refutes it and the penalty
  box bans the address, the handler returns without releasing the connection's lock and the
  lock of the chain information. From then on no submission of any miner is accepted: unless it makes
  the slave panic it waits for ever, or it is answered with an error by one of the checks before that
  lock, and it changes nothing on the slave; every share that passes these checks, on a NiceHash connection or not, waits for
  ever.\<close>

theorem ban_freezes_slave:
  assumes sub: "presents cfg req ms job sd" and free: "\<not> slInfoLocked sl"
    and block: "infoDifficulty (slInfo sl) \<le> sd"
    and wrong: "\<forall>params. \<exists>h. suCalcPow env params = Inr h \<and> h \<noteq> jrResult (rjParams req)"
    and ban: "RecordShare (SlaveCfg cfg) (fst (suPenaltyNow env)) (snd (suPenaltyNow env)) (connId (msConn ms))
                (msClientIP ms) False (slBox sl) = Ret (False, box)"
  shows "\<exists>out. handle_submit cfg marshal env req ms sl = Ret out \<and> soEnd out = SessionEnd \<and>
           msLocked (soSession out) \<and> slInfoLocked (soSlave out) \<and>
           (\<forall>cfg2 env2 req2 ms2 out2. handle_submit cfg2 marshal env2 req2 ms2 (soSlave out) = Ret out2 \<longrightarrow>
              soSlave out2 = soSlave out \<and> soPackets out2 = [] \<and>
              (soEnd out2 = Stuck \<or>
               soEnd out2 = Continue \<and> (\<exists>msg. soReplies out2 = [error_reply (rjID req2) msg]))) \<and>
           (\<forall>cfg2 env2 req2 ms2 job2 sd2. presents cfg2 req2 ms2 job2 sd2 \<longrightarrow>
              (\<exists>out2. handle_submit cfg2 marshal env2 req2 ms2 (soSlave out) = Ret out2 \<and> soEnd out2 = Stuck))"
proof -
  obtain hb bb where s: "handle_submit cfg marshal env req ms sl = under_lock cfg marshal env req job sd hb bb ms sl"
    using presents_submit [OF sub] by blast
  let ?out = "\<lparr>soEnd = SessionEnd, soReplies = [error_reply (rjID req) ''Too many invalid shares. Banned.''],
      soPackets = [], soSession = ms\<lparr>msLocked := True\<rparr>,
      soSlave = sl\<lparr>slBox := box, slInfoLocked := True, slServer := Kick (connId (msConn ms)) (slServer sl)\<rparr>\<rparr>"
  obtain h where "suCalcPow env (svCalcPowParams (share_to_verify ms sl hb (jrResult (rjParams req)) sd)) = Inr h"
    "h \<noteq> jrResult (rjParams req)" using wrong by blast
  then have "verify_share cfg marshal env (rjID req) (jrResult (rjParams req)) sd hb ms sl = Ret (Inl ?out)"
    using block ban by (simp add: verify_share_def Let_def)
  then have out: "handle_submit cfg marshal env req ms sl = Ret ?out" using free by (simp add: s under_lock_def)
  have locked: "slInfoLocked (soSlave ?out)" by simp
  have "\<exists>out2. handle_submit cfg2 marshal env2 req2 ms2 (soSlave ?out) = Ret out2 \<and> soEnd out2 = Stuck"
    if "presents cfg2 req2 ms2 job2 sd2" for cfg2 env2 req2 ms2 job2 sd2
  proof -
    note other = that
    obtain hb2 bb2 where "handle_submit cfg2 marshal env2 req2 ms2 (soSlave ?out) =
        under_lock cfg2 marshal env2 req2 job2 sd2 hb2 bb2 ms2 (soSlave ?out)"
      using presents_submit [OF other] by blast
    then show ?thesis by (simp add: under_lock_def)
  qed
  with out frozen_submit [OF locked] show ?thesis by (intro exI [of _ ?out]) simp_all
qed

section \<open>A solved block that is refused\<close>

text \<open>C40: a solution of a block can be thrown away. When the difficulty of a miner's job is above the
  network's, a share that reaches the network difficulty but not the job's is a block: the slave has
  the daemon check its proof of work at once, the daemon confirms it, and then the miner is answered
  that the hash does not meet the difficulty. The block is not submitted, no share is credited,
  nothing is reported to the master and the slave keeps its state.\<close>

theorem solved_block_refused:
  assumes sub: "presents cfg req ms job sd" and free: "\<not> slInfoLocked sl"
    and block: "infoDifficulty (slInfo sl) \<le> sd" "sd < cjDiff job"
    and right: "\<forall>params. suCalcPow env params = Inr (jrResult (rjParams req))"
  shows "\<forall>submitBlock. handle_submit cfg marshal (env\<lparr>suSubmitBlock := submitBlock\<rparr>) req ms sl =
     Ret \<lparr>soEnd = Continue, soReplies = [error_reply (rjID req) ''hash does not meet diff''], soPackets = [],
          soSession = ms\<lparr>msLocked := False\<rparr>, soSlave = sl\<rparr>"
proof
  fix submitBlock
  let ?env = "env\<lparr>suSubmitBlock := submitBlock\<rparr>"
  obtain hb bb where s: "handle_submit cfg marshal ?env req ms sl = under_lock cfg marshal ?env req job sd hb bb ms sl"
    using presents_submit [OF sub] by blast
  have "verify_share cfg marshal ?env (rjID req) (jrResult (rjParams req)) sd hb ms sl = Ret (Inr sl)"
    using block(1) right by (simp add: verify_share_def Let_def)
  then show "handle_submit cfg marshal ?env req ms sl =
     Ret \<lparr>soEnd = Continue, soReplies = [error_reply (rjID req) ''hash does not meet diff''], soPackets = [],
          soSession = ms\<lparr>msLocked := False\<rparr>, soSlave = sl\<rparr>"
    using free block(2) by (simp add: s under_lock_def answer_def)
qed

section \<open>Samples\<close>

definition sample_hash :: "byte list" where
  "sample_hash = replicate 30 255 @ [32, 0]"

lemma sample_hash_diff: "HashToDiff sample_hash = Ret 1985"
proof -
  have "big_SetBytes (reverse2 sample_hash) = le_nat sample_hash"
    by (rule big_SetBytes_reverse2) (simp add: sample_hash_def)
  moreover have "le_nat (replicate k (255 :: byte)) + 1 = 256 ^ k" for k by (induction k) auto
  from this [of 30] have "le_nat sample_hash = 33 * 256 ^ 30 - 1"
    by (simp add: sample_hash_def le_nat_append)
  ultimately show ?thesis by (simp add: HashToDiff_def maxTarget_def)
qed

definition sample_job :: ConnJob where
  "sample_job = \<lparr>cjBlob = replicate 43 7, cjHashingBlob = replicate 43 9, cjDiff = 1000, cjJobID = ''j1'', cjNicehashByte = 0\<rparr>"

definition sample_session :: MinerSession where
  "sample_session = \<lparr>msConn = (accept_conn True 3)\<lparr>CurrentJob := sample_job\<rparr>, msLocked = False,
     msAddress = sample_address, msWorkerID = ''rig1'', msClientIP = ''10.0.0.1'', msJobDiff = 0\<rparr>"

definition sample_slave :: Slave where
  "sample_slave = \<lparr>slBox = empty_box, slInfo = sample_Infos, slInfoLocked = False, slQueue = NewVerifyQueue,
     slCache = Map.empty, slServer = \<lparr>Connections = [msConn sample_session], closed = []\<rparr>\<rparr>"

definition sample_request :: RequestJob where
  "sample_request = \<lparr>rjID = 9, rjMethod = ''submit'',
     rjParams = \<lparr>jrJobID = ''j1'', jrNonce = hex_EncodeToString [1, 2, 3, 4], jrResult = hex_EncodeToString sample_hash\<rparr>\<rparr>"

definition sample_submit_env :: submit_env where
  "sample_submit_env = \<lparr>suPenaltyNow = (50, 51), suQueueNow = 60, suCalcPow = (\<lambda>_. Inr ''another hash''),
     suSubmitBlock = (\<lambda>_. Inl ''refused''), suHeaderHash = (\<lambda>_. Inl ''refused''), suRandom = (0, 0), suMillis = (0, 0)\<rparr>"

lemma sample_request_wf: "well_formed (rjParams sample_request)"
  by (simp add: well_formed_def sample_request_def sample_hash_def IsHex_hex_EncodeToString)

lemma sample_request_job: "share_job (msConn sample_session) (jrJobID (rjParams sample_request)) = Some sample_job"
  by (simp add: share_job_def sample_session_def sample_request_def sample_job_def accept_conn_def zero_ConnJob_def)

lemma sample_request_hash: "hex_DecodeString (jrResult (rjParams sample_request)) = Some sample_hash"
  by (simp add: sample_request_def hex_roundtrip)

lemma unverified_shares_credited_witness:
  "\<exists>ms' sl'. resubmit sample_Config (\<lambda>_. ''json'') sample_request [sample_submit_env, sample_submit_env] sample_session sample_slave =
      Ret ([ReplyStatus 9 ''OK'', ReplyStatus 9 ''OK''], ms', sl') \<and>
     slCache sl' = fold (credit sample_Config sample_session 1000) [sample_submit_env, sample_submit_env] Map.empty \<and>
     length (vqRows (slQueue sl')) = 2"
proof -
  have c: "clean 0 (connId (msConn sample_session)) (msClientIP sample_session) (slBox sample_slave)"
    "nicehash_ok (msConn sample_session) sample_job (jrNonce (rjParams sample_request))" "bindable (connId (msConn sample_session))"
    by (simp_all add: clean_def sample_slave_def empty_box_def sample_session_def accept_conn_def bindable_def nicehash_ok_def)
  have l: "43 \<le> length (cjHashingBlob sample_job)" "43 \<le> length (cjBlob sample_job)"
    "cjDiff sample_job \<le> 1985" "1985 < infoDifficulty (slInfo sample_slave)" "cjDiff sample_job = 1000"
    by (simp_all add: sample_job_def sample_slave_def sample_Infos_def)
  have p: "\<not> msLocked sample_session" "\<not> slInfoLocked sample_slave" "\<not> UseP2Pool sample_Config"
    "0 \<le> ShareTimingWindowSize (SlaveCfg sample_Config)" "rjID sample_request = 9" "slCache sample_slave = Map.empty"
    "vqRows (slQueue sample_slave) = []"
    by (simp_all add: sample_session_def sample_slave_def sample_Config_def sample_SlaveConfig_def sample_request_def NewVerifyQueue_def)
  from unverified_shares_credited [OF p(1,2) c(2) sample_request_job l(1,2) c(1) p(4,3) sample_request_wf
      sample_request_hash sample_hash_diff l(3,4), where envs = "[sample_submit_env, sample_submit_env]"]
  show ?thesis unfolding p(5-7) l(5) using c(3) by (simp add: numeral_2_eq_2)
qed

lemma sample_presents: "presents cfg sample_request sample_session sample_job 1985"
  by (simp add: presents_def sample_request_wf sample_request_job sample_request_hash hex_or_panic_def sample_hash_diff)
    (simp add: sample_session_def sample_job_def accept_conn_def nicehash_ok_def)

lemma ban_freezes_slave_witness:
  "\<exists>out. handle_submit sample_Config (\<lambda>_. ''json'') sample_submit_env sample_request sample_session
      (sample_slave\<lparr>slBox := empty_box\<lparr>banned := [''10.0.0.1'' \<mapsto> 100]\<rparr>, slInfo := sample_Infos\<lparr>infoDifficulty := 1500\<rparr>\<rparr>) = Ret out \<and>
    soEnd out = SessionEnd \<and> slInfoLocked (soSlave out)"
proof -
  let ?box = "empty_box\<lparr>banned := [''10.0.0.1'' \<mapsto> 100]\<rparr>"
  let ?sl = "sample_slave\<lparr>slBox := ?box, slInfo := sample_Infos\<lparr>infoDifficulty := 1500\<rparr>\<rparr>"
  have "hex_EncodeToString sample_hash \<noteq> ''another hash''"
    by (rule notI, drule arg_cong [where f = length]) (simp add: sample_hash_def)
  then have wrong: "\<forall>params. \<exists>h. suCalcPow sample_submit_env params = Inr h \<and> h \<noteq> jrResult (rjParams sample_request)"
    by (auto simp: sample_submit_env_def sample_request_def)
  have ban: "RecordShare (SlaveCfg sample_Config) (fst (suPenaltyNow sample_submit_env)) (snd (suPenaltyNow sample_submit_env))
      (connId (msConn sample_session)) (msClientIP sample_session) False (slBox ?sl) = Ret (False, ?box)"
    by (simp add: RecordShare_def sample_submit_env_def sample_session_def)
  have "\<not> slInfoLocked ?sl" "infoDifficulty (slInfo ?sl) \<le> 1985" by (simp_all add: sample_slave_def)
  from ban_freezes_slave [OF sample_presents this wrong ban, where marshal = "\<lambda>_. ''json''"] show ?thesis by blast
qed

text \<open>A job of difficulty 2000 while the network's is 1500, and a hash that the daemon confirms.\<close>

lemma solved_block_refused_witness:
  "handle_submit sample_Config (\<lambda>_. ''json'')
      (sample_submit_env\<lparr>suCalcPow := \<lambda>_. Inr (jrResult (rjParams sample_request)), suSubmitBlock := \<lambda>_. Inr ''id''\<rparr>) sample_request
      (sample_session\<lparr>msConn := (msConn sample_session)\<lparr>CurrentJob := sample_job\<lparr>cjDiff := 2000\<rparr>\<rparr>\<rparr>)
      (sample_slave\<lparr>slInfo := sample_Infos\<lparr>infoDifficulty := 1500\<rparr>\<rparr>) =
    Ret \<lparr>soEnd = Continue, soReplies = [error_reply 9 ''hash does not meet diff''], soPackets = [],
         soSession = sample_session\<lparr>msConn := (msConn sample_session)\<lparr>CurrentJob := sample_job\<lparr>cjDiff := 2000\<rparr>\<rparr>\<rparr>,
         soSlave = sample_slave\<lparr>slInfo := sample_Infos\<lparr>infoDifficulty := 1500\<rparr>\<rparr>\<rparr>"
proof -
  let ?job = "sample_job\<lparr>cjDiff := 2000\<rparr>"
  let ?ms = "sample_session\<lparr>msConn := (msConn sample_session)\<lparr>CurrentJob := ?job\<rparr>\<rparr>"
  let ?sl = "sample_slave\<lparr>slInfo := sample_Infos\<lparr>infoDifficulty := 1500\<rparr>\<rparr>"
  let ?env = "sample_submit_env\<lparr>suCalcPow := \<lambda>_. Inr (jrResult (rjParams sample_request))\<rparr>"
  have "share_job (msConn ?ms) (jrJobID (rjParams sample_request)) = Some ?job"
    by (simp add: share_job_def sample_session_def sample_request_def sample_job_def accept_conn_def zero_ConnJob_def)
  then have pres: "presents sample_Config sample_request ?ms ?job 1985"
    by (simp add: presents_def sample_request_wf sample_request_hash hex_or_panic_def sample_hash_diff)
      (simp add: sample_session_def sample_job_def accept_conn_def nicehash_ok_def)
  have c: "\<not> slInfoLocked ?sl" "infoDifficulty (slInfo ?sl) \<le> 1985" "1985 < cjDiff ?job"
    "\<forall>params. suCalcPow ?env params = Inr (jrResult (rjParams sample_request))"
    by (simp_all add: sample_slave_def)
  have "rjID sample_request = 9" "?ms\<lparr>msLocked := False\<rparr> = ?ms" by (simp_all add: sample_request_def sample_session_def)
  with solved_block_refused [OF pres c, where marshal = "\<lambda>_. ''json''"] show ?thesis by simp
qed

end
