(* ===== verification/Requests.thy ===== *)
theory Requests
  imports Stratum
begin

text \<open>
  How the stratum server reads a request, \<open>ReadJSON\<close> of \<^verbatim>\<open>src/stratum/server.go\<close> over the buffered
  reader its callers make for each request. A socket is the list of the segments that its reads
  deliver, up to the end of the stream or the deadline; \<open>unmarshal\<close> stands for \<open>json.Unmarshal\<close>.
\<close>

section \<open>Buffered lines\<close>

definition MAX_REQUEST_SIZE :: nat where
  "MAX_REQUEST_SIZE = 5 * 1024"

abbreviation newline :: char where
  "newline \<equiv> CHR 0x0A"

datatype read_error = OversizeRequest | ReadFailed

text \<open>What a read leaves of the next segment when the buffer has room for \<open>n\<close> bytes.\<close>

definition next_segs :: "nat \<Rightarrow> string \<Rightarrow> string list \<Rightarrow> string list" where
  "next_segs n s ss = (if length s \<le> n then ss else drop n s # ss)"

text \<open>A line without its end, LF or CR LF.\<close>

definition chop :: "string \<Rightarrow> string" where
  "chop l = (if l \<noteq> [] \<and> last l = CHR 0x0D then butlast l else l)"

text \<open>\<open>bufio.Reader.ReadLine\<close> with a buffer of \<open>size\<close> bytes that holds \<open>buf\<close>: the line, and what the
  socket still has to deliver. A full buffer without a newline is an incomplete line
  (\<open>isPrefix\<close>); at the end of the stream the rest of the buffer is a line, if there is any.\<close>

function read_line :: "nat \<Rightarrow> string \<Rightarrow> string list \<Rightarrow> (read_error + string) \<times> string list" where
  "read_line sz buf segs =
     (if newline \<in> set buf then (Inr (chop (takeWhile (\<lambda>c. c \<noteq> newline) buf)), segs)
      else if sz \<le> length buf then (Inl OversizeRequest, segs)
      else case segs of
             [] \<Rightarrow> (if buf = [] then Inl ReadFailed else Inr buf, [])
           | s # ss \<Rightarrow> read_line sz (buf @ take (sz - length buf) s) (next_segs (sz - length buf) s ss))"
  by pat_completeness auto
termination
  by (relation "measure (\<lambda>(sz, buf, segs). \<Sum>s \<leftarrow> segs. Suc (length s))") (auto simp: next_segs_def)

declare read_line.simps [simp del]

text \<open>\<open>None\<close> for every error: the callers kick the client for any of them. The reader is made for one
  request, so whatever its buffer still holds after the line is gone.\<close>

definition ReadJSON :: "(string \<Rightarrow> 'a option) \<Rightarrow> string list \<Rightarrow> 'a option \<times> string list" where
  "ReadJSON unmarshal segs =
     (case read_line MAX_REQUEST_SIZE [] segs of
        (Inl e, segs') \<Rightarrow> (None, segs')
      | (Inr data, segs') \<Rightarrow> (unmarshal data, segs'))"

section \<open>Progress\<close>

definition left :: "string list \<Rightarrow> nat" where
  "left segs = (\<Sum>s \<leftarrow> segs. Suc (length s))"

lemma left_next: "0 < n \<Longrightarrow> left (next_segs n s ss) < left (s # ss)"
  by (auto simp: left_def next_segs_def)

lemma read_line_left: "left (snd (read_line sz buf segs)) \<le> left segs"
proof (induction sz buf segs rule: read_line.induct)
  case (1 sz buf segs)
  show ?case
  proof (cases "newline \<in> set buf \<or> sz \<le> length buf \<or> segs = []")
    case True
    then show ?thesis by (subst read_line.simps) (auto simp: left_def)
  next
    case False
    then obtain s ss where segs: "segs = s # ss" by (cases segs) auto
    from False have "left (next_segs (sz - length buf) s ss) < left segs" by (simp add: segs left_next)
    moreover have "left (snd (read_line sz (buf @ take (sz - length buf) s) (next_segs (sz - length buf) s ss)))
        \<le> left (next_segs (sz - length buf) s ss)"
      using False by (intro "1") (simp_all add: segs)
    ultimately show ?thesis using False by (subst read_line.simps) (simp add: segs)
  qed
qed

lemma ReadJSON_consumes:
  assumes "ReadJSON unmarshal segs = (Some r, segs')"
  shows "left segs' < left segs"
proof (cases segs)
  case Nil
  then show ?thesis using assms by (simp add: ReadJSON_def read_line.simps [of _ _ "[]"] MAX_REQUEST_SIZE_def)
next
  case (Cons s ss)
  have "left (snd (read_line MAX_REQUEST_SIZE (take MAX_REQUEST_SIZE s) (next_segs MAX_REQUEST_SIZE s ss)))
      \<le> left (next_segs MAX_REQUEST_SIZE s ss)" by (rule read_line_left)
  also have "\<dots> < left segs" unfolding Cons by (rule left_next) (simp add: MAX_REQUEST_SIZE_def)
  finally show ?thesis
    using assms unfolding Cons ReadJSON_def
    by (subst (asm) read_line.simps) (auto simp: MAX_REQUEST_SIZE_def split: prod.splits sum.splits)
qed

section \<open>One request\<close>

text \<open>A line that arrives in any number of pieces, none of which goes beyond its end.\<close>

definition pieces_of :: "string \<Rightarrow> string list \<Rightarrow> bool" where
  "pieces_of l ps = (concat ps = l @ [newline] \<and> [] \<notin> set ps)"

lemma read_line_pieces:
  assumes "pieces_of l ps" "newline \<notin> set l" "newline \<notin> set buf" "length buf + length l < sz"
  shows "read_line sz buf (ps @ ss) = (Inr (chop (buf @ l)), ss)"
  using assms
proof (induction ps arbitrary: buf l)
  case Nil
  then show ?case by (simp add: pieces_of_def)
next
  case (Cons s ps)
  have len: "length s \<le> sz - length buf"
  proof -
    have "s @ concat ps = l @ [newline]" using Cons.prems(1) by (simp add: pieces_of_def)
    then have "length (s @ concat ps) = length (l @ [newline])" by (rule arg_cong)
    then show ?thesis using Cons.prems(4) by simp
  qed
  then have step: "read_line sz buf ((s # ps) @ ss) = read_line sz (buf @ s) (ps @ ss)"
    using Cons.prems(3,4) by (subst read_line.simps) (simp add: next_segs_def)
  show ?case
  proof (cases "concat ps = []")
    case True
    then have "ps = []" using Cons.prems(1) by (cases ps) (auto simp: pieces_of_def)
    then have s: "s = l @ [newline]" using Cons.prems(1) by (simp add: pieces_of_def)
    have "takeWhile (\<lambda>c. c \<noteq> newline) (buf @ l @ [newline]) = buf @ l"
      using Cons.prems(2,3) by (subst takeWhile_append2) (auto intro: takeWhile_append2 [THEN trans])
    then show ?thesis unfolding step by (subst read_line.simps) (simp add: s \<open>ps = []\<close>)
  next
    case False
    then have "l @ [newline] = (s @ butlast (concat ps)) @ [last (concat ps)]"
      using Cons.prems(1) by (simp add: pieces_of_def)
    then have l: "l = s @ butlast (concat ps)" and "last (concat ps) = newline" by simp_all
    then have "pieces_of (butlast (concat ps)) ps"
      using False Cons.prems(1) by (auto simp: pieces_of_def append_butlast_last_id)
    moreover have "newline \<notin> set s" "newline \<notin> set (butlast (concat ps))" using Cons.prems(2) l by simp_all
    ultimately have "read_line sz (buf @ s) (ps @ ss) = (Inr (chop ((buf @ s) @ butlast (concat ps))), ss)"
      using Cons.prems(3,4) by (intro Cons.IH) (simp_all add: l)
    then show ?thesis unfolding step by (simp add: l)
  qed
qed

lemma ReadJSON_pieces:
  assumes "pieces_of l ps" "newline \<notin> set l" "length l < MAX_REQUEST_SIZE"
  shows "ReadJSON unmarshal (ps @ ss) = (unmarshal (chop l), ss)"
  using read_line_pieces [OF assms(1,2), of "[]"] assms(3) by (simp add: ReadJSON_def)

text \<open>What arrives together with a request is not read by the next one.\<close>

lemma ReadJSON_drops:
  assumes "newline \<notin> set l" "length l + length rest < MAX_REQUEST_SIZE"
  shows "ReadJSON unmarshal ((l @ newline # rest) # ss) = (unmarshal (chop l), ss)"
proof -
  have "takeWhile (\<lambda>c. c \<noteq> newline) (l @ newline # rest) = l" using assms(1) by (subst takeWhile_append2) auto
  moreover have "read_line MAX_REQUEST_SIZE [] ((l @ newline # rest) # ss) = read_line MAX_REQUEST_SIZE (l @ newline # rest) ss"
    using assms(2) by (subst read_line.simps) (simp add: next_segs_def)
  ultimately show ?thesis by (subst (asm) (2) read_line.simps) (simp add: ReadJSON_def)
qed

section \<open>Accepting connections\<close>

text \<open>An accept loop of \<open>Start\<close>: a failed \<open>Accept\<close> (\<open>None\<close>) is logged, an accepted connection gets an
  identifier from eight random bytes and is registered.\<close>

fun accept_loop :: "bool \<Rightarrow> byte list option list \<Rightarrow> Server \<Rightarrow> Server" where
  "accept_loop isTls [] s = s"
| "accept_loop isTls (None # es) s = accept_loop isTls es s"
| "accept_loop isTls (Some b # es) s =
     accept_loop isTls es (handleConnection (accept_conn isTls (randomUint64 b)) s)"

text \<open>The identifiers fit the signed INTEGER columns of the verification queue.\<close>

lemma accept_loop_ids:
  "\<forall>c \<in> set (Connections s). unat (connId c) < 2 ^ 63
    \<Longrightarrow> \<forall>c \<in> set (Connections (accept_loop isTls es s)). unat (connId c) < 2 ^ 63"
proof (induction isTls es s rule: accept_loop.induct)
  case (3 isTls b es s)
  have "\<forall>c \<in> set (Connections (handleConnection (accept_conn isTls (randomUint64 b)) s)). unat (connId c) < 2 ^ 63"
    using "3.prems" randomUint64_lt [of b] by (simp add: handleConnection_def accept_conn_def)
  from "3.IH" [OF this] show ?case by simp
qed simp_all

end
