(* ===== verification/Session.thy ===== *)
theory Session
  imports Submit Requests
begin

text \<open>
  A miner's session from its first byte to its end, \<open>HandleConnection\<close> of
  \<^verbatim>\<open>src/cmd/slave/conn.go\<close> without p2pool: the ban check, the login, the loop over the requests and
  the deferred functions. Between two requests the rest of the slave may change the connection
  (new jobs) and the shared state in any way (\<open>seOther\<close>).
\<close>

section \<open>The session\<close>

record SlaveProc =
  spSlave :: Slave
  spWorkers :: workers
  spNicehash :: NicehashJob
  spNicehashLocked :: bool

text \<open>What the environment decides: the clock of the ban check, the login's environment (its ban flag,
  request and locks are replaced by what the session finds), and for every request its
  environment and what happened before the next one.\<close>

record session_env =
  seCheckNow :: instant
  seLogin :: login_env
  seSubmit :: "nat \<Rightarrow> submit_env"
  seOther :: "nat \<Rightarrow> MinerSession \<times> Slave \<Rightarrow> MinerSession \<times> Slave"

text \<open>How a session ends, what it sent to the miner and to the master, and the state it leaves.\<close>

type_synonym 's session_out = "request_end \<times> reply list \<times> byte list list \<times> 's"

fun prepend :: "reply list \<Rightarrow> byte list list \<Rightarrow> 's session_out \<Rightarrow> 's session_out" where
  "prepend rs ps (e, rs', ps', s) = (e, rs @ rs', ps @ ps', s)"

definition out_of :: "submit_out \<Rightarrow> Slave session_out" where
  "out_of out = (soEnd out, soReplies out, soPackets out, soSlave out)"

function request_loop ::
  "Config \<Rightarrow> (ShareToVerify \<Rightarrow> string) \<Rightarrow> (string \<Rightarrow> RequestJob option) \<Rightarrow> session_env \<Rightarrow> nat \<Rightarrow> string list
     \<Rightarrow> MinerSession \<Rightarrow> Slave \<Rightarrow> Slave session_out go" where
  "request_loop cfg marshal unmarshal env k segs ms sl =
     (case ReadJSON unmarshal segs of
        (None, _) \<Rightarrow> go_map out_of (handle_request cfg marshal (seSubmit env k) None ms sl)
      | (Some req, segs') \<Rightarrow>
          go_bind (handle_request cfg marshal (seSubmit env k) (Some req) ms sl) (\<lambda>out.
          if soEnd out = Continue then
            let (ms', sl') = seOther env k (soSession out, soSlave out) in
            go_map (prepend (soReplies out) (soPackets out))
              (request_loop cfg marshal unmarshal env (k + 1) segs' ms' sl')
          else Ret (out_of out)))"
  by pat_completeness auto
termination
  by (relation "measure (\<lambda>(cfg, marshal, unmarshal, env, k, segs, ms, sl). left segs)")
    (auto dest: ReadJSON_consumes [OF sym])

declare request_loop.simps [simp del]

text \<open>The deferred functions: the registered worker is forgotten, then the penalty box.\<close>

definition deferred :: "u64 \<Rightarrow> string \<Rightarrow> bool \<Rightarrow> SlaveProc \<Rightarrow> SlaveProc go" where
  "deferred cid ip registered p =
     (let p = (if registered then p\<lparr>spWorkers := (spWorkers p)(cid := None)\<rparr> else p) in
      go_map (\<lambda>box. p\<lparr>spSlave := (spSlave p)\<lparr>slBox := box\<rparr>\<rparr>) (CleanupConnection cid ip (slBox (spSlave p))))"

definition kicked :: "u64 \<Rightarrow> Slave \<Rightarrow> Slave" where
  "kicked cid sl = sl\<lparr>slServer := Kick cid (slServer sl)\<rparr>"

definition login_session ::
  "(byte list \<Rightarrow> byte list) \<Rightarrow> addr_config \<Rightarrow> Config \<Rightarrow> session_env \<Rightarrow> (u64 \<times> loginReq) option \<Rightarrow> Connection \<Rightarrow> SlaveProc
     \<Rightarrow> (login_end \<times> reply list \<times> login_state) go" where
  "login_session keccak acfg cfg env r c p =
     login_phase keccak acfg cfg
       ((seLogin env)\<lparr>leBanned := False, leRequest := r, leInfoLocked := slInfoLocked (spSlave p),
                      leNicehashLocked := spNicehashLocked p\<rparr>)
       \<lparr>lsConn = c, lsWorkers = spWorkers p, lsNicehash = spNicehash p, lsInfo = slInfo (spSlave p)\<rparr>"

definition after_login :: "login_state \<Rightarrow> SlaveProc \<Rightarrow> SlaveProc" where
  "after_login s p = p\<lparr>spSlave := (spSlave p)\<lparr>slInfo := lsInfo s\<rparr>, spWorkers := lsWorkers s, spNicehash := lsNicehash s\<rparr>"

definition new_session :: "string \<Rightarrow> string \<Rightarrow> string \<Rightarrow> Connection \<Rightarrow> MinerSession" where
  "new_session ip addr worker c =
     \<lparr>msConn = c, msLocked = False, msAddress = addr, msWorkerID = worker, msClientIP = ip, msJobDiff = 0\<rparr>"

definition HandleConnection ::
  "(byte list \<Rightarrow> byte list) \<Rightarrow> addr_config \<Rightarrow> Config \<Rightarrow> (ShareToVerify \<Rightarrow> string) \<Rightarrow> (string \<Rightarrow> (u64 \<times> loginReq) option)
     \<Rightarrow> (string \<Rightarrow> RequestJob option) \<Rightarrow> session_env \<Rightarrow> string \<Rightarrow> string list \<Rightarrow> Connection \<Rightarrow> SlaveProc
     \<Rightarrow> SlaveProc session_out go" where
  "HandleConnection keccak acfg cfg marshal unmarshalLogin unmarshal env clientIP segs c p =
     (if CheckBanned (seCheckNow env) clientIP (slBox (spSlave p)) then
        Ret (SessionEnd, [ReplyError None (-1) ''Too many invalid shares. Try again later.''], [],
             p\<lparr>spSlave := kicked (connId c) (spSlave p)\<rparr>)
      else
        let (r, segs') = ReadJSON unmarshalLogin segs in
        go_bind (login_session keccak acfg cfg env r c p) (\<lambda>(e, replies, s).
        let p = after_login s p in
        case e of
          LoginRejected \<Rightarrow>
            go_map (\<lambda>p. (SessionEnd, replies, [], p))
              (deferred (connId c) clientIP False (p\<lparr>spSlave := kicked (connId c) (spSlave p)\<rparr>))
        | LoginStuck \<Rightarrow>
            Ret (Stuck, replies, [], p\<lparr>spNicehashLocked := spNicehashLocked p \<or> Nicehash (lsConn s)\<rparr>)
        | LoggedIn addr worker \<Rightarrow>
            go_bind (request_loop cfg marshal unmarshal env 0 segs' (new_session clientIP addr worker (lsConn s)) (spSlave p))
              (\<lambda>(e, rs, ps, sl).
               if e = Stuck then Ret (Stuck, replies @ rs, ps, p\<lparr>spSlave := sl\<rparr>)
               else go_map (\<lambda>p. (SessionEnd, replies @ rs, ps, p))
                      (deferred (connId c) clientIP True (p\<lparr>spSlave := sl\<rparr>)))))"

section \<open>The end of a session\<close>

text \<open>No table of the slave has an entry for a connection.\<close>

definition untracked :: "u64 \<Rightarrow> string \<Rightarrow> SlaveProc \<Rightarrow> bool" where
  "untracked cid ip p =
     (cid \<notin> connId ` set (Connections (slServer (spSlave p))) \<and> spWorkers p cid = None \<and>
      windows (slBox (spSlave p)) cid = None \<and>
      (\<forall>conns. ipConns (slBox (spSlave p)) ip = Some conns \<longrightarrow> cid \<notin> set conns))"

definition gone :: "u64 \<Rightarrow> Slave \<Rightarrow> bool" where
  "gone cid sl = (cid \<notin> connId ` set (Connections (slServer sl)))"

lemma gone_Kick [simp]: "gone cid (sl\<lparr>slServer := Kick cid (slServer sl')\<rparr>)"
  by (auto simp: gone_def Kick_removes)

lemma gone_kicked [simp]: "gone cid (kicked cid sl)"
  by (simp add: kicked_def)

lemma CleanupConnection_untracked:
  assumes "CleanupConnection cid ip box = Ret box'"
  shows "windows box' cid = None \<and> (\<forall>conns. ipConns box' ip = Some conns \<longrightarrow> cid \<notin> set conns)"
  using assms by (auto simp: CleanupConnection_def Let_def split: option.splits if_splits)

lemma deferred_untracked:
  assumes "deferred cid ip registered p = Ret p'" "gone cid (spSlave p)" "registered \<or> spWorkers p cid = None"
  shows "untracked cid ip p'"
proof -
  obtain box where b: "CleanupConnection cid ip (slBox (spSlave p)) = Ret box"
    using assms(1) by (cases "CleanupConnection cid ip (slBox (spSlave p))") (auto simp: deferred_def Let_def split: if_splits)
  then show ?thesis
    using assms CleanupConnection_untracked [OF b] by (auto simp: deferred_def Let_def untracked_def gone_def split: if_splits)
qed

text \<open>A request that ends the session has kicked the client, and no request changes the identifier.\<close>

definition ends_well :: "u64 \<Rightarrow> submit_out \<Rightarrow> bool" where
  "ends_well cid out = ((soEnd out = SessionEnd \<longrightarrow> gone cid (soSlave out)) \<and> connId (msConn (soSession out)) = cid)"

lemma ends_well_simps [simp]:
  "ends_well cid \<lparr>soEnd = Continue, soReplies = rs, soPackets = ps, soSession = ms, soSlave = sl\<rparr> \<longleftrightarrow> connId (msConn ms) = cid"
  "ends_well cid \<lparr>soEnd = Stuck, soReplies = rs, soPackets = ps, soSession = ms, soSlave = sl\<rparr> \<longleftrightarrow> connId (msConn ms) = cid"
  "ends_well cid \<lparr>soEnd = SessionEnd, soReplies = rs, soPackets = ps, soSession = ms, soSlave = sl\<rparr>
     \<longleftrightarrow> gone cid sl \<and> connId (msConn ms) = cid"
  by (auto simp: ends_well_def)

lemma gone_Kick_locked [simp]: "gone cid (sl\<lparr>slInfoLocked := b, slServer := Kick cid (slServer sl')\<rparr>)"
  by (auto simp: gone_def Kick_removes)

lemma answer_ends_well [simp]: "ends_well cid (answer ms sl r) \<longleftrightarrow> connId (msConn ms) = cid"
  by (simp add: answer_def)

lemma finish_share_ends_well [simp]: "ends_well cid (finish_share cfg env i job ps ms sl) \<longleftrightarrow> connId (msConn ms) = cid"
  by (simp add: finish_share_def Let_def)

lemma go_map_eq_RetE:
  assumes "go_map f m = Ret y"
  obtains x where "m = Ret x" "y = f x"
  using assms by (cases m) auto

lemma accept_share_ends_well:
  assumes "accept_share cfg env i job sd bb ms sl = Ret out"
  shows "ends_well (connId (msConn ms)) out"
  using assms
  by (auto simp: accept_share_def go_bind_eq_Ret Let_def split: prod.splits if_splits sum.splits option.splits elim!: go_map_eq_RetE)

lemma verify_share_ends_well:
  assumes "verify_share cfg marshal env i result sd hb ms sl = Ret (Inl out)"
  shows "ends_well (connId (msConn ms)) out"
  using assms
  by (auto simp: verify_share_def Let_def split: prod.splits if_splits sum.splits elim!: go_map_eq_RetE)

text \<open>A property of every value that a computation returns.\<close>

definition go_all :: "('a \<Rightarrow> bool) \<Rightarrow> 'a go \<Rightarrow> bool" where
  "go_all P m = (\<forall>x. m = Ret x \<longrightarrow> P x)"

lemma go_all_Ret [simp]: "go_all P (Ret x) \<longleftrightarrow> P x"
  by (simp add: go_all_def)

lemma go_all_bind: "(\<And>x. m = Ret x \<Longrightarrow> go_all P (f x)) \<Longrightarrow> go_all P (go_bind m f)"
  by (cases m) (auto simp: go_all_def)

lemma handle_submit_ends_well:
  assumes "handle_submit cfg marshal env req ms sl = Ret out"
  shows "ends_well (connId (msConn ms)) out"
proof -
  have "go_all (ends_well (connId (msConn ms))) (handle_submit cfg marshal env req ms sl)"
    unfolding handle_submit_def Let_def
    by (auto intro!: go_all_bind split: option.split sum.split)
      (auto simp: go_all_def intro: accept_share_ends_well verify_share_ends_well)
  with assms show ?thesis by (simp add: go_all_def)
qed

lemma handle_request_ends_well:
  assumes "handle_request cfg marshal env r ms sl = Ret out"
  shows "ends_well (connId (msConn ms)) out"
  using assms handle_submit_ends_well by (auto simp: handle_request_def split: option.splits if_splits)

lemma handle_request_None:
  "handle_request cfg marshal env None ms sl =
     Ret \<lparr>soEnd = SessionEnd, soReplies = [], soPackets = [], soSession = ms, soSlave = kicked (connId (msConn ms)) sl\<rparr>"
  by (simp add: handle_request_def kicked_def)

text \<open>The rest of the slave does not give a connection another identifier.\<close>

definition keeps_id :: "session_env \<Rightarrow> bool" where
  "keeps_id env = (\<forall>k s. connId (msConn (fst (seOther env k s))) = connId (msConn (fst s)))"

lemma request_loop_gone:
  assumes "keeps_id env"
  shows "request_loop cfg marshal unmarshal env k segs ms sl = Ret (e, rs, ps, sl')
    \<Longrightarrow> e = Stuck \<or> e = SessionEnd \<and> gone (connId (msConn ms)) sl'"
proof (induction "left segs" arbitrary: k segs ms sl e rs ps sl' rule: less_induct)
  case less
  obtain r segs' where r: "ReadJSON unmarshal segs = (r, segs')" by fastforce
  show ?case
  proof (cases r)
    case None
    then show ?thesis using less.prems r
      by (subst (asm) request_loop.simps) (auto simp: handle_request_None out_of_def)
  next
    case (Some req)
    obtain out where out: "handle_request cfg marshal (seSubmit env k) (Some req) ms sl = Ret out"
      using less.prems r Some by (subst (asm) request_loop.simps) (auto simp: go_bind_eq_Ret)
    note ew = handle_request_ends_well [OF out]
    show ?thesis
    proof (cases "soEnd out = Continue")
      case False
      then have "(e, rs, ps, sl') = out_of out"
        using less.prems r Some out by (subst (asm) request_loop.simps) auto
      then show ?thesis using ew False by (cases "soEnd out") (auto simp: out_of_def ends_well_def)
    next
      case True
      obtain ms2 sl2 where o: "seOther env k (soSession out, soSlave out) = (ms2, sl2)" by fastforce
      have i: "connId (msConn ms2) = connId (msConn ms)"
        using assms ew o unfolding keeps_id_def ends_well_def by (metis fst_conv)
      obtain rs' ps' where y: "request_loop cfg marshal unmarshal env (k + 1) segs' ms2 sl2 = Ret (e, rs', ps', sl')"
        using less.prems r Some out True o
        by (subst (asm) request_loop.simps) (auto elim!: go_map_eq_RetE)
      have "left segs' < left segs" using r Some ReadJSON_consumes by simp
      from less.hyps [OF this y] show ?thesis unfolding i .
    qed
  qed
qed

lemma first_job_frame:
  "go_all (\<lambda>(ok, rs, s'). connId (lsConn s') = connId (lsConn s) \<and> lsWorkers s' = lsWorkers s) (first_job cfg i rpc rb s)"
  by (auto simp: first_job_def Let_def go_all_def split: prod.splits sum.splits option.splits if_splits elim!: go_map_eq_RetE)

lemma first_job_frameD:
  "first_job cfg i rpc rb s = Ret (ok, rs, s') \<Longrightarrow> connId (lsConn s') = connId (lsConn s) \<and> lsWorkers s' = lsWorkers s"
  using first_job_frame [of s cfg i rpc rb] by (simp add: go_all_def)

lemma login_phase_frame:
  "go_all (\<lambda>(e, rs, s'). connId (lsConn s') = connId (lsConn s) \<and>
     (e = LoginRejected \<longrightarrow> lsWorkers s (connId (lsConn s)) = None \<longrightarrow> lsWorkers s' (connId (lsConn s)) = None))
   (login_phase keccak acfg cfg env s)"
  unfolding login_phase_def Let_def
  by (auto intro!: go_all_bind split: option.split prod.split) (auto simp: go_all_def dest!: first_job_frameD elim!: go_map_eq_RetE split: if_split_asm)

text \<open>
  C25: a session leaves no trace. However a miner's session ends - refused as banned, malformed or
  rejected login, a failed read, a ban in its course - and whatever the rest of the slave does in
  between, afterwards the connection is in no table: not among the server's connections, not in
  the worker registry, not in the windows of the penalty box or its list for the address.
\<close>
theorem session_leaves_no_trace:
  assumes "HandleConnection keccak acfg cfg marshal unmarshalLogin unmarshal env clientIP segs c p = Ret (SessionEnd, rs, ps, p')"
    and "keeps_id env"
    and "spWorkers p (connId c) = None" "windows (slBox (spSlave p)) (connId c) = None"
    and "\<forall>conns. ipConns (slBox (spSlave p)) clientIP = Some conns \<longrightarrow> connId c \<notin> set conns"
  shows "untracked (connId c) clientIP p'"
proof (cases "CheckBanned (seCheckNow env) clientIP (slBox (spSlave p))")
  case True
  then have "p' = p\<lparr>spSlave := kicked (connId c) (spSlave p)\<rparr>" using assms(1) by (simp add: HandleConnection_def)
  then show ?thesis using assms(3-5) gone_kicked [of "connId c" "spSlave p"]
    by (simp add: untracked_def gone_def kicked_def)
next
  case False
  obtain r segs' where r: "ReadJSON unmarshalLogin segs = (r, segs')" by fastforce
  obtain e replies s where l: "login_session keccak acfg cfg env r c p = Ret (e, replies, s)"
    using assms(1) False r by (cases "login_session keccak acfg cfg env r c p") (auto simp: HandleConnection_def)
  then have s: "connId (lsConn s) = connId c" "e = LoginRejected \<longrightarrow> lsWorkers s (connId c) = None"
    using login_phase_frame assms(3) unfolding login_session_def go_all_def by fastforce+
  show ?thesis
  proof (cases e)
    case LoginRejected
    then have "deferred (connId c) clientIP False
        ((after_login s p)\<lparr>spSlave := kicked (connId c) (spSlave (after_login s p))\<rparr>) = Ret p'"
      using assms(1) False r l by (auto simp: HandleConnection_def Let_def elim!: go_map_eq_RetE)
    then show ?thesis
      by (rule deferred_untracked) (use s(2) LoginRejected in \<open>simp_all add: after_login_def\<close>)
  next
    case LoginStuck
    then show ?thesis using assms(1) False r l by (simp add: HandleConnection_def Let_def)
  next
    case (LoggedIn addr worker)
    obtain e' rs' ps' sl where q: "request_loop cfg marshal unmarshal env 0 segs'
        (new_session clientIP addr worker (lsConn s)) (spSlave (after_login s p)) = Ret (e', rs', ps', sl)"
      and d: "e' \<noteq> Stuck" "deferred (connId c) clientIP True ((after_login s p)\<lparr>spSlave := sl\<rparr>) = Ret p'"
      using assms(1) False r l LoggedIn
      by (auto simp: HandleConnection_def Let_def go_bind_eq_Ret split: if_splits elim!: go_map_eq_RetE)
    have g: "gone (connId c) sl" using request_loop_gone [OF assms(2) q] d(1) by (simp add: new_session_def s(1))
    from d(2) show ?thesis by (rule deferred_untracked) (use g in simp_all)
  qed
qed

section \<open>Which requests are read\<close>

text \<open>
  C24: requests that arrive together are lost. Each turn of the loop makes a new buffered reader, so
  what the miner sent behind a request in the same segment is thrown away with the old one: as
  long as all of it fits the buffer, the session goes on exactly as if it had never been sent, and
  the same holds for requests sent together with the login.
\<close>
theorem pipelined_requests_dropped:
  assumes "newline \<notin> set l" "length l + length rest < MAX_REQUEST_SIZE"
  shows "request_loop cfg marshal unmarshal env k ((l @ newline # rest) # segs) ms sl
      = request_loop cfg marshal unmarshal env k ((l @ [newline]) # segs) ms sl \<and>
    HandleConnection keccak acfg cfg marshal unmarshalLogin unmarshal env clientIP ((l @ newline # rest) # segs) c p
      = HandleConnection keccak acfg cfg marshal unmarshalLogin unmarshal env clientIP ((l @ [newline]) # segs) c p"
  using ReadJSON_drops [OF assms, of unmarshal segs] ReadJSON_drops [OF assms(1), of "[]" unmarshal segs]
    ReadJSON_drops [OF assms, of unmarshalLogin segs] ReadJSON_drops [OF assms(1), of "[]" unmarshalLogin segs] assms(2)
  by (simp add: request_loop.simps [of _ _ _ _ _ "_ # _"] HandleConnection_def)

text \<open>The loop over requests that are given as a list, until one ends the session.\<close>

fun handle_all ::
  "Config \<Rightarrow> (ShareToVerify \<Rightarrow> string) \<Rightarrow> session_env \<Rightarrow> nat \<Rightarrow> RequestJob list \<Rightarrow> MinerSession \<Rightarrow> Slave
     \<Rightarrow> Slave session_out go" where
  "handle_all cfg marshal env k [] ms sl = Ret (SessionEnd, [], [], kicked (connId (msConn ms)) sl)"
| "handle_all cfg marshal env k (req # reqs) ms sl =
     go_bind (handle_request cfg marshal (seSubmit env k) (Some req) ms sl) (\<lambda>out.
     if soEnd out = Continue then
       let (ms', sl') = seOther env k (soSession out, soSlave out) in
       go_map (prepend (soReplies out) (soPackets out)) (handle_all cfg marshal env (k + 1) reqs ms' sl')
     else Ret (out_of out))"

text \<open>Requests whose lines arrive in separate pieces.\<close>

definition framed :: "(string \<Rightarrow> RequestJob option) \<Rightarrow> RequestJob list \<Rightarrow> string list list \<Rightarrow> bool" where
  "framed unmarshal = list_all2 (\<lambda>req ps. \<exists>l. pieces_of l ps \<and> newline \<notin> set l \<and> length l < MAX_REQUEST_SIZE \<and>
     unmarshal (chop l) = Some req)"

text \<open>
  C26: requests that arrive one at a time are handled in order. If the segments of the stream
  respect the ends of the requests - each request in one or more segments of its own - every
  request below the size limit is read and handled in the order of its sending, and the end of
  the stream ends the session.
\<close>
theorem requests_handled_in_order:
  assumes "framed unmarshal reqs pss"
  shows "request_loop cfg marshal unmarshal env k (concat pss) ms sl = handle_all cfg marshal env k reqs ms sl"
  using assms unfolding framed_def
proof (induction arbitrary: k ms sl rule: list_all2_induct)
  case Nil
  have "ReadJSON unmarshal [] = (None, [])"
    by (simp add: ReadJSON_def read_line.simps [of _ _ "[]"] MAX_REQUEST_SIZE_def)
  then show ?case by (simp add: request_loop.simps [of _ _ _ _ _ "[]"] handle_request_None out_of_def)
next
  case (Cons req reqs ps pss)
  then have "ReadJSON unmarshal (ps @ concat pss) = (Some req, concat pss)" using ReadJSON_pieces by metis
  then show ?case
    by (simp add: request_loop.simps [of _ _ _ _ _ "ps @ concat pss"] Cons.IH cong: if_cong)
qed

section \<open>Witnesses\<close>

definition sample_keepalive :: RequestJob where
  "sample_keepalive = \<lparr>rjID = 7, rjMethod = ''keepalived'', rjParams = \<lparr>jrJobID = '''', jrNonce = '''', jrResult = ''''\<rparr>\<rparr>"

definition sample_session_env :: session_env where
  "sample_session_env = \<lparr>seCheckNow = 10,
     seLogin = \<lparr>leBanned = False, leRequest = None, leRpc = Inl ''down'', leRandom = [], leNow = 0, leInfoLocked = False,
                leNicehashLocked = False\<rparr>,
     seSubmit = (\<lambda>_. sample_submit_env), seOther = (\<lambda>_ s. s)\<rparr>"

definition sample_proc :: SlaveProc where
  "sample_proc = \<lparr>spSlave = sample_slave, spWorkers = Map.empty, spNicehash = zero_NicehashJob, spNicehashLocked = False\<rparr>"

lemma handle_keepalive:
  "handle_request cfg marshal env (Some sample_keepalive) ms sl =
     Ret \<lparr>soEnd = Continue, soReplies = [ReplyStatus 7 ''KEEPALIVED''], soPackets = [], soSession = ms, soSlave = sl\<rparr>"
  by (simp add: handle_request_def sample_keepalive_def)

lemma two_keepalives:
  "handle_all cfg marshal sample_session_env k [sample_keepalive, sample_keepalive] ms sl =
     Ret (SessionEnd, [ReplyStatus 7 ''KEEPALIVED'', ReplyStatus 7 ''KEEPALIVED''], [], kicked (connId (msConn ms)) sl)"
  by (simp add: handle_keepalive sample_session_env_def)

lemma sample_session_id: "connId (msConn sample_session) = 3"
  by (simp add: sample_session_def accept_conn_def)

lemma requests_handled_in_order_witness:
  "request_loop sample_Config (\<lambda>_. '''') (\<lambda>_. Some sample_keepalive) sample_session_env 0
     [''{keep'', ''alive}'' @ [newline], ''{keepalive}'' @ [CHR 0x0D, newline]] sample_session sample_slave =
   Ret (SessionEnd, [ReplyStatus 7 ''KEEPALIVED'', ReplyStatus 7 ''KEEPALIVED''], [], kicked 3 sample_slave)"
proof -
  have "framed (\<lambda>_. Some sample_keepalive) [sample_keepalive, sample_keepalive]
      [[''{keep'', ''alive}'' @ [newline]], [''{keepalive}'' @ [CHR 0x0D, newline]]]"
    unfolding framed_def
    by (auto simp: pieces_of_def MAX_REQUEST_SIZE_def intro: exI [of _ "''{keepalive}''"] exI [of _ "''{keepalive}'' @ [CHR 0x0D]"])
  from requests_handled_in_order [OF this, of sample_Config "\<lambda>_. ''''" sample_session_env 0 sample_session sample_slave]
  show ?thesis by (simp add: two_keepalives sample_session_id del: handle_all.simps)
qed

lemma pipelined_requests_dropped_witness:
  "request_loop sample_Config (\<lambda>_. '''') (\<lambda>_. Some sample_keepalive) sample_session_env 0
     [''{keepalive}'' @ newline # ''{keepalive}'' @ [newline]] sample_session sample_slave =
   Ret (SessionEnd, [ReplyStatus 7 ''KEEPALIVED''], [], kicked 3 sample_slave)"
proof -
  have "request_loop sample_Config (\<lambda>_. '''') (\<lambda>_. Some sample_keepalive) sample_session_env 0
     [''{keepalive}'' @ [newline]] sample_session sample_slave =
     Ret (SessionEnd, [ReplyStatus 7 ''KEEPALIVED''], [], kicked 3 sample_slave)"
    using read_line_pieces [of "''{keepalive}''" "[''{keepalive}'' @ [newline]]" "[]" MAX_REQUEST_SIZE "[]"]
    by (subst request_loop.simps)
      (simp add: pieces_of_def MAX_REQUEST_SIZE_def ReadJSON_def handle_keepalive request_loop.simps [of _ _ _ _ _ "[]"]
        read_line.simps [of _ _ "[]"] handle_request_None out_of_def sample_session_env_def,
       simp add: sample_session_def accept_conn_def)
  with pipelined_requests_dropped [of "''{keepalive}''" "''{keepalive}'' @ [newline]" sample_Config "\<lambda>_. ''''" "\<lambda>_. Some sample_keepalive"
      sample_session_env 0 "[]" sample_session sample_slave]
  show ?thesis by (simp add: MAX_REQUEST_SIZE_def)
qed

lemma session_leaves_no_trace_witness:
  "\<exists>rs ps p'. HandleConnection sample_keccak sample_acfg sample_Config (\<lambda>_. '''') (\<lambda>_. None) (\<lambda>_. None) sample_session_env
      ''10.0.0.1'' [] (accept_conn True 3) sample_proc = Ret (SessionEnd, rs, ps, p') \<and> untracked 3 ''10.0.0.1'' p'"
proof -
  let ?run = "HandleConnection sample_keccak sample_acfg sample_Config (\<lambda>_. '''') (\<lambda>_. None) (\<lambda>_. None) sample_session_env
      ''10.0.0.1'' [] (accept_conn True 3) sample_proc"
  obtain rs ps p' where r: "?run = Ret (SessionEnd, rs, ps, p')"
    by (simp add: HandleConnection_def CheckBanned_def sample_proc_def sample_slave_def empty_box_def ReadJSON_def
        read_line.simps [of _ _ "[]"] MAX_REQUEST_SIZE_def login_session_def login_phase_def sample_session_env_def Let_def
        deferred_def CleanupConnection_def after_login_def kicked_def)
  have "keeps_id sample_session_env" by (simp add: keeps_id_def sample_session_env_def)
  from session_leaves_no_trace [OF r this] r show ?thesis
    by (simp add: sample_proc_def sample_slave_def empty_box_def accept_conn_def)
qed

end
