(* ===== verification/Slave_Client.thy ===== *)
theory Slave_Client
  imports Slave_Link
begin

text \<open>
  The other direction of the link: the master's \<open>SendToConn\<close> (\<^verbatim>\<open>src/cmd/master/handler.go\<close>,
  \<^verbatim>\<open>src/cmd/master/crypto.go\<close>) and the receiving loop of the slave (\<^verbatim>\<open>src/slave/slaveClient.go\<close>),
  which reads the same frames with its own \<open>Decrypt\<close>, the one that panics on short input. The
  functions by which sessions hand their shares to the cache are here too.
\<close>

section \<open>From the master\<close>

definition master_Encrypt :: "(byte list \<Rightarrow> byte list \<Rightarrow> byte list) \<Rightarrow> byte list \<Rightarrow> byte list \<Rightarrow> byte list" where
  "master_Encrypt seal nonce msg = nonce @ seal nonce msg"

definition SendToConn ::
  "(byte list \<Rightarrow> byte list \<Rightarrow> byte list) \<Rightarrow> byte list \<Rightarrow> byte list \<Rightarrow> byte list \<Rightarrow> byte list" where
  "SendToConn seal n1 n2 data =
     master_Encrypt seal n1 (le_bytes 2 (of_nat (length data) :: u16)) @ master_Encrypt seal n2 data"

section \<open>The slave's receiver\<close>

text \<open>One connection: the messages given to \<open>OnMessage\<close> and why the loop connects again.\<close>

function client_loop ::
  "(byte list \<Rightarrow> byte list \<Rightarrow> byte list option) \<Rightarrow> byte list \<Rightarrow> (byte list list \<times> recv_end) go" where
  "client_loop opn stream =
     (if length stream < 2 + Overhead then Ret ([], StreamEnded)
      else go_bind (slave_Decrypt opn (take (2 + Overhead) stream)) (\<lambda>d. case d of
        Inl e \<Rightarrow> Ret ([], BadFrame e)
      | Inr lenBuf \<Rightarrow>
          (if length lenBuf < 2 then Ret ([], LengthPanic)
           else let len = nat (uint (lenBuf ! 0) OR push_bit 8 (uint (lenBuf ! 1)));
                    stream' = drop (2 + Overhead) stream in
             if length stream' < len + Overhead then Ret ([], StreamEnded)
             else go_bind (slave_Decrypt opn (take (len + Overhead) stream')) (\<lambda>d. case d of
               Inl e \<Rightarrow> Ret ([], BadFrame e)
             | Inr msg \<Rightarrow>
                 go_map (\<lambda>(ms, r). (msg # ms, r)) (client_loop opn (drop (len + Overhead) stream'))))))"
  by pat_completeness auto
termination
  by (relation "measure (\<lambda>(opn, stream). length stream)") (auto simp: Overhead_def)

declare client_loop.simps [simp del]

text \<open>The slave knows no packet: \<open>OnMessage\<close> reads the packet number and ignores the message.\<close>

definition slave_OnMessage :: "byte list \<Rightarrow> byte" where
  "slave_OnMessage b = fst (ReadUint8 \<lparr>Data = b, Error = None\<rparr>)"

section \<open>Shares for the cache\<close>

definition SendShare :: "cache \<Rightarrow> string \<Rightarrow> u64 \<Rightarrow> cache" where
  "SendShare c wallet diff = cacheShare c wallet diff"

definition SendShareWithWorker :: "cache \<Rightarrow> string \<Rightarrow> string \<Rightarrow> u64 \<Rightarrow> cache" where
  "SendShareWithWorker c wallet workerID diff = cacheShareWithWorker c wallet workerID diff"

section \<open>The two receivers agree\<close>

lemma SendToConn_eq: "SendToConn seal n1 n2 data = sendToConn seal True n1 n2 data"
  by (simp add: SendToConn_def sendToConn_def master_Encrypt_def Encrypt_def)

text \<open>A frame is never shorter than a nonce, so the slave's \<open>Decrypt\<close> does not panic here.\<close>

lemma slave_Decrypt_frame: "NonceSize \<le> length msg \<Longrightarrow> slave_Decrypt opn msg = Ret (Decrypt opn msg)"
  by (simp add: slave_Decrypt_def)

lemma client_loop_eq: "client_loop opn stream = Ret (HandleSlave_loop opn stream)"
proof (induction opn stream rule: HandleSlave_loop.induct)
  case (1 opn stream)
  show ?case
  proof (cases "length stream < 2 + Overhead")
    case True
    then show ?thesis by (simp add: client_loop.simps [of _ stream] HandleSlave_loop.simps [of _ stream])
  next
    case False
    then have d: "slave_Decrypt opn (take (2 + Overhead) stream) = Ret (Decrypt opn (take (2 + Overhead) stream))"
      by (intro slave_Decrypt_frame) (simp add: NonceSize_def Overhead_def)
    show ?thesis
    proof (cases "Decrypt opn (take (2 + Overhead) stream)")
      case (Inl e)
      then show ?thesis using False d
        by (simp add: client_loop.simps [of _ stream] HandleSlave_loop.simps [of _ stream])
    next
      case (Inr lenBuf)
      define len where "len = nat (uint (lenBuf ! 0) OR push_bit 8 (uint (lenBuf ! 1)))"
      define stream' where "stream' = drop (2 + Overhead) stream"
      show ?thesis
      proof (cases "length lenBuf < 2 \<or> length stream' < len + Overhead")
        case True
        then show ?thesis using False d Inr
          by (auto simp: client_loop.simps [of _ stream] HandleSlave_loop.simps [of _ stream] Let_def len_def stream'_def)
      next
        case ok: False
        then have d2: "slave_Decrypt opn (take (len + Overhead) stream') = Ret (Decrypt opn (take (len + Overhead) stream'))"
          by (intro slave_Decrypt_frame) (simp add: NonceSize_def Overhead_def)
        show ?thesis
        proof (cases "Decrypt opn (take (len + Overhead) stream')")
          case (Inl e)
          then show ?thesis using False d d2 Inr ok
            by (simp add: client_loop.simps [of _ stream] HandleSlave_loop.simps [of _ stream] Let_def len_def stream'_def)
        next
          case msg: (Inr msg)
          have "client_loop opn (drop (len + Overhead) stream') = Ret (HandleSlave_loop opn (drop (len + Overhead) stream'))"
            using "1.IH" [OF False Inr _ len_def stream'_def _ msg] ok by simp
          then show ?thesis using False d d2 Inr ok msg
            by (simp add: client_loop.simps [of _ stream] HandleSlave_loop.simps [of _ stream] Let_def len_def stream'_def
                del: drop_drop split: prod.split)
        qed
      qed
    qed
  qed
qed

text \<open>So what the master sends reaches the slave, in order.\<close>

lemma master_frames_delivered:
  assumes "aead_ok seal opn"
    and "\<forall>(n1, n2, m) \<in> set frames. length n1 = NonceSize \<and> length n2 = NonceSize \<and> length m < 65536"
  shows "client_loop opn (concat (map (\<lambda>(n1, n2, m). SendToConn seal n1 n2 m) frames))
    = Ret (map (\<lambda>(n1, n2, m). m) frames, StreamEnded)"
  by (simp only: client_loop_eq SendToConn_eq frames_read [OF assms])

end
