(* ===== verification/Pplns.thy ===== *)
theory Pplns
  imports Ledger
begin

text \<open>
  \<^verbatim>\<open>src/cmd/master/pplns.go\<close> and \<^verbatim>\<open>src/cmd/master/pplns_diff.go\<close>: the PPLNS window, which
  shares it takes, and how it is adjusted to the pool's luck.

  Go leaves the conversion of a float outside the range of \<open>uint64\<close> (infinite, NaN, negative or
  too large) to the implementation: it is the parameter \<open>conv\<close>. The configuration is an
  argument; the order of equal timestamps in a query is the parameter \<open>order\<close>.
\<close>

record MasterConfig =
  cfgPoolAddress :: string
  cfgFeeAddress :: string
  cfgUseP2Pool :: bool
  cfgAtomic :: int
  cfgFeePercent :: f64
  cfgMinWithdrawal :: f64
  cfgWithdrawalFee :: f64
  cfgPPLNSTargetShares :: u64
  cfgPPLNSMinWindow :: f64
  cfgPPLNSMaxWindow :: f64
  cfgPPLNSLuckFactor :: f64

record PPLNSManager =
  currentN :: u64
  lastBlockHeight :: u64
  poolLuckHistory :: "f64 list"

definition InitPPLNS :: "MasterConfig \<Rightarrow> PPLNSManager" where
  "InitPPLNS cfg = \<lparr>currentN = cfgPPLNSTargetShares cfg, lastBlockHeight = 0, poolLuckHistory = []\<rparr>"

section \<open>The window\<close>

definition GetPPLNSWindow ::
  "(f64 \<Rightarrow> u64) \<Rightarrow> MasterConfig \<Rightarrow> LedgerDB \<Rightarrow> PPLNSManager \<Rightarrow> (u64 \<times> PPLNSManager) res" where
  "GetPPLNSWindow conv cfg l p =
     (let window = (\<lambda>netDifficulty.
        let minWindow = u64_of_f64 conv (f64_of_u64 netDifficulty * cfgPPLNSMinWindow cfg);
            maxWindow = u64_of_f64 conv (f64_of_u64 netDifficulty * cfgPPLNSMaxWindow cfg);
            n = (if currentN p < minWindow then minWindow
                 else if maxWindow < currentN p then maxWindow
                 else currentN p)
        in Ok (n, p\<lparr>currentN := n\<rparr>))
      in case GetBlockchainInfo l of
           Ok (_, _, netDifficulty) \<Rightarrow> window netDifficulty
         | Err _ \<Rightarrow> window 1
         | Blocked \<Rightarrow> Blocked)"

text \<open>The loop of \<open>GetSharesForPPLNS\<close>, over the shares from the last index down.\<close>

fun pplns_loop :: "u64 \<Rightarrow> u64 \<Rightarrow> Share list \<Rightarrow> Share list \<Rightarrow> Share list" where
  "pplns_loop window totalDiff pplnsShares [] = pplnsShares"
| "pplns_loop window totalDiff pplnsShares (s # rest) =
     (if window \<le> totalDiff + shDifficulty s then s # pplnsShares
      else pplns_loop window (totalDiff + shDifficulty s) (s # pplnsShares) rest)"

definition GetSharesForPPLNS ::
  "(f64 \<Rightarrow> u64) \<Rightarrow> (Share list \<Rightarrow> Share list) \<Rightarrow> MasterConfig \<Rightarrow> LedgerDB \<Rightarrow> PPLNSManager
   \<Rightarrow> (Share list \<times> PPLNSManager) res" where
  "GetSharesForPPLNS conv order cfg l p =
     res_bind (GetPPLNSWindow conv cfg l p) (\<lambda>(window, p').
     res_bind (GetSharesInWindow order 0 l) (\<lambda>allShares.
       Ok (pplns_loop window 0 [] (rev allShares), p')))"

definition GetMinerSharePercentage ::
  "(f64 \<Rightarrow> u64) \<Rightarrow> (Share list \<Rightarrow> Share list) \<Rightarrow> MasterConfig \<Rightarrow> LedgerDB \<Rightarrow> PPLNSManager \<Rightarrow> string
   \<Rightarrow> (f64 \<times> PPLNSManager) res" where
  "GetMinerSharePercentage conv order cfg l p minerAddr =
     res_bind (GetSharesForPPLNS conv order cfg l p) (\<lambda>(shs, p').
       let totalDiff = sum_list (map shDifficulty shs);
           minerDiff = sum_list (map shDifficulty (filter (\<lambda>s. shMinerAddr s = minerAddr) shs))
       in if totalDiff = 0 then Ok (0, p') else Ok (f64_of_u64 minerDiff / f64_of_u64 totalDiff, p'))"

section \<open>Adjustment to luck\<close>

definition push_luck :: "f64 list \<Rightarrow> f64 \<Rightarrow> f64 list" where
  "push_luck h luck = (let h' = h @ [luck] in if 10 < length h' then drop 1 h' else h')"

definition average_luck :: "f64 list \<Rightarrow> f64" where
  "average_luck h = foldl (+) (Fin 0) h / f64_of_int (int (length h))"

definition OnBlockFoundPPLNS ::
  "(f64 \<Rightarrow> u64) \<Rightarrow> MasterConfig \<Rightarrow> LedgerDB \<Rightarrow> PPLNSManager \<Rightarrow> u64 \<Rightarrow> PPLNSManager res" where
  "OnBlockFoundPPLNS conv cfg l p height =
     (let adjust = (\<lambda>roundShares expectedShares.
        if expectedShares = 0 then p
        else let luck = f64_of_u64 expectedShares / f64_of_u64 roundShares;
                 h = push_luck (poolLuckHistory p) luck;
                 adjustment = Fin 1 + (Fin 1 - average_luck h) * cfgPPLNSLuckFactor cfg
             in p\<lparr>poolLuckHistory := h,
                  currentN := u64_of_f64 conv (f64_of_u64 (currentN p) * adjustment),
                  lastBlockHeight := height\<rparr>)
      in case GetRoundShares l of
           Blocked \<Rightarrow> Blocked
         | Err _ \<Rightarrow> Ok p
         | Ok roundShares \<Rightarrow>
             (case GetBlockchainInfo l of
                Blocked \<Rightarrow> Blocked
              | Err _ \<Rightarrow> Ok (adjust roundShares 1)
              | Ok (_, _, expectedShares) \<Rightarrow> Ok (adjust roundShares expectedShares)))"

section \<open>The window in seconds\<close>

definition pool_hashrate :: "Share list \<Rightarrow> f64" where
  "pool_hashrate shs = f64_of_u64 (sum_list (map shDifficulty shs)) / Fin 300"

text \<open>\<open>convi\<close> converts out-of-range floats to \<open>int\<close>. The error of the query is discarded: the list is
  then empty.\<close>

definition GetPplnsWindow ::
  "(f64 \<Rightarrow> u64) \<Rightarrow> (f64 \<Rightarrow> int) \<Rightarrow> (Share list \<Rightarrow> Share list) \<Rightarrow> MasterConfig \<Rightarrow> int \<Rightarrow> LedgerDB \<Rightarrow> PPLNSManager
   \<Rightarrow> (int \<times> PPLNSManager) res" where
  "GetPplnsWindow conv convi order cfg now l p =
     res_bind (GetPPLNSWindow conv cfg l p) (\<lambda>(window, p').
       let secs = (\<lambda>shs.
         let poolHashrate = pool_hashrate shs in
         if f64_eq poolHashrate (Fin 0) then Ok (21600, p')
         else let seconds = i64_of_f64 convi (f64_of_u64 window / poolHashrate) in
              Ok (if seconds < 3600 then 3600 else if 86400 < seconds then 86400 else seconds, p'))
       in case GetSharesInWindow order (now - 300) l of
            Blocked \<Rightarrow> Blocked
          | Err _ \<Rightarrow> secs []
          | Ok shs \<Rightarrow> secs shs)"

definition GetPplnsWindowLegacy ::
  "(f64 \<Rightarrow> u64) \<Rightarrow> (Share list \<Rightarrow> Share list) \<Rightarrow> u64 \<Rightarrow> int \<Rightarrow> LedgerDB \<Rightarrow> u64 res" where
  "GetPplnsWindowLegacy conv order blockTime now l =
     (let legacy = (\<lambda>netDifficulty.
        if netDifficulty = 0 then Ok (6 * 3600)
        else case GetSharesInWindow order (now - 300) l of
               Blocked \<Rightarrow> Blocked
             | Err _ \<Rightarrow> Ok (6 * 3600)
             | Ok shs \<Rightarrow>
                 let netHashrate = f64_of_u64 netDifficulty / f64_of_u64 blockTime;
                     poolHashrate = pool_hashrate shs in
                 if f64_eq poolHashrate (Fin 0) then Ok (6 * 3600)
                 else let blockFoundInterval = netHashrate / poolHashrate * f64_of_u64 blockTime * Fin 2 in
                   if Fin 21600 < blockFoundInterval then Ok (6 * 3600)
                   else if blockFoundInterval < f64_of_u64 blockTime * Fin 2 then Ok (blockTime * 2)
                   else Ok (u64_of_f64 conv blockFoundInterval))
      in case GetBlockchainInfo l of
           Blocked \<Rightarrow> Blocked
         | Err _ \<Rightarrow> legacy 1
         | Ok (_, _, netDifficulty) \<Rightarrow> legacy netDifficulty)"

section \<open>Which shares count\<close>

lemma pplns_loop_take:
  "\<exists>k \<le> length xs. pplns_loop w t acc xs = rev (take k xs) @ acc \<and>
     (xs \<noteq> [] \<longrightarrow> 0 < k) \<and>
     (k = length xs \<or> w \<le> t + sum_list (map shDifficulty (take k xs))) \<and>
     (\<forall>j < k. 0 < j \<longrightarrow> t + sum_list (map shDifficulty (take j xs)) < w)"
proof (induction w t acc xs rule: pplns_loop.induct)
  case (2 w t acc s rest)
  show ?case
  proof (cases "w \<le> t + shDifficulty s")
    case True
    then show ?thesis by (intro exI [of _ 1]) auto
  next
    case False
    then obtain k where k: "k \<le> length rest"
      "pplns_loop w (t + shDifficulty s) (s # acc) rest = rev (take k rest) @ s # acc"
      "k = length rest \<or> w \<le> t + shDifficulty s + sum_list (map shDifficulty (take k rest))"
      "\<forall>j < k. 0 < j \<longrightarrow> t + shDifficulty s + sum_list (map shDifficulty (take j rest)) < w"
      using 2 by auto
    have "t + sum_list (map shDifficulty (take j (s # rest))) < w" if "j < Suc k" "0 < j" for j
      using that k(4) False by (cases j; cases "j - 1") (auto simp: add.assoc not_le)
    with k False show ?thesis by (intro exI [of _ "Suc k"]) (auto simp: add.assoc)
  qed
qed auto


text \<open>
  C34: The shares a block is paid on. Although the comments ask for the newest shares, the query
  returns the newest first and the loop starts at the last index, so the shares taken are a
  suffix of the result: the oldest ones. Every share left out is at least as new as every share
  taken; shares are left out only once the difficulties taken reach the window, and no share
  is taken after that point.
\<close>
theorem pplns_takes_oldest:
  assumes "orders_by (\<lambda>s. - shTimestamp s) order"
    and "GetSharesForPPLNS conv order cfg l p = Ok (taken, p')"
  shows "\<exists>left. order (filter (\<lambda>s. 0 \<le> shTimestamp s) (shares l)) = left @ taken \<and>
    (\<forall>s \<in> set taken. \<forall>t \<in> set left. shTimestamp s \<le> shTimestamp t) \<and>
    (left \<noteq> [] \<longrightarrow> currentN p' \<le> sum_list (map shDifficulty taken)) \<and>
    (\<forall>k. 0 < k \<longrightarrow> k < length taken \<longrightarrow> sum_list (map shDifficulty (drop k taken)) < currentN p')"
proof -
  let ?all = "order (filter (\<lambda>s. 0 \<le> shTimestamp s) (shares l))"
  obtain w where w: "GetPPLNSWindow conv cfg l p = Ok (w, p')" and t: "taken = pplns_loop w 0 [] (rev ?all)"
    using assms(2)
    by (cases "GetPPLNSWindow conv cfg l p"; cases "GetSharesInWindow order 0 l")
      (auto simp: GetSharesForPPLNS_def GetSharesInWindow_def query_def split: if_splits prod.splits)
  have wp: "currentN p' = w"
    using w by (auto simp: GetPPLNSWindow_def Let_def split: res.splits prod.splits)
  obtain k where k: "k \<le> length ?all" "taken = rev (take k (rev ?all))"
    "k = length ?all \<or> w \<le> sum_list (map shDifficulty (take k (rev ?all)))"
    "\<forall>j < k. 0 < j \<longrightarrow> sum_list (map shDifficulty (take j (rev ?all))) < w"
    using pplns_loop_take [of "rev ?all" w 0 "[]"] t by auto
  define left where "left = take (length ?all - k) ?all"
  have split: "?all = left @ taken" using k(1,2) by (simp add: left_def take_rev)
  have len: "length taken = k" using k(1,2) by simp
  have rv: "take j (rev ?all) = rev (drop (k - j) taken)" if "j \<le> k" for j
    using that len by (simp add: split take_rev)
  have sums: "sum_list (map shDifficulty (rev xs)) = sum_list (map shDifficulty xs)" for xs
    by (metis rev_map sum_list_rev)
  have "sorted (map (\<lambda>s. - shTimestamp s) (left @ taken))"
    using assms(1) by (simp add: orders_by_def flip: split)
  then have old: "\<forall>s \<in> set taken. \<forall>t \<in> set left. shTimestamp s \<le> shTimestamp t"
    by (auto simp: sorted_append)
  have reach: "left \<noteq> [] \<longrightarrow> w \<le> sum_list (map shDifficulty taken)"
  proof
    assume "left \<noteq> []"
    then have "k \<noteq> length ?all" by (auto simp: left_def)
    with k(3) rv [of k] show "w \<le> sum_list (map shDifficulty taken)" by (simp add: sums)
  qed
  have early: "sum_list (map shDifficulty (drop i taken)) < w" if "0 < i" "i < length taken" for i
    using k(4) [rule_format, of "k - i"] rv [of "k - i"] that len by (simp add: sums)
  show ?thesis using split old reach early unfolding wp by blast
qed

definition sample_share :: "u64 \<Rightarrow> int \<Rightarrow> Share" where
  "sample_share i t = \<lparr>shID = i, shBlockHeight = None, shMinerAddr = ''m'', shWorkerID = ''w'', shDifficulty = 5, shTimestamp = t\<rparr>"

definition sample_cfg :: MasterConfig where
  "sample_cfg = \<lparr>cfgPoolAddress = ''P'', cfgFeeAddress = ''F'', cfgUseP2Pool = False, cfgAtomic = 8, cfgFeePercent = Fin 1,
     cfgMinWithdrawal = Fin 1, cfgWithdrawalFee = Fin 0, cfgPPLNSTargetShares = 4, cfgPPLNSMinWindow = Fin 2,
     cfgPPLNSMaxWindow = Fin 4, cfgPPLNSLuckFactor = Fin (1 / 2)\<rparr>"

text \<open>A stable sort by descending time is an order the database may use.\<close>

lemma sort_key_orders: "orders_by key (sort_key key)"
  by (simp add: orders_by_def)

lemma orders_by_mem: "orders_by key order \<Longrightarrow> set (order xs) = set xs"
  by (metis orders_by_def set_mset_mset)

lemma sample_window:
  "u64_of_f64 conv (f64_of_u64 1 * Fin 2) = 2 \<and> u64_of_f64 conv (f64_of_u64 1 * Fin 4) = 4"
proof -
  have "f64_of_u64 1 = Fin 1" by (simp add: f64_of_u64_exact)
  moreover have "f64_round 2 = Fin 2" "f64_round 4 = Fin 4"
    using f64_of_u64_exact [of 2] f64_of_u64_exact [of 4] by (simp_all add: f64_of_u64_def)
  ultimately show ?thesis by (simp add: times_f64_def u64_of_f64_def rat_trunc_def)
qed


definition sample_shares :: LedgerDB where
  "sample_shares = (NewLedgerDB schema_full)\<lparr>shares := [sample_share 1 100, sample_share 2 200]\<rparr>"

lemma sample_pplns:
  "GetSharesForPPLNS conv (sort_key (\<lambda>s. - shTimestamp s)) sample_cfg sample_shares (InitPPLNS sample_cfg)
     = Ok ([sample_share 1 100], InitPPLNS sample_cfg)"
  using sample_window [of conv]
  by (simp add: GetSharesForPPLNS_def GetPPLNSWindow_def GetBlockchainInfo_def GetSharesInWindow_def query_def
      sample_shares_def NewLedgerDB_def sample_cfg_def InitPPLNS_def sample_share_def)

lemma pplns_takes_oldest_witness:
  "\<exists>left. sort_key (\<lambda>s. - shTimestamp s) (filter (\<lambda>s. 0 \<le> shTimestamp s) (shares sample_shares))
     = left @ [sample_share 1 100] \<and> (\<forall>t \<in> set left. shTimestamp (sample_share 1 100) \<le> shTimestamp t)"
  using pplns_takes_oldest [OF sort_key_orders sample_pplns] by auto

text \<open>
  The window is clamped to the bounds derived from the network difficulty (1 if the chain
  state cannot be read): if the lower bound does not exceed the upper one, the window lies
  between them, and it equals the manager's current value whenever that already does.
\<close>
theorem GetPPLNSWindow_bounds:
  assumes "GetPPLNSWindow conv cfg l p = Ok (w, p')"
    and "GetBlockchainInfo l = Ok (h, r, d)"
    and "lo = u64_of_f64 conv (f64_of_u64 d * cfgPPLNSMinWindow cfg)"
    and "hi = u64_of_f64 conv (f64_of_u64 d * cfgPPLNSMaxWindow cfg)" and "lo \<le> hi"
  shows "lo \<le> w \<and> w \<le> hi \<and> p' = p\<lparr>currentN := w\<rparr> \<and> (lo \<le> currentN p \<and> currentN p \<le> hi \<longrightarrow> w = currentN p)"
proof -
  have "w = (if currentN p < lo then lo else if hi < currentN p then hi else currentN p)" "p' = p\<lparr>currentN := w\<rparr>"
    using assms(1,2) by (auto simp: GetPPLNSWindow_def Let_def assms(3,4))
  then show ?thesis using assms(5) by auto
qed

lemma GetPPLNSWindow_bounds_witness:
  "GetPPLNSWindow (\<lambda>_. 0) sample_cfg sample_shares ((InitPPLNS sample_cfg)\<lparr>currentN := 9\<rparr>)
     = Ok (4, (InitPPLNS sample_cfg)\<lparr>currentN := 4\<rparr>) \<and> (2 :: u64) \<le> 4"
proof -
  let ?p = "(InitPPLNS sample_cfg)\<lparr>currentN := 9\<rparr>"
  have i: "GetBlockchainInfo sample_shares = Ok (0, 0, 1)"
    by (simp add: GetBlockchainInfo_def query_def sample_shares_def NewLedgerDB_def)
  have g: "GetPPLNSWindow (\<lambda>_. 0) sample_cfg sample_shares ?p = Ok (4, (InitPPLNS sample_cfg)\<lparr>currentN := 4\<rparr>)"
    using sample_window [of "\<lambda>_. 0"] by (simp add: GetPPLNSWindow_def i sample_cfg_def InitPPLNS_def)
  have lo: "2 = u64_of_f64 (\<lambda>_. 0) (f64_of_u64 1 * cfgPPLNSMinWindow sample_cfg)"
    and hi: "4 = u64_of_f64 (\<lambda>_. 0) (f64_of_u64 1 * cfgPPLNSMaxWindow sample_cfg)"
    by (simp_all add: sample_cfg_def sample_window)
  have "(2 :: u64) \<le> 4" by simp
  from g GetPPLNSWindow_bounds [OF g i lo hi this] show ?thesis by blast
qed

section \<open>The luck history\<close>

text \<open>A luck is a quotient of counts, so it is a non-negative number or infinite.\<close>

definition luck_ok :: "f64 \<Rightarrow> bool" where
  "luck_ok x = (case x of Fin q \<Rightarrow> 0 \<le> q | PInf \<Rightarrow> True | _ \<Rightarrow> False)"

definition pplns_wf :: "PPLNSManager \<Rightarrow> bool" where
  "pplns_wf p = (length (poolLuckHistory p) \<le> 10 \<and> list_all luck_ok (poolLuckHistory p))"

lemma f64_round_ok: "0 \<le> q \<Longrightarrow> luck_ok (f64_round q)"
proof -
  assume q: "0 \<le> q"
  have "0 < pow2 1024" by simp
  with rnd_nonneg [OF q, of 53 "- 1074"] show "luck_ok (f64_round q)"
    by (auto simp: f64_round_def fround_def luck_ok_def Let_def)
qed

lemma luck_ok_add: "luck_ok x \<Longrightarrow> luck_ok y \<Longrightarrow> luck_ok (x + y)"
  by (cases x; cases y) (auto simp: plus_f64_def luck_ok_def [of PInf] luck_ok_def [of "Fin _"] luck_ok_def [of NInf]
      luck_ok_def [of NaN] f64_round_ok)

lemma luck_of_counts: "e \<noteq> 0 \<Longrightarrow> luck_ok (f64_of_u64 e / f64_of_u64 r)"
proof -
  assume e: "e \<noteq> 0"
  then have "1 \<le> rnd64 (of_nat (unat e))" by (intro rnd64_of_nat_ge1) (simp add: unat_gt_0)
  moreover have "0 \<le> rnd64 (of_nat (unat r))" by (rule rnd_nonneg) simp
  ultimately show ?thesis
    by (simp add: f64_of_u64_Fin divide_f64_def f64_inf_def luck_ok_def [of PInf] f64_round_ok)
qed

lemma list_all_drop: "list_all P xs \<Longrightarrow> list_all P (drop n xs)"
  by (auto simp: list_all_iff dest: in_set_dropD)

lemma push_luck_wf:
  "length h \<le> 10 \<Longrightarrow> list_all luck_ok h \<Longrightarrow> luck_ok x \<Longrightarrow>
   length (push_luck h x) \<le> 10 \<and> list_all luck_ok (push_luck h x)"
  using list_all_drop [of luck_ok "h @ [x]" 1] by (simp add: push_luck_def Let_def) arith

lemma pplns_wf_block:
  assumes "pplns_wf p" "OnBlockFoundPPLNS conv cfg l p h = Ok p'"
  shows "pplns_wf p'"
  using assms push_luck_wf [of "poolLuckHistory p" "f64_of_u64 e / f64_of_u64 r" for e r] luck_of_counts
  by (auto simp: OnBlockFoundPPLNS_def pplns_wf_def Let_def split: res.splits prod.splits if_splits)


lemma OnBlockFoundPPLNS_total:
  assumes "\<not> txOpen l"
  shows "\<exists>p'. OnBlockFoundPPLNS conv cfg l p h = Ok p'"
proof -
  have "GetRoundShares l \<noteq> Blocked" "GetBlockchainInfo l \<noteq> Blocked"
    using assms by (simp_all add: GetRoundShares_def GetBlockchainInfo_def query_def sql_sum_def Let_def)
  then show ?thesis
    by (cases "GetRoundShares l"; cases "GetBlockchainInfo l") (auto simp: OnBlockFoundPPLNS_def Let_def)
qed

lemma luck_sum: "luck_ok s \<Longrightarrow> list_all luck_ok h \<Longrightarrow> luck_ok (foldl (+) s h)"
  by (induction h arbitrary: s) (auto intro: luck_ok_add)

lemma PInf_add: "luck_ok s \<Longrightarrow> s + PInf = PInf"
  by (cases s) (auto simp: plus_f64_def luck_ok_def)

lemma average_luck_PInf:
  assumes "list_all luck_ok h" "length h \<le> 10"
  shows "average_luck (push_luck h PInf) = PInf"
proof -
  let ?h = "if 10 < length (h @ [PInf]) then drop 1 h else h"
  have p: "push_luck h PInf = ?h @ [PInf]" by (cases h) (auto simp: push_luck_def Let_def)
  have "luck_ok (foldl (+) (Fin 0) ?h)"
    by (rule luck_sum) (use assms list_all_drop [of luck_ok h 1] in \<open>auto simp: luck_ok_def\<close>)
  then have s: "foldl (+) (Fin 0) (push_luck h PInf) = PInf" by (simp add: p PInf_add)
  have "0 < length (push_luck h PInf)" by (simp add: p)
  moreover have "length (push_luck h PInf) \<le> 2 ^ 53" using assms(2) by (simp add: push_luck_def Let_def) arith
  ultimately have "f64_of_int (int (length (push_luck h PInf))) = Fin (of_nat (length (push_luck h PInf)))"
    using f64_of_u64_exact [of "of_nat (length (push_luck h PInf))"]
    by (simp add: f64_of_u64_def f64_of_int_def)
  with s \<open>0 < length (push_luck h PInf)\<close> show ?thesis
    by (simp add: average_luck_def divide_f64_def f64_inf_def)
qed

text \<open>
  When no share was submitted since the last completed block, the luck of the round is a
  division by zero and therefore infinite, the adjustment is minus infinity for every positive
  luck factor, and the new window is what the implementation makes of converting minus infinity
  to an unsigned integer; the history stays well-formed.
\<close>
theorem empty_round_breaks_window:
  assumes "pplns_wf p" "GetRoundShares l = Ok 0" "GetBlockchainInfo l = Ok (h, r, d)" "d \<noteq> 0"
    and "cfgPPLNSLuckFactor cfg = Fin f" "0 < f" "currentN p \<noteq> 0"
  shows "\<exists>p'. OnBlockFoundPPLNS conv cfg l p height = Ok p' \<and> currentN p' = conv NInf \<and> pplns_wf p'"
proof -
  have luck: "f64_of_u64 d / f64_of_u64 0 = PInf"
  proof -
    have "1 \<le> rnd64 (of_nat (unat d))" using assms(4) by (intro rnd64_of_nat_ge1) (simp add: unat_gt_0)
    then show ?thesis by (simp add: f64_of_u64_Fin divide_f64_def f64_inf_def)
  qed
  have avg: "average_luck (push_luck (poolLuckHistory p) PInf) = PInf"
    using assms(1) by (intro average_luck_PInf) (simp_all add: pplns_wf_def)
  have "1 \<le> rnd64 (of_nat (unat (currentN p)))" using assms(7) by (intro rnd64_of_nat_ge1) (simp add: unat_gt_0)
  then have n: "u64_of_f64 conv (f64_of_u64 (currentN p) * (Fin 1 + (Fin 1 - PInf) * Fin f)) = conv NInf"
    using assms(6) by (simp add: f64_ops f64_of_u64_Fin f64_inf_def u64_of_f64_def)
  have "OnBlockFoundPPLNS conv cfg l p height = Ok (p\<lparr>poolLuckHistory := push_luck (poolLuckHistory p) PInf,
      currentN := conv NInf, lastBlockHeight := height\<rparr>)"
    by (simp add: OnBlockFoundPPLNS_def assms(2-5) luck avg n Let_def)
  then show ?thesis using pplns_wf_block [OF assms(1)] by auto
qed

lemma empty_round_breaks_window_witness:
  "\<exists>p'. OnBlockFoundPPLNS (\<lambda>_. 9223372036854775808) sample_cfg (NewLedgerDB schema_full) (InitPPLNS sample_cfg) 5 = Ok p' \<and>
     currentN p' = 9223372036854775808"
proof -
  have "pplns_wf (InitPPLNS sample_cfg)" by (simp add: pplns_wf_def InitPPLNS_def)
  moreover have "GetRoundShares (NewLedgerDB schema_full) = Ok 0"
    by (simp add: GetRoundShares_def query_def NewLedgerDB_def sql_sum_def)
  moreover have "GetBlockchainInfo (NewLedgerDB schema_full) = Ok (0, 0, 1)"
    by (simp add: GetBlockchainInfo_def query_def NewLedgerDB_def)
  moreover have "cfgPPLNSLuckFactor sample_cfg = Fin (1 / 2)" "currentN (InitPPLNS sample_cfg) \<noteq> 0"
    by (simp_all add: sample_cfg_def InitPPLNS_def)
  ultimately show ?thesis
    using empty_round_breaks_window [of "InitPPLNS sample_cfg" "NewLedgerDB schema_full" 0 0 1 sample_cfg "1 / 2"
        "\<lambda>_. 9223372036854775808" 5] by auto
qed

end
