(* ===== verification/Rewards.thy ===== *)
theory Rewards
  imports Go_Float
begin

text \<open>
  The arithmetic both distribution routines share: a miner with the difficulty \<open>d\<close> of a total
  \<open>D\<close> is paid \<open>uint64(float64(amount) * (float64(d) / float64(D)))\<close>
  (\<^verbatim>\<open>src/cmd/master/master.go\<close>, \<^verbatim>\<open>src/cmd/master/updater.go\<close>). Three roundings happen on the
  way; the lemmas bound what they do to the sum over all miners.
\<close>

definition share_of_total :: "u64 \<Rightarrow> u64 \<Rightarrow> f64" where
  "share_of_total d D = f64_of_u64 d / f64_of_u64 D"

definition part_reward :: "(f64 \<Rightarrow> u64) \<Rightarrow> u64 \<Rightarrow> u64 \<Rightarrow> u64 \<Rightarrow> u64" where
  "part_reward conv amount d D = u64_of_f64 conv (f64_of_u64 amount * share_of_total d D)"

section \<open>Bounds of one quotient\<close>

context rounding
begin

lemma rd_ratio_ge:
  assumes d: "d = 0 \<or> tiny \<le> d" "0 \<le> d" and D: "tiny \<le> D" "0 < D" "0 < rd D"
    and q: "d = 0 \<or> tiny \<le> rd d / rd D"
  shows "d / D * ((1 - eps) ^ 2 / (1 + eps)) \<le> rd (rd d / rd D)"
proof -
  have Dle: "rd D \<le> D * (1 + eps)" using rd_le D by simp
  have "d / D * ((1 - eps) ^ 2 / (1 + eps)) = d * (1 - eps) / (D * (1 + eps)) * (1 - eps)"
    using D eps_range by (simp add: field_simps power2_eq_square)
  also have "d * (1 - eps) / (D * (1 + eps)) \<le> rd d / rd D"
    using rd_ge [OF d(1)] Dle D d(2) eps_range rd_nonneg [OF d(2)] by (intro frac_le) auto
  then have "d * (1 - eps) / (D * (1 + eps)) * (1 - eps) \<le> rd d / rd D * (1 - eps)"
    using eps_range by (intro mult_right_mono) auto
  also have "\<dots> \<le> rd (rd d / rd D)" using q rd_0 by (intro rd_ge) auto
  finally show ?thesis .
qed

end

lemma tiny64_le_1: "tiny64 \<le> 1"
  by (simp add: tiny64_def)

lemma nat_tiny: "of_nat n = (0 :: rat) \<or> tiny64 \<le> of_nat n"
proof (cases n)
  case (Suc m)
  have "1 \<le> (of_nat n :: rat)" by (simp add: Suc)
  with tiny64_le_1 show ?thesis by linarith
qed simp

lemma rnd64_nat_le:
  assumes "n < 2 ^ 64"
  shows "rnd64 (of_nat n) \<le> 2 ^ 64"
  using rnd64_u64_le [of "of_nat n"] assms by (simp add: unat_of_nat)

lemma rnd_quot_ge:
  assumes "0 < D" "D < 2 ^ 64" "0 < d"
  shows "1 / 2 ^ 64 \<le> rnd64 (of_nat d) / rnd64 (of_nat D)"
  using rnd64_nat_le [OF assms(2)] rnd64_of_nat_ge1 [OF assms(1)] rnd64_of_nat_ge1 [OF assms(3)]
  by (intro frac_le) auto

lemma ratio64_0 [simp]: "ratio64 0 D = 0"
  by (simp add: ratio64_def)

lemma ratio64_pos:
  assumes "0 < D" "D < 2 ^ 64" "0 < d"
  shows "1 / 2 ^ 64 \<le> ratio64 d D"
proof -
  have "rnd64 (pow2 (- 64)) \<le> ratio64 d D"
    unfolding ratio64_def using rnd_quot_ge [OF assms] by (intro r64.rd_mono) (simp add: pow2_def)
  moreover have "rnd64 (pow2 (- 64)) = pow2 (- 64)" by (rule rnd64_pow2) simp
  ultimately show ?thesis by (simp add: pow2_def)
qed

lemma ratio64_nonneg: "0 \<le> ratio64 d D"
  unfolding ratio64_def by (intro r64.rd_nonneg divide_nonneg_nonneg) (auto intro: r64.rd_nonneg)

lemma ratio64_le_1:
  assumes "d \<le> D" "0 < D"
  shows "ratio64 d D \<le> 1"
proof -
  have "rnd64 (of_nat d) \<le> rnd64 (of_nat D)" using assms by (intro r64.rd_mono) simp
  then have "rnd64 (of_nat d) / rnd64 (of_nat D) \<le> 1"
    using rnd64_of_nat_ge1 [OF assms(2)] by simp
  then have "ratio64 d D \<le> rnd64 1" unfolding ratio64_def by (rule r64.rd_mono)
  then show ?thesis using rnd64_of_nat [of 1] by simp
qed

lemma ratio64_ge:
  assumes "0 < D" "D < 2 ^ 64"
  shows "of_nat d / of_nat D * ((1 - eps64) ^ 2 / (1 + eps64)) \<le> ratio64 d D"
  unfolding ratio64_def
proof (rule r64.rd_ratio_ge)
  show "tiny64 \<le> (of_nat D :: rat)" using nat_tiny [of D] assms by auto
  show "0 < rnd64 (of_nat D)" using rnd64_of_nat_ge1 [OF assms(1)] by linarith
  have t: "tiny64 \<le> 1 / 2 ^ 64" by (simp add: tiny64_def)
  show "of_nat d = 0 \<or> tiny64 \<le> rnd64 (of_nat d) / rnd64 (of_nat D)"
    using order_trans [OF t rnd_quot_ge [OF assms, of d]] by (cases "d = 0") simp_all
qed (use assms nat_tiny in auto)

section \<open>One reward\<close>

lemma rat_trunc_nonneg: "0 \<le> q \<Longrightarrow> rat_trunc q = \<lfloor>q\<rfloor>"
  by (simp add: rat_trunc_def)

lemma product_le:
  assumes "a \<le> 2 ^ 53" "0 \<le> x" "x \<le> 1"
  shows "rnd64 (of_nat a * x) \<le> of_nat a"
proof -
  have "of_nat a * x \<le> of_nat a * 1" using assms(3) by (intro mult_left_mono) auto
  then have "rnd64 (of_nat a * x) \<le> rnd64 (of_nat a)" by (intro r64.rd_mono) simp
  then show ?thesis by (simp add: rnd64_of_nat [OF assms(1)])
qed

lemma u64_of_product:
  assumes a: "unat a \<le> 2 ^ 53" and x: "0 \<le> x" "x \<le> 1"
  shows "int (unat (u64_of_f64 conv (f64_of_u64 a * Fin x))) = \<lfloor>rnd64 (of_nat (unat a) * x)\<rfloor>"
proof -
  let ?q = "of_nat (unat a) * x"
  have le: "rnd64 ?q \<le> of_nat (unat a)" by (rule product_le [OF a x])
  have nn: "0 \<le> ?q" using x by simp
  have "?q \<le> of_nat (unat a) * 1" using x by (intro mult_left_mono) auto
  then have big: "?q \<le> pow2 1000" using of_nat_u64_lt [of a] pow2_64_le by linarith
  have m: "f64_of_u64 a * Fin x = Fin (rnd64 ?q)"
    using f64_round_Fin [OF nn big] by (simp add: f64_of_u64_exact [OF a] times_f64_def)
  have r: "0 \<le> rnd64 ?q" by (rule r64.rd_nonneg [OF nn])
  have "\<lfloor>rnd64 ?q\<rfloor> \<le> int (unat a)" using le by (simp add: floor_le_iff)
  moreover have "int (unat a) < 2 ^ 64" using a by simp
  ultimately have hi: "\<lfloor>rnd64 ?q\<rfloor> < 2 ^ 64" by (rule le_less_trans)
  have "u64_of_f64 conv (f64_of_u64 a * Fin x) = of_int \<lfloor>rnd64 ?q\<rfloor>"
    unfolding m u64_of_f64_def f64.case rat_trunc_nonneg [OF r] using r hi by (simp only: zero_le_floor if_True simp_thms)
  moreover have "0 \<le> \<lfloor>rnd64 ?q\<rfloor>" using r by simp
  ultimately show ?thesis using unat_of_int_u64 [OF _ hi] by metis
qed

lemma part_reward_floor:
  assumes "unat a \<le> 2 ^ 53" "unat d \<le> unat D" "D \<noteq> 0"
  shows "int (unat (part_reward conv a d D)) = \<lfloor>rnd64 (of_nat (unat a) * ratio64 (unat d) (unat D))\<rfloor>"
  unfolding part_reward_def share_of_total_def f64_ratio [OF assms(3)]
  using assms by (intro u64_of_product ratio64_nonneg ratio64_le_1) (auto simp: unat_gt_0)


section \<open>The sum of all rewards\<close>

lemma eps_upper: "(1 + eps64) ^ 2 / (1 - eps64) * (1 + eps64) \<le> 1 + 5 * eps64"
  by (simp add: eps64_def power2_eq_square)

lemma eps_lower: "1 - 5 * eps64 \<le> (1 - eps64) ^ 2 / (1 + eps64) * (1 - eps64)"
  by (simp add: eps64_def power2_eq_square)

lemma product_tiny:
  assumes "0 < D" "D < 2 ^ 64"
  shows "of_nat a * ratio64 d D = 0 \<or> tiny64 \<le> of_nat a * ratio64 d D"
proof (cases "a = 0 \<or> d = 0")
  case False
  have "1 * (1 / 2 ^ 64) \<le> of_nat a * ratio64 d D"
    using False ratio64_pos [OF assms, of d] by (intro mult_mono) auto
  moreover have "tiny64 \<le> 1 * (1 / 2 ^ 64)" by (simp add: tiny64_def)
  ultimately show ?thesis by linarith
qed auto

text \<open>One reward against the exact proportional amount.\<close>

lemma reward_upper:
  assumes "0 < D" "D < 2 ^ 64" "d \<le> D"
  shows "rnd64 (of_nat a * ratio64 d D) \<le> of_nat a * (of_nat d / of_nat D) * (1 + 5 * eps64)"
proof -
  have e: "0 < 1 + eps64" by (simp add: eps64_def)
  have "rnd64 (of_nat a * ratio64 d D) \<le> of_nat a * ratio64 d D * (1 + eps64)"
    by (rule r64.rd_le [OF product_tiny [OF assms(1,2)]])
  also have "\<dots> \<le> of_nat a * (of_nat d / of_nat D * ((1 + eps64) ^ 2 / (1 - eps64))) * (1 + eps64)"
    using assms e by (intro mult_right_mono mult_left_mono ratio64_le) auto
  also have "\<dots> = of_nat a * (of_nat d / of_nat D) * ((1 + eps64) ^ 2 / (1 - eps64) * (1 + eps64))"
    by simp
  also have "\<dots> \<le> of_nat a * (of_nat d / of_nat D) * (1 + 5 * eps64)"
    by (intro mult_left_mono eps_upper) auto
  finally show ?thesis .
qed

lemma reward_lower:
  assumes "0 < D" "D < 2 ^ 64"
  shows "of_nat a * (of_nat d / of_nat D) * (1 - 5 * eps64) \<le> rnd64 (of_nat a * ratio64 d D)"
proof -
  have e: "0 \<le> 1 - eps64" by (simp add: eps64_def)
  have "of_nat a * (of_nat d / of_nat D) * (1 - 5 * eps64)
      \<le> of_nat a * (of_nat d / of_nat D) * ((1 - eps64) ^ 2 / (1 + eps64) * (1 - eps64))"
    by (intro mult_left_mono eps_lower) auto
  also have "\<dots> = of_nat a * (of_nat d / of_nat D * ((1 - eps64) ^ 2 / (1 + eps64))) * (1 - eps64)"
    by simp
  also have "\<dots> \<le> of_nat a * ratio64 d D * (1 - eps64)"
    using assms e by (intro mult_right_mono mult_left_mono ratio64_ge) auto
  also have "\<dots> \<le> rnd64 (of_nat a * ratio64 d D)"
    by (rule r64.rd_ge [OF product_tiny [OF assms]])
  finally show ?thesis .
qed

lemma sum_list_proportional:
  "(\<Sum>d \<leftarrow> ds. of_nat a * (of_nat d / of_nat D) * c) = of_nat a * (of_nat (sum_list ds) / of_nat D) * (c :: rat)"
  by (induction ds) (auto simp: field_simps add_divide_distrib)

lemma rewards_sum:
  assumes D: "D = sum_list ds" "0 < D" "D < 2 ^ 64" and a: "a \<le> 2 ^ 50"
  defines "S \<equiv> (\<Sum>d \<leftarrow> ds. \<lfloor>rnd64 (of_nat a * ratio64 d D)\<rfloor>)"
  shows "S \<le> int a" "int a - int (length ds) \<le> S"
proof -
  have le: "d \<le> D" if "d \<in> set ds" for d using that D(1) member_le_sum_list [of d ds] by simp
  have small: "(of_nat a :: rat) * (5 * eps64) < 1"
  proof -
    have "(of_nat a :: rat) \<le> of_nat (2 ^ 50)" using a by (simp only: of_nat_le_iff)
    then have "(of_nat a :: rat) * (5 * eps64) \<le> 2 ^ 50 * (5 * eps64)"
      by (intro mult_right_mono) (simp_all add: eps64_def)
    also have "\<dots> < 1" by (simp add: eps64_def)
    finally show ?thesis .
  qed
  have one: "(of_nat (sum_list ds) / of_nat D :: rat) = 1"
    using D(2) by (simp flip: D(1))
  have "of_int S \<le> (\<Sum>d \<leftarrow> ds. rnd64 (of_nat a * ratio64 d D))"
    unfolding S_def by (induction ds) (auto intro: add_mono)
  also have "\<dots> \<le> (\<Sum>d \<leftarrow> ds. of_nat a * (of_nat d / of_nat D) * (1 + 5 * eps64))"
    using reward_upper [OF D(2,3) le] by (intro sum_list_mono) auto
  also have "\<dots> = of_nat a + of_nat a * (5 * eps64)"
    unfolding sum_list_proportional one by (simp add: algebra_simps)
  finally have "of_int S < (of_int (int a + 1) :: rat)" using small by simp
  then show "S \<le> int a" by (simp only: of_int_less_iff)
  have "(\<Sum>d \<leftarrow> ds. of_nat a * (of_nat d / of_nat D) * (1 - 5 * eps64)) \<le> (\<Sum>d \<leftarrow> ds. rnd64 (of_nat a * ratio64 d D))"
    using reward_lower [OF D(2,3)] by (intro sum_list_mono) auto
  also have "\<dots> \<le> (\<Sum>d \<leftarrow> ds. of_int \<lfloor>rnd64 (of_nat a * ratio64 d D)\<rfloor> + 1)"
    by (intro sum_list_mono) linarith
  also have "\<dots> = of_int S + of_nat (length ds)"
    unfolding S_def by (induction ds) auto
  finally have "of_nat a - of_nat a * (5 * eps64) \<le> of_int S + (of_nat (length ds) :: rat)"
    unfolding sum_list_proportional one by (simp add: algebra_simps)
  then have "(of_int (int a - int (length ds) - 1) :: rat) < of_int S" using small by simp
  then show "int a - int (length ds) \<le> S" by (simp only: of_int_less_iff)
qed

end
