(* ===== verification/Master.thy ===== *)
theory Master
  imports Slave_Link Address Pplns Rewards
begin

text \<open>
  \<^verbatim>\<open>src/cmd/master/master.go\<close>, \<^verbatim>\<open>src/cmd/master/blockfound.go\<close> and the packet handler of
  \<^verbatim>\<open>src/cmd/master/handler.go\<close>: what the master does with shares and blocks the slaves report,
  and the distribution of a block reward.

  A routine that logs an error and goes on is a routine that returns \<open>Ok\<close>; it does not return
  (\<open>Blocked\<close>) when one of its statements waits for the connection for ever. The goroutine that
  distributes a reward 30 seconds after a block is an entry of \<open>scheduled\<close>.
\<close>

section \<open>Shares\<close>

definition new_share :: "int \<Rightarrow> string \<Rightarrow> string \<Rightarrow> u64 \<Rightarrow> Share" where
  "new_share now wallet workerID diff =
     \<lparr>shID = 0, shBlockHeight = None, shMinerAddr = wallet, shWorkerID = workerID, shDifficulty = diff, shTimestamp = now\<rparr>"

fun add_shares :: "nat \<Rightarrow> Share \<Rightarrow> LedgerDB \<Rightarrow> unit res \<times> LedgerDB" where
  "add_shares 0 share l = (Ok (), l)"
| "add_shares (Suc n) share l =
     (case AddShare share l of
        (Blocked, l') \<Rightarrow> (Blocked, l')
      | (_, l') \<Rightarrow> add_shares n share l')"

definition OnShareFound ::
  "(byte list \<Rightarrow> byte list) \<Rightarrow> addr_config \<Rightarrow> MasterConfig \<Rightarrow> int \<Rightarrow> string \<Rightarrow> u64 \<Rightarrow> u32 \<Rightarrow> string \<Rightarrow> LedgerDB
   \<Rightarrow> (unit res \<times> LedgerDB) go" where
  "OnShareFound keccak acfg cfg now wallet diff numShares workerID l =
     go_map (\<lambda>valid.
         let wallet' = (if \<not> valid then cfgFeeAddress cfg else wallet)
         in add_shares (unat numShares) (new_share now wallet' workerID diff) l)
       (IsAddressValid keccak acfg wallet)"

definition SubmitShare :: "int \<Rightarrow> string \<Rightarrow> string \<Rightarrow> u64 \<Rightarrow> LedgerDB \<Rightarrow> unit res \<times> LedgerDB" where
  "SubmitShare now addr worker diff l =
     (case AddShare (new_share now addr worker diff) l of
        (Blocked, l') \<Rightarrow> (Blocked, l')
      | (_, l') \<Rightarrow> (Ok (), l'))"

section \<open>Blocks\<close>

record MasterState =
  ledger :: LedgerDB
  pplns :: PPLNSManager
  numConns :: "u64 \<rightharpoonup> u32"
  scheduled :: "(u64 \<times> u64) list"

definition BlockFound :: "int \<Rightarrow> string \<Rightarrow> u64 \<Rightarrow> u64 \<Rightarrow> MasterState \<Rightarrow> unit res \<times> MasterState" where
  "BlockFound now hash height reward st =
     (let block = \<lparr>bfHeight = height, bfHash = hash, bfRewardTotal = reward, bfTimestamp = now, bfFoundAt = 0,
                   bfProcessedAt = None, bfStatus = ''pending''\<rparr>
      in case AddBlockFound now block (ledger st) of
           (Ok _, l) \<Rightarrow> (Ok (), st\<lparr>ledger := l, scheduled := scheduled st @ [(height, reward)]\<rparr>)
         | (Err _, l) \<Rightarrow> (Ok (), st\<lparr>ledger := l\<rparr>)
         | (Blocked, l) \<Rightarrow> (Blocked, st\<lparr>ledger := l\<rparr>))"

definition OnBlockFound :: "int \<Rightarrow> u64 \<Rightarrow> u64 \<Rightarrow> string \<Rightarrow> MasterState \<Rightarrow> unit res \<times> MasterState" where
  "OnBlockFound now height rew hash st = BlockFound now hash height rew st"

section \<open>The packet handler\<close>

definition OnMessage ::
  "(byte list \<Rightarrow> byte list) \<Rightarrow> addr_config \<Rightarrow> MasterConfig \<Rightarrow> int \<Rightarrow> u64 \<Rightarrow> byte list \<Rightarrow> MasterState
   \<Rightarrow> (unit res \<times> MasterState) go" where
  "OnMessage keccak acfg cfg now connId msg st =
     go_bind (OnMessage_call (cfgUseP2Pool cfg) msg) (\<lambda>call. case call of
         CallShareFound wallet diff numShares workerID \<Rightarrow>
           go_map (\<lambda>(r, l). (r, st\<lparr>ledger := l\<rparr>))
             (OnShareFound keccak acfg cfg now wallet diff numShares workerID (ledger st))
       | CallBlockFound height reward hash \<Rightarrow> Ret (OnBlockFound now height reward hash st)
       | SetNumConns conns \<Rightarrow> Ret (Ok (), st\<lparr>numConns := (numConns st)(connId \<mapsto> conns)\<rparr>)
       | CallP2PoolShareFound height \<Rightarrow> Ret (Ok (), st)
       | LogDeserError e \<Rightarrow> Ret (Ok (), st)
       | LogUnexpectedPacket \<Rightarrow> Ret (Ok (), st)
       | LogUnknownPacket b \<Rightarrow> Ret (Ok (), st))"

text \<open>
  The body of \<open>HandleSlave\<close> on the messages its loop reads: the \<open>k\<close>-th one is handled at time
  \<open>clock k\<close>. A panic ends the process, a statement that never returns the goroutine. When the
  loop ends the connection count of the slave is forgotten.
\<close>

fun handle_messages ::
  "(byte list \<Rightarrow> byte list) \<Rightarrow> addr_config \<Rightarrow> MasterConfig \<Rightarrow> (nat \<Rightarrow> int) \<Rightarrow> u64 \<Rightarrow> nat \<Rightarrow> byte list list \<Rightarrow> MasterState
   \<Rightarrow> (unit res \<times> MasterState) go" where
  "handle_messages keccak acfg cfg clock connId k [] st = Ret (Ok (), st)"
| "handle_messages keccak acfg cfg clock connId k (m # ms) st =
     go_bind (OnMessage keccak acfg cfg (clock k) connId m st) (\<lambda>(r, st').
       case r of Blocked \<Rightarrow> Ret (Blocked, st')
       | _ \<Rightarrow> handle_messages keccak acfg cfg clock connId (Suc k) ms st')"

definition HandleSlave ::
  "(byte list \<Rightarrow> byte list) \<Rightarrow> addr_config \<Rightarrow> MasterConfig \<Rightarrow> (byte list \<Rightarrow> byte list \<Rightarrow> byte list option) \<Rightarrow> (nat \<Rightarrow> int) \<Rightarrow> u64
   \<Rightarrow> byte list \<Rightarrow> MasterState \<Rightarrow> (unit res \<times> MasterState) go" where
  "HandleSlave keccak acfg cfg opn clock connId stream st =
     (case HandleSlave_loop opn stream of (msgs, ended) \<Rightarrow>
      go_bind (handle_messages keccak acfg cfg clock connId 0 msgs st) (\<lambda>(r, st').
        case r of Blocked \<Rightarrow> Ret (Blocked, st')
        | _ \<Rightarrow> (if ended = LengthPanic then Panic IndexOutOfRange
                else Ret (Ok (), st'\<lparr>numConns := (numConns st')(connId := None)\<rparr>))))"

section \<open>Distribution of a block reward\<close>

text \<open>The map \<open>minerDiffs\<close> and the total, with the wrap-around of \<open>uint64\<close>.\<close>

definition miner_diffs :: "Share list \<Rightarrow> string \<rightharpoonup> u64" where
  "miner_diffs shs = foldl (\<lambda>m s. m(shMinerAddr s \<mapsto> map_get 0 m (shMinerAddr s) + shDifficulty s)) Map.empty shs"

definition total_diff :: "Share list \<Rightarrow> u64" where
  "total_diff shs = foldl (\<lambda>t s. t + shDifficulty s) 0 shs"

definition fee_amount :: "(f64 \<Rightarrow> u64) \<Rightarrow> MasterConfig \<Rightarrow> u64 \<Rightarrow> u64" where
  "fee_amount conv cfg reward = u64_of_f64 conv (f64_of_u64 reward * (cfgFeePercent cfg / Fin 100))"

text \<open>The body of the loop over the miners: any statement that fails makes it go on with the next
  miner.\<close>

definition distribute_one ::
  "(f64 \<Rightarrow> u64) \<Rightarrow> int \<Rightarrow> u64 \<Rightarrow> u64 \<Rightarrow> u64 \<Rightarrow> string \<Rightarrow> u64 \<Rightarrow> LedgerDB \<Rightarrow> unit res \<times> LedgerDB" where
  "distribute_one conv now height netReward totalDiff minerAddr minerDiff l =
     (let percentage = share_of_total minerDiff totalDiff;
          minerReward = part_reward conv netReward minerDiff totalDiff in
      if minerReward = 0 then (Ok (), l)
      else case CreateDistribution \<lparr>diID = 0, diBlockHeight = height, diMinerAddr = minerAddr, diSharesContrib = minerDiff,
               diPercentage = percentage * Fin 100, diRewardGross = minerReward, diRewardNet = minerReward,
               diCalculatedAt = now\<rparr> l of
             (Blocked, l') \<Rightarrow> (Blocked, l')
           | (Err _, l') \<Rightarrow> (Ok (), l')
           | (Ok _, l') \<Rightarrow>
               (case GetBalance now minerAddr l' of
                  Blocked \<Rightarrow> (Blocked, l')
                | Err _ \<Rightarrow> (Ok (), l')
                | Ok balance \<Rightarrow>
                    (case ReplaceBalance \<lparr>baMinerAddr = minerAddr, baPending = baPending balance + minerReward,
                         baConfirmed = baConfirmed balance, baTotalPaid = baTotalPaid balance, baLastUpdated = now\<rparr> l' of
                       (Blocked, l'') \<Rightarrow> (Blocked, l'')
                     | (_, l'') \<Rightarrow> (Ok (), l''))))"

fun distribute_all ::
  "(f64 \<Rightarrow> u64) \<Rightarrow> int \<Rightarrow> u64 \<Rightarrow> u64 \<Rightarrow> u64 \<Rightarrow> (string \<rightharpoonup> u64) \<Rightarrow> string list \<Rightarrow> LedgerDB \<Rightarrow> unit res \<times> LedgerDB" where
  "distribute_all conv now height netReward totalDiff m [] l = (Ok (), l)"
| "distribute_all conv now height netReward totalDiff m (a # as) l =
     (case distribute_one conv now height netReward totalDiff a (map_get 0 m a) l of
        (Blocked, l') \<Rightarrow> (Blocked, l')
      | (_, l') \<Rightarrow> distribute_all conv now height netReward totalDiff m as l')"

datatype dist_end = Distributed | NoShares | SharesFailed sql_error | ZeroDifficulty | Hung

text \<open>The end of the routine: the fee is recorded, the block marked, the window adjusted.\<close>

definition finish_distribution ::
  "(f64 \<Rightarrow> u64) \<Rightarrow> MasterConfig \<Rightarrow> int \<Rightarrow> u64 \<Rightarrow> u64 \<Rightarrow> LedgerDB \<times> PPLNSManager \<Rightarrow> dist_end \<times> LedgerDB \<times> PPLNSManager" where
  "finish_distribution conv cfg now height feeAmount lp =
     (case lp of (l, p) \<Rightarrow>
      case (if 0 < feeAmount then InsertPoolFee \<lparr>pfBlockHeight = height, pfFeeAmount = feeAmount, pfCollectedAt = now\<rparr> l
            else (Ok (), l)) of
        (Blocked, l1) \<Rightarrow> (Hung, l1, p)
      | (_, l1) \<Rightarrow>
          (case MarkBlockProcessed now height l1 of
             (Blocked, l2) \<Rightarrow> (Hung, l2, p)
           | (_, l2) \<Rightarrow>
               (case OnBlockFoundPPLNS conv cfg l2 p height of
                  Ok p' \<Rightarrow> (Distributed, l2, p')
                | _ \<Rightarrow> (Hung, l2, p))))"

definition DistributeBlockRewardPPLNS ::
  "(f64 \<Rightarrow> u64) \<Rightarrow> (Share list \<Rightarrow> Share list) \<Rightarrow> ((string \<rightharpoonup> u64) \<Rightarrow> string list) \<Rightarrow> MasterConfig \<Rightarrow> int \<Rightarrow> u64 \<Rightarrow> u64
   \<Rightarrow> LedgerDB \<times> PPLNSManager \<Rightarrow> dist_end \<times> LedgerDB \<times> PPLNSManager" where
  "DistributeBlockRewardPPLNS conv order rng cfg now height reward lp =
     (case lp of (l, p) \<Rightarrow>
      case GetSharesForPPLNS conv order cfg l p of
        Blocked \<Rightarrow> (Hung, l, p)
      | Err e \<Rightarrow> (SharesFailed e, l, p)
      | Ok (shs, p') \<Rightarrow>
          (if shs = [] then (NoShares, l, p')
           else let totalDiff = total_diff shs; m = miner_diffs shs in
             if totalDiff = 0 then (ZeroDifficulty, l, p')
             else let feeAmount = fee_amount conv cfg reward;
                      netReward = reward - feeAmount
                  in case distribute_all conv now height netReward totalDiff m (rng m) l of
                       (Blocked, l') \<Rightarrow> (Hung, l', p')
                     | (_, l') \<Rightarrow> finish_distribution conv cfg now height feeAmount (l', p')))"

definition DistributeBlockReward ::
  "(f64 \<Rightarrow> u64) \<Rightarrow> (Share list \<Rightarrow> Share list) \<Rightarrow> ((string \<rightharpoonup> u64) \<Rightarrow> string list) \<Rightarrow> MasterConfig \<Rightarrow> int \<Rightarrow> u64 \<Rightarrow> u64
   \<Rightarrow> LedgerDB \<times> PPLNSManager \<Rightarrow> LedgerDB \<times> PPLNSManager" where
  "DistributeBlockReward conv order rng cfg now height reward lp =
     snd (DistributeBlockRewardPPLNS conv order rng cfg now height reward lp)"

text \<open>\<open>Coin\<close> is \<open>math.Pow10(Atomic)\<close>; without a manager the estimate is 0.\<close>

definition GetEstPendingBalance ::
  "(f64 \<Rightarrow> u64) \<Rightarrow> (Share list \<Rightarrow> Share list) \<Rightarrow> MasterConfig \<Rightarrow> f64 \<Rightarrow> string \<Rightarrow> LedgerDB \<Rightarrow> PPLNSManager option
   \<Rightarrow> (f64 \<times> PPLNSManager option) res" where
  "GetEstPendingBalance conv order cfg coin addr l po =
     (case po of None \<Rightarrow> Ok (Fin 0, None)
      | Some p \<Rightarrow>
        (case GetMinerSharePercentage conv order cfg l p addr of
           Blocked \<Rightarrow> Blocked
         | Err _ \<Rightarrow> Ok (Fin 0, Some p)
         | Ok (percentage, p') \<Rightarrow>
             let est = (\<lambda>blockReward. percentage * (f64_of_u64 blockReward * (Fin 1 - cfgFeePercent cfg / Fin 100)) / coin)
             in (case GetBlockchainInfo l of
                   Blocked \<Rightarrow> Blocked
                 | Err _ \<Rightarrow> Ok (est 0, Some p')
                 | Ok (_, blockReward, _) \<Rightarrow> Ok (est blockReward, Some p'))))"


section \<open>Sums of difficulties\<close>

lemma unat_sum_list_u64:
  "sum_list (map unat xs) < 2 ^ 64 \<Longrightarrow> unat (sum_list (xs :: u64 list)) = sum_list (map unat xs)"
proof (induction xs)
  case (Cons x xs)
  then have "unat (sum_list xs) = sum_list (map unat xs)" by simp
  with Cons.prems show ?case by (simp add: unat_word_ariths)
qed simp

lemma total_diff_sum: "total_diff shs = sum_list (map shDifficulty shs)"
  by (induction shs rule: rev_induct) (simp_all add: total_diff_def)

lemma miner_diffs_snoc:
  "miner_diffs (shs @ [s]) = (miner_diffs shs)(shMinerAddr s \<mapsto>
     map_get 0 (miner_diffs shs) (shMinerAddr s) + shDifficulty s)"
  by (simp only: miner_diffs_def foldl_append foldl_Cons foldl_Nil)

lemma miner_diffs_get:
  "map_get 0 (miner_diffs shs) a = sum_list (map shDifficulty (filter (\<lambda>s. shMinerAddr s = a) shs))"
proof (induction shs rule: rev_induct)
  case (snoc s shs)
  then show ?case unfolding miner_diffs_snoc map_get_upd by auto
qed (simp add: miner_diffs_def)

lemma dom_miner_diffs: "dom (miner_diffs shs) = shMinerAddr ` set shs"
proof (induction shs rule: rev_induct)
  case (snoc s shs)
  then show ?case unfolding miner_diffs_snoc dom_fun_upd by simp
qed (simp add: miner_diffs_def)

text \<open>Grouping a sum by a key.\<close>

lemma sum_list_group:
  fixes f :: "'a \<Rightarrow> nat"
  assumes "distinct keys" "\<forall>x \<in> set xs. g x \<in> set keys"
  shows "(\<Sum>k \<leftarrow> keys. sum_list (map f (filter (\<lambda>x. g x = k) xs))) = sum_list (map f xs)"
  using assms(2)
proof (induction xs)
  case (Cons x xs)
  have "(\<Sum>k \<leftarrow> keys. sum_list (map f (filter (\<lambda>y. g y = k) (x # xs))))
      = (\<Sum>k \<leftarrow> keys. (if g x = k then f x else 0) + sum_list (map f (filter (\<lambda>y. g y = k) xs)))"
    by (rule arg_cong [where f = sum_list]) (rule map_cong, auto)
  also have "\<dots> = (\<Sum>k \<leftarrow> keys. if g x = k then f x else 0) + sum_list (map f xs)"
    using Cons by (simp add: sum_list_addf)
  also have "(\<Sum>k \<leftarrow> keys. if g x = k then f x else 0) = f x"
    using assms(1) Cons.prems by (simp add: sum_list_distinct_conv_sum_set)
  finally show ?case by simp
qed (simp add: sum_list_0)

lemma sum_filter_le:
  fixes f :: "'a \<Rightarrow> nat"
  shows "sum_list (map f (filter P xs)) \<le> sum_list (map f xs)"
  by (induction xs) auto

lemma unat_miner_diff:
  assumes "sum_list (map (\<lambda>s. unat (shDifficulty s)) shs) < 2 ^ 64"
  shows "unat (map_get 0 (miner_diffs shs) a) = sum_list (map (\<lambda>s. unat (shDifficulty s)) (filter (\<lambda>s. shMinerAddr s = a) shs))"
    and "unat (total_diff shs) = sum_list (map (\<lambda>s. unat (shDifficulty s)) shs)"
proof -
  have "sum_list (map (\<lambda>s. unat (shDifficulty s)) (filter (\<lambda>s. shMinerAddr s = a) shs)) < 2 ^ 64"
    using assms sum_filter_le le_less_trans by blast
  then show "unat (map_get 0 (miner_diffs shs) a) = sum_list (map (\<lambda>s. unat (shDifficulty s)) (filter (\<lambda>s. shMinerAddr s = a) shs))"
    using unat_sum_list_u64 [of "map shDifficulty (filter (\<lambda>s. shMinerAddr s = a) shs)"]
    by (simp add: miner_diffs_get comp_def)
  show "unat (total_diff shs) = sum_list (map (\<lambda>s. unat (shDifficulty s)) shs)"
    using assms unat_sum_list_u64 [of "map shDifficulty shs"] by (simp add: total_diff_sum comp_def)
qed

text \<open>What the miners of a window receive together, whatever the order of the map.\<close>

lemma window_rewards:
  fixes conv :: "f64 \<Rightarrow> u64"
  assumes tot: "sum_list (map (\<lambda>s. unat (shDifficulty s)) shs) < 2 ^ 64" and pos: "total_diff shs \<noteq> 0"
    and rng: "range_order (miner_diffs shs) keys" and a: "unat amount \<le> 2 ^ 50"
  defines "S \<equiv> (\<Sum>k \<leftarrow> keys. unat (part_reward conv amount (map_get 0 (miner_diffs shs) k) (total_diff shs)))"
  shows "S \<le> unat amount" "unat amount \<le> S + length keys"
    "k \<in> set keys \<Longrightarrow> unat (part_reward conv amount (map_get 0 (miner_diffs shs) k) (total_diff shs)) \<le> unat amount"
proof -
  let ?D = "unat (total_diff shs)"
  let ?ds = "map (\<lambda>k. unat (map_get 0 (miner_diffs shs) k)) keys"
  have D: "?D = sum_list ?ds"
    using sum_list_group [of keys shs shMinerAddr "\<lambda>s. unat (shDifficulty s)"] rng
    by (simp add: unat_miner_diff [OF tot] range_order_def dom_miner_diffs)
  have le: "unat (map_get 0 (miner_diffs shs) k) \<le> ?D" for k
    by (simp add: unat_miner_diff [OF tot] sum_filter_le)
  have "unat amount \<le> 2 ^ 53" using a by simp
  then have r: "int (unat (part_reward conv amount (map_get 0 (miner_diffs shs) k) (total_diff shs)))
      = \<lfloor>rnd64 (of_nat (unat amount) * ratio64 (unat (map_get 0 (miner_diffs shs) k)) ?D)\<rfloor>" for k
    using le pos by (intro part_reward_floor) auto
  have S: "int S = (\<Sum>d \<leftarrow> ?ds. \<lfloor>rnd64 (of_nat (unat amount) * ratio64 d ?D)\<rfloor>)"
    unfolding S_def by (induction keys) (auto simp: r)
  have p: "0 < ?D" "?D < 2 ^ 64" using pos unat_u64_lt [of "total_diff shs"] by (simp_all add: unat_gt_0)
  show up: "S \<le> unat amount" using rewards_sum(1) [OF D p a] S by simp
  show "unat amount \<le> S + length keys" using rewards_sum(2) [OF D p a] S by simp
  show "k \<in> set keys \<Longrightarrow> unat (part_reward conv amount (map_get 0 (miner_diffs shs) k) (total_diff shs)) \<le> unat amount"
    using member_le_sum_list [of "unat (part_reward conv amount (map_get 0 (miner_diffs shs) k) (total_diff shs))"
        "map (\<lambda>k. unat (part_reward conv amount (map_get 0 (miner_diffs shs) k) (total_diff shs))) keys"] up
    by (simp add: S_def)
qed


section \<open>Effect of a distribution on the balances\<close>

definition pending_of :: "LedgerDB \<Rightarrow> string \<Rightarrow> u64" where
  "pending_of l a = (case find (\<lambda>b. baMinerAddr b = a) (balances l) of Some b \<Rightarrow> baPending b | None \<Rightarrow> 0)"

text \<open>The ledger can take the distributions of a block: it has the table, knows the block, and no
  transaction is open.\<close>

definition dist_ready :: "LedgerDB \<Rightarrow> u64 \<Rightarrow> bool" where
  "dist_ready l height = (\<not> txOpen l \<and> hasDistributions (lschema l) \<and> has_block l height \<and> bindable height \<and> balances_wf l)"

lemma find_filter_snoc:
  "find (\<lambda>b. key b = a) (filter (\<lambda>r. key r \<noteq> key x) xs @ [x]) = (if a = key x then Some x else find (\<lambda>b. key b = a) xs)"
  by (induction xs) auto

lemma find_balance_wf:
  "balances_wf l \<Longrightarrow> find (\<lambda>b. baMinerAddr b = a) (balances l) = Some b \<Longrightarrow> bindable (baConfirmed b) \<and> bindable (baTotalPaid b)"
  by (auto simp: balances_wf_def find_Some_iff)

lemma distribute_one_effect:
  assumes ready: "dist_ready l height" and id: "bindable (nextDistID l)" and d: "bindable d"
    and R: "R = part_reward conv net d D" "bindable R" "bindable (pending_of l a + R)"
  shows "\<exists>l'. distribute_one conv now height net D a d l = (Ok (), l') \<and> dist_ready l' height \<and>
    unat (nextDistID l') \<le> unat (nextDistID l) + 1 \<and> lschema l' = lschema l \<and>
    (\<forall>b. pending_of l' b = (if b = a then pending_of l a + R else pending_of l b))"
proof (cases "R = 0")
  case True
  then show ?thesis using ready by (intro exI [of _ l]) (auto simp: distribute_one_def Let_def simp flip: R(1))
next
  case False
  let ?di = "\<lparr>diID = 0, diBlockHeight = height, diMinerAddr = a, diSharesContrib = d,
    diPercentage = share_of_total d D * Fin 100, diRewardGross = R, diRewardNet = R, diCalculatedAt = now\<rparr>"
  define l1 where "l1 = snd (CreateDistribution ?di l)"
  have c: "CreateDistribution ?di l = (Ok (), l1)"
    and l1: "balances l1 = balances l" "txOpen l1 = txOpen l" "lschema l1 = lschema l" "blocks_found l1 = blocks_found l"
      "nextDistID l1 = nextDistID l + 1"
    using ready id d R(2) by (simp_all add: l1_def CreateDistribution_def exec_def dist_ready_def)
  obtain bal where g: "GetBalance now a l1 = Ok bal" and bal: "baPending bal = pending_of l a"
      "bindable (baConfirmed bal)" "bindable (baTotalPaid bal)"
    using ready l1 find_balance_wf [of l a]
    by (auto simp: GetBalance_def query_def dist_ready_def pending_of_def bindable_def split: option.splits)
  let ?b = "\<lparr>baMinerAddr = a, baPending = pending_of l a + R, baConfirmed = baConfirmed bal,
    baTotalPaid = baTotalPaid bal, baLastUpdated = now\<rparr>"
  define l2 where "l2 = snd (ReplaceBalance ?b l1)"
  have r: "ReplaceBalance ?b l1 = (Ok (), l2)"
    and l2: "balances l2 = filter (\<lambda>r. baMinerAddr r \<noteq> a) (balances l) @ [?b]" "txOpen l2 = txOpen l"
      "lschema l2 = lschema l" "blocks_found l2 = blocks_found l" "nextDistID l2 = nextDistID l + 1"
    using ready l1 bal R(3) by (simp_all add: l2_def ReplaceBalance_def exec_def dist_ready_def)
  have one: "distribute_one conv now height net D a d l = (Ok (), l2)"
    using False c g r by (simp add: distribute_one_def Let_def bal(1) flip: R(1))
  have "balances_wf l2"
    using ready bal R(3) by (auto simp: balances_wf_def l2 dist_ready_def distinct_map_filter)
  then have "dist_ready l2 height" using ready by (simp add: dist_ready_def l2 has_block_def)
  moreover have "pending_of l2 b = (if b = a then pending_of l a + R else pending_of l b)" for b
    using find_filter_snoc [of baMinerAddr b ?b "balances l"] by (simp add: pending_of_def l2)
  moreover have "unat (nextDistID l2) \<le> unat (nextDistID l) + 1"
    using id by (simp add: l2 bindable_unat unat_word_ariths)
  ultimately show ?thesis using one l2(3) by blast
qed

lemma distribute_all_effect:
  assumes "dist_ready l height" "distinct as" "unat (nextDistID l) + length as < 2 ^ 63"
    and "\<forall>a \<in> set as. bindable (map_get 0 m a) \<and> bindable (part_reward conv net (map_get 0 m a) D) \<and>
      bindable (pending_of l a + part_reward conv net (map_get 0 m a) D)"
  shows "\<exists>l'. distribute_all conv now height net D m as l = (Ok (), l') \<and> dist_ready l' height \<and> lschema l' = lschema l \<and>
    (\<forall>b. pending_of l' b = pending_of l b + (if b \<in> set as then part_reward conv net (map_get 0 m b) D else 0))"
  using assms
proof (induction as arbitrary: l)
  case (Cons a as)
  let ?R = "\<lambda>b. part_reward conv net (map_get 0 m b) D"
  have "bindable (nextDistID l)" using Cons.prems(3) by (simp add: bindable_unat)
  then obtain l1 where l1: "distribute_one conv now height net D a (map_get 0 m a) l = (Ok (), l1)"
    "dist_ready l1 height" "unat (nextDistID l1) \<le> unat (nextDistID l) + 1" "lschema l1 = lschema l"
    and p1: "\<forall>b. pending_of l1 b = (if b = a then pending_of l a + ?R a else pending_of l b)"
    using distribute_one_effect [OF Cons.prems(1) _ _ refl, of "map_get 0 m a" conv net D a now] Cons.prems(4) by auto
  have "\<forall>b \<in> set as. pending_of l1 b = pending_of l b" using p1 Cons.prems(2) by auto
  then obtain l2 where l2: "distribute_all conv now height net D m as l1 = (Ok (), l2)" "dist_ready l2 height"
    "lschema l2 = lschema l1" "\<forall>b. pending_of l2 b = pending_of l1 b + (if b \<in> set as then ?R b else 0)"
    using Cons.IH [OF l1(2)] Cons.prems l1(3) by auto
  have "pending_of l2 b = pending_of l b + (if b \<in> set (a # as) then ?R b else 0)" for b
    using l2(4) p1 Cons.prems(2) by auto
  then show ?case using l1 l2 by auto
qed simp


lemma exec_not_Blocked:
  assumes "\<not> txOpen l" "\<And>l. fst (q l) \<noteq> Blocked"
  shows "fst (exec args q l) \<noteq> Blocked"
  using assms by (simp add: exec_def)

lemma finish_distribution_ok:
  assumes "\<not> txOpen l"
  shows "\<exists>l' p'. finish_distribution conv cfg now height fee (l, p) = (Distributed, l', p') \<and> balances l' = balances l"
proof -
  let ?f = "\<lparr>pfBlockHeight = height, pfFeeAmount = fee, pfCollectedAt = now\<rparr>"
  obtain r1 l1 where f: "(if 0 < fee then InsertPoolFee ?f l else (Ok (), l)) = (r1, l1)" by (metis surj_pair)
  then have l1: "r1 \<noteq> Blocked" "balances l1 = balances l" "\<not> txOpen l1"
    using assms by (auto simp: InsertPoolFee_def exec_def split: if_splits)
  obtain r2 l2 where m: "MarkBlockProcessed now height l1 = (r2, l2)" by (metis surj_pair)
  then have l2: "r2 \<noteq> Blocked" "balances l2 = balances l" "\<not> txOpen l2"
    using l1 by (auto simp: MarkBlockProcessed_def exec_def split: if_splits)
  obtain p' where "OnBlockFoundPPLNS conv cfg l2 p height = Ok p'"
    using OnBlockFoundPPLNS_total [OF l2(3)] by blast
  then show ?thesis
    using l1(1) l2(1,2) by (cases r1; cases r2) (auto simp: finish_distribution_def f m)
qed

lemma fee_le_reward:
  assumes "cfgFeePercent cfg = Fin f" "0 \<le> f" "f \<le> 100" "unat reward \<le> 2 ^ 50"
  shows "fee_amount conv cfg reward \<le> reward"
proof -
  let ?x = "rnd64 (f / 100)"
  have x: "0 \<le> ?x" "?x \<le> 1"
    using assms r64.rd_nonneg [of "f / 100"] r64.rd_mono [of "f / 100" 1] rnd64_of_nat [of 1] by simp_all
  have "f / 100 \<le> 1" using assms(3) by simp
  also have "1 \<le> (2 ^ 64 :: rat)" by simp
  also note pow2_64_le
  finally have "f / 100 \<le> pow2 1000" .
  then have d: "cfgFeePercent cfg / Fin 100 = Fin ?x"
    using assms(1,2) f64_round_Fin [of "f / 100"] by (simp add: divide_f64_def)
  have r: "unat reward \<le> 2 ^ 53" using assms(4) by simp
  have "int (unat (fee_amount conv cfg reward)) = \<lfloor>rnd64 (of_nat (unat reward) * ?x)\<rfloor>"
    unfolding fee_amount_def d by (rule u64_of_product [OF r x])
  also have "\<dots> \<le> int (unat reward)" using product_le [OF r x] by (simp add: floor_le_iff)
  finally show ?thesis by (simp add: word_le_nat_alt)
qed

text \<open>
  C3: No block is over-distributed, and only dust is lost. For a reward of at most \<open>2 ^ 50\<close>
  atomic units and a fee between 0 and 100 percent, a distribution on a ledger that can take it
  ends normally; it credits only miners with shares in the window, never lowers a balance, and
  what it credits to all miners together plus the pool fee is at most the reward and falls
  short of it by at most one atomic unit per miner, in spite of three floating-point roundings
  per miner and whatever order the map of miners is visited in.
\<close>
theorem distribution_conserves_reward:
  assumes fee: "cfgFeePercent cfg = Fin f" "0 \<le> f" "f \<le> 100" "unat reward \<le> 2 ^ 50"
    and shs: "GetSharesForPPLNS conv order cfg l p = Ok (shs, p1)" "total_diff shs \<noteq> 0"
      "sum_list (map (\<lambda>s. unat (shDifficulty s)) shs) < 2 ^ 63"
    and rng: "range_order (miner_diffs shs) (rng (miner_diffs shs))"
    and ready: "dist_ready l height" "unat (nextDistID l) + length (rng (miner_diffs shs)) < 2 ^ 63"
      "\<forall>a. unat (pending_of l a) + unat reward < 2 ^ 63"
  shows "\<exists>l' p'. DistributeBlockRewardPPLNS conv order rng cfg now height reward (l, p) = (Distributed, l', p') \<and>
    (\<forall>a. unat (pending_of l a) \<le> unat (pending_of l' a)) \<and>
    (\<forall>a. a \<notin> shMinerAddr ` set shs \<longrightarrow> pending_of l' a = pending_of l a) \<and>
    (let credited = (\<Sum>a \<leftarrow> rng (miner_diffs shs). unat (pending_of l' a) - unat (pending_of l a));
         fee = unat (fee_amount conv cfg reward)
     in credited + fee \<le> unat reward \<and> unat reward \<le> credited + fee + length (rng (miner_diffs shs)))"
proof -
  let ?m = "miner_diffs shs" let ?keys = "rng ?m" let ?D = "total_diff shs"
  let ?fee = "fee_amount conv cfg reward" let ?net = "reward - ?fee"
  let ?R = "\<lambda>a. part_reward conv ?net (map_get 0 ?m a) ?D"
  have net: "unat ?net = unat reward - unat ?fee" using fee_le_reward [OF fee] by (simp add: unat_sub)
  have fle: "unat ?fee \<le> unat reward" using fee_le_reward [OF fee] by (simp add: word_le_nat_alt)
  have tot: "sum_list (map (\<lambda>s. unat (shDifficulty s)) shs) < 2 ^ 64" using shs(3) by simp
  have "unat ?net \<le> 2 ^ 50" using net fee(4) by simp
  note W = window_rewards [OF tot shs(2) rng this, where conv = conv]
  have Rle: "unat (?R a) \<le> unat reward" if "a \<in> set ?keys" for a using W(3) [OF that] net by simp
  have add: "unat (pending_of l a + ?R a) = unat (pending_of l a) + unat (?R a)" if "a \<in> set ?keys" for a
  proof -
    have "unat (pending_of l a) + unat (?R a) < 2 ^ 64"
      using Rle [OF that] ready(3) [rule_format, of a] by simp
    then show ?thesis by (simp add: unat_word_ariths)
  qed
  have "bindable (map_get 0 ?m a) \<and> bindable (?R a) \<and> bindable (pending_of l a + ?R a)" if a: "a \<in> set ?keys" for a
  proof -
    have "unat (map_get 0 ?m a) \<le> sum_list (map (\<lambda>s. unat (shDifficulty s)) shs)"
      by (simp add: unat_miner_diff [OF tot] sum_filter_le)
    then have "bindable (map_get 0 ?m a)" using shs(3) by (simp add: bindable_unat)
    moreover have "unat (pending_of l a) + unat (?R a) < 2 ^ 63"
      using Rle [OF a] ready(3) [rule_format, of a] by linarith
    ultimately show ?thesis by (simp add: bindable_unat add [OF a])
  qed
  then obtain l1 where d: "distribute_all conv now height ?net ?D ?m ?keys l = (Ok (), l1)" "dist_ready l1 height"
    and p1: "\<forall>b. pending_of l1 b = pending_of l b + (if b \<in> set ?keys then ?R b else 0)"
    using distribute_all_effect [OF ready(1) _ ready(2), of ?m conv ?net ?D now] rng by (auto simp: range_order_def)
  obtain l' p' where fin: "finish_distribution conv cfg now height ?fee (l1, p1) = (Distributed, l', p')"
    and bal: "balances l' = balances l1"
    using finish_distribution_ok [of l1 conv cfg now height ?fee p1] d(2) unfolding dist_ready_def by blast
  have "shs \<noteq> []" using shs(2) by (auto simp: total_diff_def)
  then have run: "DistributeBlockRewardPPLNS conv order rng cfg now height reward (l, p) = (Distributed, l', p')"
    using shs(1,2) d(1) fin by (simp add: DistributeBlockRewardPPLNS_def Let_def)
  have pend: "unat (pending_of l' b) = unat (pending_of l b) + (if b \<in> set ?keys then unat (?R b) else 0)" for b
    using p1 add [of b] bal by (simp add: pending_of_def [of l'] pending_of_def [of l1, symmetric])
  have cred: "(\<Sum>a \<leftarrow> ?keys. unat (pending_of l' a) - unat (pending_of l a)) = (\<Sum>a \<leftarrow> ?keys. unat (?R a))"
    by (rule arg_cong [where f = sum_list]) (rule map_cong, auto simp: pend)
  have out: "pending_of l' a = pending_of l a" if "a \<notin> shMinerAddr ` set shs" for a
    using pend [of a] that rng by (simp add: range_order_def dom_miner_diffs word_unat_eq_iff)
  have up: "\<forall>a. unat (pending_of l a) \<le> unat (pending_of l' a)" by (simp add: pend)
  have "(\<Sum>a \<leftarrow> ?keys. unat (?R a)) + unat ?fee \<le> unat reward"
    "unat reward \<le> (\<Sum>a \<leftarrow> ?keys. unat (?R a)) + unat ?fee + length ?keys"
    using W(1,2) net fle by simp_all
  with run out up show ?thesis unfolding Let_def by (auto simp: cred)
qed


lemma pplns_frame:
  "GetSharesForPPLNS conv order cfg (l\<lparr>blocks_found := b\<rparr>) p = GetSharesForPPLNS conv order cfg l p"
  by (simp add: GetSharesForPPLNS_def GetPPLNSWindow_def GetBlockchainInfo_def GetSharesInWindow_def query_def)

definition sample_dist :: LedgerDB where
  "sample_dist = sample_shares\<lparr>blocks_found := [\<lparr>bfHeight = 7, bfHash = ''h'', bfRewardTotal = 1000, bfTimestamp = 300,
     bfFoundAt = 300, bfProcessedAt = None, bfStatus = ''pending''\<rparr>]\<rparr>"

lemma distribution_conserves_reward_witness:
  "\<exists>l' p'. DistributeBlockRewardPPLNS (\<lambda>_. 0) (sort_key (\<lambda>s. - shTimestamp s)) (\<lambda>_. [''m'']) sample_cfg 400 7 1000
      (sample_dist, InitPPLNS sample_cfg) = (Distributed, l', p') \<and>
    unat (pending_of l' ''m'') + unat (fee_amount (\<lambda>_. 0) sample_cfg 1000) \<le> 1000"
proof -
  let ?shs = "[sample_share 1 100]"
  have f: "cfgFeePercent sample_cfg = Fin 1" by (simp add: sample_cfg_def)
  have g: "GetSharesForPPLNS (\<lambda>_. 0) (sort_key (\<lambda>s. - shTimestamp s)) sample_cfg sample_dist (InitPPLNS sample_cfg)
      = Ok (?shs, InitPPLNS sample_cfg)"
    by (simp only: sample_dist_def pplns_frame sample_pplns)
  have t: "total_diff ?shs \<noteq> 0" "sum_list (map (\<lambda>s. unat (shDifficulty s)) ?shs) < 2 ^ 63"
    by (simp_all add: total_diff_def sample_share_def)
  have r: "range_order (miner_diffs ?shs) [''m'']"
    by (simp add: range_order_def dom_miner_diffs sample_share_def)
  have d: "dist_ready sample_dist 7"
    by (simp add: dist_ready_def sample_dist_def sample_shares_def NewLedgerDB_def schema_full_def has_block_def
        bindable_def balances_wf_def)
  have z: "pending_of sample_dist a = 0" for a
    by (simp add: pending_of_def sample_dist_def sample_shares_def NewLedgerDB_def)
  have n: "unat (nextDistID sample_dist) + length [''m''] < 2 ^ 63"
    by (simp add: sample_dist_def sample_shares_def NewLedgerDB_def)
  show ?thesis
    using distribution_conserves_reward [OF f _ _ _ g t r d n, of 1000 400] by (auto simp: z Let_def)
qed

section \<open>What is recorded for a reported share\<close>

lemma add_shares_refused:
  assumes "\<not> txOpen l" "\<not> sharesHeightNullable (lschema l)" "shBlockHeight share = None"
  shows "add_shares n share l = (Ok (), l)"
proof (induction n)
  case (Suc n)
  have "snd (AddShare share l) = l" "fst (AddShare share l) \<noteq> Blocked"
    using assms by (simp_all add: AddShare_def exec_def)
  with Suc show ?case by (cases "AddShare share l"; cases "fst (AddShare share l)") auto
qed simp

text \<open>
  On a database created by \<^verbatim>\<open>schema.sql\<close> no share is ever recorded: every share the master
  inserts has no block height, the column is declared NOT NULL, each insert fails, the error
  is only logged, and the ledger is left as it was, whatever the message.
\<close>
theorem schema_sql_records_no_share:
  assumes "\<not> txOpen l" "lschema l = schema_sql" "IsAddressValid keccak acfg wallet = Ret valid"
  shows "OnShareFound keccak acfg cfg now wallet diff n wid l = Ret (Ok (), l)"
  using assms by (simp add: OnShareFound_def add_shares_refused schema_sql_def new_share_def)

lemma schema_sql_records_no_share_witness:
  "OnShareFound (\<lambda>_. []) \<lparr>AddrPrefix = [24], SubaddrPrefix = [36]\<rparr> sample_cfg 100 [] 5 3 ''w'' (NewLedgerDB schema_sql)
     = Ret (Ok (), NewLedgerDB schema_sql)"
  by (rule schema_sql_records_no_share [where valid = False])
    (simp_all add: NewLedgerDB_def IsAddressValid_def decodeBase58_def decode_blocks.simps)

lemma add_shares_recorded:
  assumes "\<not> txOpen l" "sharesHeightNullable (lschema l)" "shBlockHeight share = None" "bindable (shDifficulty share)"
    "unat (nextShareID l) + n \<le> 2 ^ 63"
  shows "\<exists>l'. add_shares n share l = (Ok (), l') \<and> \<not> txOpen l' \<and> lschema l' = lschema l \<and>
    map (\<lambda>s. s\<lparr>shID := 0\<rparr>) (shares l') = map (\<lambda>s. s\<lparr>shID := 0\<rparr>) (shares l) @ replicate n (share\<lparr>shID := 0\<rparr>) \<and>
    unat (nextShareID l') = unat (nextShareID l) + n"
  using assms
proof (induction n arbitrary: l)
  case (Suc n)
  let ?l = "l\<lparr>shares := shares l @ [share\<lparr>shID := nextShareID l\<rparr>], nextShareID := nextShareID l + 1\<rparr>"
  have b: "bindable (nextShareID l)" using Suc.prems(5) by (simp add: bindable_unat)
  have a: "AddShare share l = (Ok (), ?l)" using Suc.prems b by (simp add: AddShare_def exec_def opt_arg_def fk_ok_def)
  have "unat (nextShareID l + 1) = unat (nextShareID l) + 1"
    using b by (simp add: bindable_unat unat_word_ariths)
  with Suc.IH [of ?l] Suc.prems obtain l' where "add_shares n share ?l = (Ok (), l')" "\<not> txOpen l'" "lschema l' = lschema l"
    "map (\<lambda>s. s\<lparr>shID := 0\<rparr>) (shares l') = (map (\<lambda>s. s\<lparr>shID := 0\<rparr>) (shares l) @ [share\<lparr>shID := 0\<rparr>]) @ replicate n (share\<lparr>shID := 0\<rparr>)"
    "unat (nextShareID l') = unat (nextShareID l) + 1 + n" by auto
  with a show ?case by auto
qed simp

section \<open>Messages of a slave that reports shares\<close>

text \<open>What a row of the shares table credits: address, worker and difficulty.\<close>

definition row_credit :: "Share \<Rightarrow> string \<times> string \<times> u64" where
  "row_credit s = (shMinerAddr s, shWorkerID s, shDifficulty s)"

text \<open>Whom the master credits: the fee address stands in for an invalid wallet.\<close>

definition credit_addr :: "(byte list \<Rightarrow> byte list) \<Rightarrow> addr_config \<Rightarrow> MasterConfig \<Rightarrow> string \<Rightarrow> string" where
  "credit_addr keccak acfg cfg w = (if IsAddressValid keccak acfg w = Ret True then w else cfgFeeAddress cfg)"

text \<open>The ledger is idle and has ids left for \<open>n\<close> more rows.\<close>

definition takes_shares :: "LedgerDB \<Rightarrow> nat \<Rightarrow> bool" where
  "takes_shares l n = (\<not> txOpen l \<and> unat (nextShareID l) + n \<le> 9223372036854775808)"

lemma credit_ignores_id: "map row_credit xs = map row_credit (map (\<lambda>s. s\<lparr>shID := 0\<rparr>) xs)"
  by (simp add: row_credit_def comp_def)

text \<open>The rows a report adds: none on the schema whose column is declared NOT NULL.\<close>

definition new_rows :: "LedgerDB \<Rightarrow> 'a list \<Rightarrow> 'a list" where
  "new_rows l rows = (if sharesHeightNullable (lschema l) then rows else [])"

lemma OnMessage_share_recorded:
  assumes "OnMessage_call (cfgUseP2Pool cfg) m = Ret (CallShareFound w d n wk)"
    and "IsAddressValid keccak acfg w = Ret v" "bindable d" "takes_shares (ledger st) (unat n + k)"
  shows "\<exists>l. OnMessage keccak acfg cfg now connId m st = Ret (Ok (), st\<lparr>ledger := l\<rparr>) \<and> takes_shares l k \<and>
    lschema l = lschema (ledger st) \<and>
    map row_credit (shares l) = map row_credit (shares (ledger st)) @
      new_rows (ledger st) (replicate (unat n) (credit_addr keccak acfg cfg w, wk, d))"
proof -
  let ?s = "new_share now (credit_addr keccak acfg cfg w) wk d"
  have call: "OnMessage keccak acfg cfg now connId m st = Ret (fst (add_shares (unat n) ?s (ledger st)),
      st\<lparr>ledger := snd (add_shares (unat n) ?s (ledger st))\<rparr>)"
    using assms(1,2) by (cases v) (simp_all add: OnMessage_def OnShareFound_def credit_addr_def case_prod_beta)
  show ?thesis
  proof (cases "sharesHeightNullable (lschema (ledger st))")
    case True
    have "\<not> txOpen (ledger st)" "unat (nextShareID (ledger st)) + unat n \<le> 2 ^ 63"
      using assms(4) by (simp_all add: takes_shares_def)
    from add_shares_recorded [OF this(1) True _ _ this(2), of ?s] assms(3)
    obtain l where l: "add_shares (unat n) ?s (ledger st) = (Ok (), l)" "\<not> txOpen l" "lschema l = lschema (ledger st)"
      "map (\<lambda>s. s\<lparr>shID := 0\<rparr>) (shares l) = map (\<lambda>s. s\<lparr>shID := 0\<rparr>) (shares (ledger st)) @ replicate (unat n) (?s\<lparr>shID := 0\<rparr>)"
      "unat (nextShareID l) = unat (nextShareID (ledger st)) + unat n"
      by (auto simp: new_share_def)
    have "map row_credit (shares l) = map row_credit (shares (ledger st)) @ replicate (unat n) (credit_addr keccak acfg cfg w, wk, d)"
      by (subst (1 2) credit_ignores_id) (simp add: l(4) row_credit_def new_share_def)
    moreover have "takes_shares l k" using l(2,5) assms(4) by (simp add: takes_shares_def)
    ultimately show ?thesis using call l(1,3) True by (intro exI [of _ l]) (simp add: new_rows_def)
  next
    case False
    have "add_shares (unat n) ?s (ledger st) = (Ok (), ledger st)"
      using assms(4) False by (intro add_shares_refused) (simp_all add: takes_shares_def new_share_def)
    then show ?thesis using call False assms(4)
      by (intro exI [of _ "ledger st"]) (simp add: takes_shares_def new_rows_def)
  qed
qed

lemma handle_messages_shares:
  assumes "map (OnMessage_call (cfgUseP2Pool cfg)) ms = map (\<lambda>(w, wk, d, n). Ret (CallShareFound w d n wk)) calls"
    and "\<forall>(w, wk, d, n) \<in> set calls. (\<exists>v. IsAddressValid keccak acfg w = Ret v) \<and> bindable d"
    and "takes_shares (ledger st) (\<Sum>(w, wk, d, n) \<leftarrow> calls. unat n)"
  shows "\<exists>l. handle_messages keccak acfg cfg clock connId k ms st = Ret (Ok (), st\<lparr>ledger := l\<rparr>) \<and>
    map row_credit (shares l) = map row_credit (shares (ledger st)) @
      new_rows (ledger st) (concat (map (\<lambda>(w, wk, d, n). replicate (unat n) (credit_addr keccak acfg cfg w, wk, d)) calls))"
  using assms
proof (induction calls arbitrary: ms st k)
  case Nil
  then show ?case by (intro exI [of _ "ledger st"]) (simp add: new_rows_def)
next
  case (Cons c calls)
  obtain w wk d n where c: "c = (w, wk, d, n)" by (cases c)
  obtain m ms' where ms: "ms = m # ms'" "OnMessage_call (cfgUseP2Pool cfg) m = Ret (CallShareFound w d n wk)"
    "map (OnMessage_call (cfgUseP2Pool cfg)) ms' = map (\<lambda>(w, wk, d, n). Ret (CallShareFound w d n wk)) calls"
    using Cons.prems(1) c by (cases ms) auto
  obtain v where v: "IsAddressValid keccak acfg w = Ret v" using Cons.prems(2) by (auto simp: c)
  obtain l1 where l1: "OnMessage keccak acfg cfg (clock k) connId m st = Ret (Ok (), st\<lparr>ledger := l1\<rparr>)"
    "takes_shares l1 (\<Sum>(w, wk, d, n) \<leftarrow> calls. unat n)" "lschema l1 = lschema (ledger st)"
    "map row_credit (shares l1) = map row_credit (shares (ledger st)) @
       new_rows (ledger st) (replicate (unat n) (credit_addr keccak acfg cfg w, wk, d))"
    using OnMessage_share_recorded [OF ms(2) v, of st "\<Sum>(w, wk, d, n) \<leftarrow> calls. unat n" "clock k" connId]
      Cons.prems(2,3) by (auto simp: c)
  obtain l2 where "handle_messages keccak acfg cfg clock connId (Suc k) ms' (st\<lparr>ledger := l1\<rparr>) = Ret (Ok (), st\<lparr>ledger := l2\<rparr>)"
    "map row_credit (shares l2) = map row_credit (shares l1) @
       new_rows l1 (concat (map (\<lambda>(w, wk, d, n). replicate (unat n) (credit_addr keccak acfg cfg w, wk, d)) calls))"
    using Cons.IH [OF ms(3), of "st\<lparr>ledger := l1\<rparr>" "Suc k"] Cons.prems(2) l1(2) by auto
  with l1 show ?case by (intro exI [of _ l2]) (simp add: ms(1) c new_rows_def)
qed

end
