(* ===== verification/Stats.thy ===== *)
theory Stats
  imports Master Go_Time
begin

text \<open>
  The statistics of the master: \<^verbatim>\<open>src/cmd/master/stats.go\<close> and the collector of
  \<^verbatim>\<open>src/cmd/master/stats_collector.go\<close>, which every few minutes appends a row to the chart
  tables of the ledger. A failed query is logged and replaced by a default; a query that never
  returns (\<open>Blocked\<close>) blocks the routine.
\<close>

section \<open>Hash rates of a wallet\<close>

text \<open>The value that replaces the result of a failed query.\<close>

definition on_error :: "'a \<Rightarrow> 'a res \<Rightarrow> 'a res" where
  "on_error d r = (case r of Err _ \<Rightarrow> Ok d | _ \<Rightarrow> r)"

definition Get5mHashrate :: "(Share list \<Rightarrow> Share list) \<Rightarrow> int \<Rightarrow> string \<Rightarrow> LedgerDB \<Rightarrow> f64 res" where
  "Get5mHashrate order now wallet l =
     (case GetMinerSharesInWindow order wallet (now - 300) l of
        Blocked \<Rightarrow> Blocked
      | Err _ \<Rightarrow> Ok (Fin 0)
      | Ok shs \<Rightarrow> Ok (math_Round (f64_of_u64 (total_diff shs) / Fin 300)))"

definition Get15mHashrate :: "(Share list \<Rightarrow> Share list) \<Rightarrow> int \<Rightarrow> string \<Rightarrow> LedgerDB \<Rightarrow> f64 res" where
  "Get15mHashrate order now wallet l =
     (case GetMinerSharesInWindow order wallet (now - 900) l of
        Blocked \<Rightarrow> Blocked
      | Err _ \<Rightarrow> Ok (Fin 0)
      | Ok shs \<Rightarrow> Ok (math_Round (f64_of_u64 (total_diff shs) / Fin 900)))"

definition sanitizeFloat :: "f64 \<Rightarrow> f64" where
  "sanitizeFloat val = (if IsNaN val \<or> IsInf val then Fin 0 else val)"

section \<open>The collector\<close>

record StatsCollector =
  interval :: duration

definition NewStatsCollector :: "int \<Rightarrow> StatsCollector" where
  "NewStatsCollector intervalMinutes = \<lparr>interval = Minutes intervalMinutes\<rparr>"

definition getBlocksFoundSince :: "int \<Rightarrow> LedgerDB \<Rightarrow> BlockInfo list res" where
  "getBlocksFoundSince since l =
     res_bind (GetRecentBlocks 1000 l) (\<lambda>blocks. Ok (filter (\<lambda>b. since \<le> biTimestamp b) blocks))"

definition maxInt64 :: u64 where
  "maxInt64 = 9223372036854775807"

definition cap_int64 :: "u64 \<Rightarrow> u64" where
  "cap_int64 x = (if maxInt64 < x then maxInt64 else x)"

text \<open>The row of the pool; \<open>Err\<close> when the shares could not be read.\<close>

definition pool_stats_row ::
  "(f64 \<Rightarrow> u64) \<Rightarrow> (Share list \<Rightarrow> Share list) \<Rightarrow> u64 \<Rightarrow> int \<Rightarrow> LedgerDB \<Rightarrow> PoolStats res" where
  "pool_stats_row conv order blockTime now l =
     res_bind (GetSharesInWindow order (now - 300) l) (\<lambda>shs.
     let poolHashrate = f64_of_u64 (total_diff shs) / Fin 300 in
     res_bind (on_error 0 (GetActiveMinerCount (now - 600) l)) (\<lambda>minerCount.
     res_bind (on_error 0 (GetActiveWorkerCount (now - 600) l)) (\<lambda>workerCount.
     res_bind (on_error 1 (res_bind (GetBlockchainInfo l) (\<lambda>(_, _, d). Ok d))) (\<lambda>difficulty.
     let netHashrate = f64_of_u64 difficulty / f64_of_u64 blockTime in
     res_bind (on_error [] (getBlocksFoundSince (now - 3600) l)) (\<lambda>blocks1h.
     res_bind (on_error [] (getBlocksFoundSince (now - 86400) l)) (\<lambda>blocks24h.
     Ok \<lparr>psTimestamp = now, psTotalHashrate = u64_of_f64 conv poolHashrate,
         psNetworkHashrate = cap_int64 (u64_of_f64 conv netHashrate), psNetworkDifficulty = cap_int64 difficulty,
         psConnectedMiners = int minerCount, psConnectedWorkers = int workerCount,
         psBlocksFound24h = int (length blocks24h)\<rparr>))))))"

section \<open>Statistics of the miners\<close>

definition group_shares :: "Share list \<Rightarrow> string \<rightharpoonup> Share list" where
  "group_shares shs = foldl (\<lambda>m s. m(shMinerAddr s \<mapsto> map_get [] m (shMinerAddr s) @ [s])) Map.empty shs"

text \<open>The total difficulty of the shares from a time on, with the wrap-around of \<open>uint64\<close>.\<close>

definition diff_since :: "int \<Rightarrow> Share list \<Rightarrow> u64" where
  "diff_since t shs = foldl (\<lambda>d s. if t \<le> shTimestamp s then d + shDifficulty s else d) 0 shs"

record MinerHashrate =
  mhMinerAddr :: string
  mhHashrate5m :: f64
  mhHashrate15m :: f64
  mhHashrate1h :: f64
  mhWorkerCount :: nat

definition miner_hashrate :: "int \<Rightarrow> string \<Rightarrow> Share list \<Rightarrow> MinerHashrate" where
  "miner_hashrate now addr shs =
     \<lparr>mhMinerAddr = addr,
      mhHashrate5m = f64_of_u64 (diff_since (now - 300) shs) / Fin 300,
      mhHashrate15m = f64_of_u64 (diff_since (now - 900) shs) / Fin 900,
      mhHashrate1h = f64_of_u64 (diff_since (now - 3600) shs) / Fin 3600,
      mhWorkerCount = card (shWorkerID ` set shs)\<rparr>"

text \<open>The rows that are handed to the ledger, in the order in which the map is iterated.\<close>

definition miner_rows ::
  "(Share list \<Rightarrow> Share list) \<Rightarrow> ((string \<rightharpoonup> Share list) \<Rightarrow> string list) \<Rightarrow> int \<Rightarrow> LedgerDB \<Rightarrow> MinerHashrate list res" where
  "miner_rows order rng now l =
     res_bind (GetSharesInWindow order (now - 3600) l) (\<lambda>shs.
     let minerShares = group_shares shs in
     Ok (map (\<lambda>addr. miner_hashrate now addr (map_get [] minerShares addr)) (rng minerShares)))"

fun store_rows :: "MinerHashrate list \<Rightarrow> LedgerDB \<Rightarrow> unit res \<times> LedgerDB" where
  "store_rows [] l = (Ok (), l)"
| "store_rows (r # rs) l =
     (case StoreMinerHashrate l of
        (Blocked, l') \<Rightarrow> (Blocked, l')
      | (_, l') \<Rightarrow> store_rows rs l')"

definition collectMinerStats ::
  "(Share list \<Rightarrow> Share list) \<Rightarrow> ((string \<rightharpoonup> Share list) \<Rightarrow> string list) \<Rightarrow> int \<Rightarrow> LedgerDB \<Rightarrow> unit res \<times> LedgerDB" where
  "collectMinerStats order rng now l =
     (case miner_rows order rng now l of
        Blocked \<Rightarrow> (Blocked, l)
      | Err _ \<Rightarrow> (Ok (), l)
      | Ok rows \<Rightarrow> store_rows rows l)"

text \<open>\<open>now2\<close> is the reading of the clock inside the clean-up.\<close>

definition collectStats ::
  "(f64 \<Rightarrow> u64) \<Rightarrow> (Share list \<Rightarrow> Share list) \<Rightarrow> ((string \<rightharpoonup> Share list) \<Rightarrow> string list) \<Rightarrow> u64 \<Rightarrow> int \<Rightarrow> int \<Rightarrow> LedgerDB
     \<Rightarrow> unit res \<times> LedgerDB" where
  "collectStats conv order rng blockTime now now2 l =
     (case pool_stats_row conv order blockTime now l of
        Blocked \<Rightarrow> (Blocked, l)
      | Err _ \<Rightarrow> (Ok (), l)
      | Ok st \<Rightarrow>
          (case StorePoolStats st l of
             (Blocked, l1) \<Rightarrow> (Blocked, l1)
           | (_, l1) \<Rightarrow>
               (case collectMinerStats order rng now l1 of
                  (Blocked, l2) \<Rightarrow> (Blocked, l2)
                | (_, l2) \<Rightarrow>
                    (case CleanupOldChartData now2 7 l2 of
                       (Blocked, l3) \<Rightarrow> (Blocked, l3)
                     | (_, l3) \<Rightarrow> (Ok (), l3)))))"

text \<open>The collecting goroutine until \<open>Stop\<close> closes its channel: one collection at the start and one for
  every tick, each with its block time and readings of the clock.\<close>

fun collectLoop ::
  "(f64 \<Rightarrow> u64) \<Rightarrow> (Share list \<Rightarrow> Share list) \<Rightarrow> ((string \<rightharpoonup> Share list) \<Rightarrow> string list) \<Rightarrow> (u64 \<times> int \<times> int) list \<Rightarrow> LedgerDB
     \<Rightarrow> unit res \<times> LedgerDB" where
  "collectLoop conv order rng [] l = (Ok (), l)"
| "collectLoop conv order rng ((blockTime, now, now2) # ticks) l =
     (case collectStats conv order rng blockTime now now2 l of
        (Blocked, l') \<Rightarrow> (Blocked, l')
      | (_, l') \<Rightarrow> collectLoop conv order rng ticks l')"

section \<open>Bounds of the collected values\<close>

lemma div_const_Fin:
  assumes "x \<le> 2 ^ 64" "0 \<le> x" "1 \<le> c"
  shows "Fin x / Fin c = Fin (rnd64 (x / c))" and "rnd64 (x / c) \<le> 2 ^ 64"
proof -
  have q: "x / c \<le> x" using assms(2,3) mult_left_mono [of 1 c x] by (simp add: divide_le_eq)
  then have "x / c \<le> 2 ^ 64" using assms(1) by linarith
  moreover have "0 \<le> x / c" using assms by simp
  ultimately show "Fin x / Fin c = Fin (rnd64 (x / c))"
    using assms(3) pow2_64_le by (simp add: divide_f64_def) (intro f64_round_Fin, auto)
  have "rnd64 (x / c) \<le> rnd64 (pow2 64)"
    using \<open>x / c \<le> 2 ^ 64\<close> by (intro r64.rd_mono) (simp add: pow2_def)
  also have "rnd64 (pow2 64) = pow2 64" by (rule rnd64_pow2) simp
  finally show "rnd64 (x / c) \<le> 2 ^ 64" by (simp add: pow2_def)
qed

lemma pool_rate_bindable: "bindable (u64_of_f64 conv (f64_of_u64 t / Fin 300))"
proof -
  let ?r = "rnd64 (of_nat (unat t))"
  have r: "0 \<le> ?r" by (rule rnd_nonneg) simp
  have r64: "?r \<le> 2 ^ 64" by (rule rnd64_u64_le)
  have le: "rnd64 (?r / 300) \<le> 2 ^ 60"
  proof -
    have "rnd64 (?r / 300) \<le> rnd64 (pow2 60)"
      using r64 by (intro r64.rd_mono) (simp add: pow2_def)
    also have "rnd64 (pow2 60) = pow2 60" by (rule rnd64_pow2) simp
    finally show ?thesis by (simp add: pow2_def)
  qed
  have "0 \<le> rnd64 (?r / 300)" using r by (simp add: rnd_nonneg)
  then have z: "rat_trunc (rnd64 (?r / 300)) \<le> 2 ^ 60" "0 \<le> rat_trunc (rnd64 (?r / 300))"
    using le by (simp_all add: rat_trunc_def floor_le_iff)
  then have "int (unat (of_int (rat_trunc (rnd64 (?r / 300))) :: u64)) = rat_trunc (rnd64 (?r / 300))"
    by (intro unat_of_int_u64) simp_all
  with z have "bindable (of_int (rat_trunc (rnd64 (?r / 300))))" by (simp add: bindable_unat)
  moreover have "f64_of_u64 t / Fin 300 = Fin (rnd64 (?r / 300))"
    unfolding f64_of_u64_Fin using r r64 by (intro div_const_Fin(1)) simp_all
  ultimately show ?thesis using z by (simp add: u64_of_f64_def)
qed

lemma cap_int64_bindable: "bindable (cap_int64 x)"
  by (simp add: bindable_unat cap_int64_def maxInt64_def word_less_nat_alt)


section \<open>The history stays readable\<close>

text \<open>The rows whose three \<open>uint64\<close> columns scan back.\<close>

definition history_ok :: "LedgerDB \<Rightarrow> bool" where
  "history_ok l = (\<forall>r \<in> set (pool_stats_history l).
     bindable (psTotalHashrate r) \<and> bindable (psNetworkHashrate r) \<and> bindable (psNetworkDifficulty r))"

lemma res_bind_eq_Ok: "res_bind r f = Ok y \<longleftrightarrow> (\<exists>x. r = Ok x \<and> f x = Ok y)"
  by (cases r) auto

lemma pool_stats_row_ok:
  assumes "pool_stats_row conv order blockTime now l = Ok st"
  shows "bindable (psTotalHashrate st) \<and> bindable (psNetworkHashrate st) \<and> bindable (psNetworkDifficulty st)"
  using assms by (auto simp: pool_stats_row_def res_bind_eq_Ok Let_def pool_rate_bindable cap_int64_bindable)

lemma StorePoolStats_history:
  "history_ok l \<Longrightarrow> bindable (psTotalHashrate st) \<Longrightarrow> bindable (psNetworkHashrate st) \<Longrightarrow> bindable (psNetworkDifficulty st)
    \<Longrightarrow> history_ok (snd (StorePoolStats st l))"
  by (auto simp: StorePoolStats_def exec_def history_ok_def)

lemma StoreMinerHashrate_id: "snd (StoreMinerHashrate l) = l"
  by (simp add: StoreMinerHashrate_def exec_def)

lemma store_rows_id: "snd (store_rows rs l) = l"
  using StoreMinerHashrate_id [of l]
  by (induction rs arbitrary: l) (auto simp: StoreMinerHashrate_def exec_def)

lemma collectMinerStats_id: "snd (collectMinerStats order rng now l) = l"
  by (simp add: collectMinerStats_def store_rows_id split: res.splits)

lemma CleanupOldChartData_history: "history_ok l \<Longrightarrow> history_ok (snd (CleanupOldChartData now days l))"
  by (auto simp: CleanupOldChartData_def exec_def history_ok_def)

lemma collectStats_history:
  assumes "history_ok l"
  shows "history_ok (snd (collectStats conv order rng blockTime now now2 l))"
proof (cases "pool_stats_row conv order blockTime now l")
  case (Ok st)
  define l1 where "l1 = snd (StorePoolStats st l)"
  have h: "history_ok l1"
    using StorePoolStats_history [OF assms] pool_stats_row_ok [OF Ok] by (simp add: l1_def)
  then have "history_ok (snd (CleanupOldChartData now2 7 l1))" by (rule CleanupOldChartData_history)
  with h show ?thesis
    using Ok collectMinerStats_id [of order rng now l1]
    by (auto simp: collectStats_def l1_def split: prod.splits res.splits)
qed (use assms in \<open>simp_all add: collectStats_def\<close>)

text \<open>The collector beside every other writer of the ledger.\<close>

datatype chart_event =
    Collect "f64 \<Rightarrow> u64" u64 int int
  | OtherWrite ledger_op

fun chart_ok :: "chart_event \<Rightarrow> bool" where
  "chart_ok (OtherWrite (OpStorePoolStats st)) = False"
| "chart_ok e = True"

fun chart_step ::
  "(Share list \<Rightarrow> Share list) \<Rightarrow> ((string \<rightharpoonup> Share list) \<Rightarrow> string list) \<Rightarrow> LedgerDB \<Rightarrow> chart_event \<Rightarrow> LedgerDB" where
  "chart_step order rng l (Collect conv blockTime now now2) = snd (collectStats conv order rng blockTime now now2 l)"
| "chart_step order rng l (OtherWrite e) = ledger_step l e"

lemma history_frame: "pool_stats_history l' = pool_stats_history l \<Longrightarrow> history_ok l \<Longrightarrow> history_ok l'"
  by (simp add: history_ok_def)

lemma ledger_step_history:
  assumes "history_ok l" "chart_ok (OtherWrite e)"
  shows "history_ok (ledger_step l e)"
proof (cases e)
  case (OpCleanup now days)
  then show ?thesis using assms(1) by (simp add: ledger_step_def CleanupOldChartData_history)
qed (use assms in \<open>auto simp: ledger_step_def ledger_write_defs exec_def Let_def intro: history_frame split: option.splits\<close>)

interpretation charts: step_invariant "chart_step order rng" chart_ok history_ok for order rng
proof unfold_locales
  fix l e
  assume "history_ok l" "chart_ok e"
  then show "history_ok (chart_step order rng l e)"
    by (cases e) (simp_all add: collectStats_history ledger_step_history)
qed

lemma res_map_filter_Ok: "\<forall>x \<in> set xs. P x \<Longrightarrow> res_map (\<lambda>x. if P x then Ok x else Err e) xs = Ok xs"
  by (induction xs) auto

text \<open>
  C30: the charts stay readable. Starting from an empty database, however collections and all other
  writes of the ledger are interleaved, whatever the difficulty and the block time are (a block
  time of 0 makes the network hash rate infinite) and however the platform converts such values,
  every row that the collector stores scans back, so that reading the history never fails.
\<close>
theorem collected_history_readable:
  assumes "\<forall>e \<in> set es. chart_ok e"
    and "l = run (chart_step order rng) (NewLedgerDB sc) es" and "\<not> txOpen l"
  shows "\<exists>rows. GetPoolStatsHistory now hours l = Ok rows \<and>
     set rows = {r \<in> set (pool_stats_history l). now - hours * 3600 < psTimestamp r}"
proof -
  have "history_ok (NewLedgerDB sc)" by (simp add: history_ok_def NewLedgerDB_def)
  from charts.run_keeps [OF this assms(1)] have h: "history_ok l" by (simp add: assms(2))
  let ?rows = "sort_key psTimestamp (filter (\<lambda>r. now - hours * 3600 < psTimestamp r) (pool_stats_history l))"
  have "GetPoolStatsHistory now hours l = Ok ?rows"
    using assms(3) h by (simp add: GetPoolStatsHistory_def query_def res_map_filter_Ok history_ok_def)
  then show ?thesis by auto
qed

lemma collected_history_readable_witness:
  "\<exists>rows. GetPoolStatsHistory 1000 1 (run (chart_step id (\<lambda>_. [])) (NewLedgerDB schema_sql)
       [OtherWrite (OpUpdateChain 5 0 18446744073709551615), Collect (\<lambda>_. - 1) 0 900 900]) = Ok rows \<and> rows \<noteq> []"
proof -
  let ?es = "[OtherWrite (OpUpdateChain 5 0 18446744073709551615), Collect (\<lambda>_. - 1) 0 900 900]"
  let ?l = "run (chart_step id (\<lambda>_. [])) (NewLedgerDB schema_sql) ?es"
  have tx: "\<not> txOpen ?l" and m: "900 \<in> psTimestamp ` set (pool_stats_history ?l)"
    by (simp_all add: ledger_step_def ledger_write_defs exec_def NewLedgerDB_def bindable_def collectStats_def
        pool_stats_row_def GetSharesInWindow_def query_def on_error_def GetActiveMinerCount_def GetActiveWorkerCount_def
        GetBlockchainInfo_def getBlocksFoundSince_def GetRecentBlocks_def collectMinerStats_def miner_rows_def Let_def
        group_shares_def)
  from collected_history_readable [OF _ refl tx, of 1000 1] m
  show ?thesis by fastforce
qed

section \<open>Three ways to the same hash rate\<close>

lemma diff_since_sum: "diff_since t shs = sum_list (map shDifficulty (filter (\<lambda>s. t \<le> shTimestamp s) shs))"
  by (induction shs rule: rev_induct) (auto simp: diff_since_def)

lemma group_shares_snoc:
  "group_shares (shs @ [s]) = (group_shares shs)(shMinerAddr s \<mapsto> map_get [] (group_shares shs) (shMinerAddr s) @ [s])"
  by (simp only: group_shares_def foldl_append foldl_Cons foldl_Nil)

lemma group_shares_get: "map_get [] (group_shares shs) a = filter (\<lambda>s. shMinerAddr s = a) shs"
proof (induction shs rule: rev_induct)
  case (snoc s shs)
  then show ?case unfolding group_shares_snoc map_get_upd by auto
qed (simp add: group_shares_def)

lemma dom_group_shares: "dom (group_shares shs) = shMinerAddr ` set shs"
proof (induction shs rule: rev_induct)
  case (snoc s shs)
  then show ?case unfolding group_shares_snoc dom_fun_upd by simp
qed (simp add: group_shares_def)

text \<open>A query's result has the rows it selects, in some order.\<close>

definition permutes :: "('a list \<Rightarrow> 'a list) \<Rightarrow> bool" where
  "permutes order = (\<forall>xs. mset (order xs) = mset xs)"

lemma orders_by_permutes: "orders_by key order \<Longrightarrow> permutes order"
  by (simp add: orders_by_def permutes_def)

lemma sum_filter_order:
  fixes f :: "'a \<Rightarrow> 'b::comm_monoid_add"
  assumes "permutes order"
  shows "sum_list (map f (filter P (order xs))) = sum_list (map f (filter P xs))"
proof -
  have "mset (map f (filter P (order xs))) = mset (map f (filter P xs))"
    using assms by (simp add: permutes_def mset_filter)
  then show ?thesis by (metis sum_mset_sum_list)
qed

end
