(* ===== verification/Updater.thy ===== *)
theory Updater
  imports Master
begin

text \<open>
  \<^verbatim>\<open>src/cmd/master/updater.go\<close>: incoming wallet transfers become blocks, distributions and
  queued payments. The daemon and the wallet are services: what their RPC calls return is an
  argument. The distributions and payments of a transfer are written inside
  \<open>WithTransaction\<close>, but through the ledger's own connection pool, as in the code.
\<close>

record TransferInfo =
  tiTxid :: string
  tiHeight :: u64
  tiAmount :: u64
  tiTimestamp :: int

section \<open>Distributions of a transfer\<close>

definition net_reward :: "(f64 \<Rightarrow> u64) \<Rightarrow> f64 \<Rightarrow> u64 \<Rightarrow> u64" where
  "net_reward conv feePercent gross = u64_of_f64 conv (f64_of_u64 gross * (Fin 100 - feePercent) / Fin 100)"

definition miner_distribution ::
  "(f64 \<Rightarrow> u64) \<Rightarrow> MasterConfig \<Rightarrow> int \<Rightarrow> TransferInfo \<Rightarrow> u64 \<Rightarrow> string \<Rightarrow> u64 \<Rightarrow> Distribution" where
  "miner_distribution conv cfg now transfer totalShares minerAddr shareCount =
     (let rewardGross = part_reward conv (tiAmount transfer) shareCount totalShares
      in \<lparr>diID = 0, diBlockHeight = tiHeight transfer, diMinerAddr = minerAddr, diSharesContrib = shareCount,
          diPercentage = share_of_total shareCount totalShares, diRewardGross = rewardGross,
          diRewardNet = net_reward conv (cfgFeePercent cfg) rewardGross, diCalculatedAt = now\<rparr>)"

definition fee_distribution :: "(f64 \<Rightarrow> u64) \<Rightarrow> MasterConfig \<Rightarrow> int \<Rightarrow> TransferInfo \<Rightarrow> Distribution" where
  "fee_distribution conv cfg now transfer =
     (let poolFee = tiAmount transfer - net_reward conv (cfgFeePercent cfg) (tiAmount transfer)
      in \<lparr>diID = 0, diBlockHeight = tiHeight transfer, diMinerAddr = cfgFeeAddress cfg, diSharesContrib = 0,
          diPercentage = cfgFeePercent cfg / Fin 100, diRewardGross = poolFee, diRewardNet = poolFee,
          diCalculatedAt = now\<rparr>)"

definition calculateDistributions ::
  "(f64 \<Rightarrow> u64) \<Rightarrow> (Share list \<Rightarrow> Share list) \<Rightarrow> ((string \<rightharpoonup> u64) \<Rightarrow> string list) \<Rightarrow> MasterConfig \<Rightarrow> int \<Rightarrow> TransferInfo
   \<Rightarrow> LedgerDB \<Rightarrow> Distribution list res" where
  "calculateDistributions conv order rng cfg now transfer l =
     res_bind (GetSharesInWindow order (now - 21600) l) (\<lambda>shs.
       if shs = [] then Ok []
       else let m = miner_diffs shs; totalShares = total_diff shs
            in Ok (map (\<lambda>a. miner_distribution conv cfg now transfer totalShares a (map_get 0 m a)) (rng m)
                     @ [fee_distribution conv cfg now transfer]))"

section \<open>Processing a transfer\<close>

fun create_distributions :: "Distribution list \<Rightarrow> LedgerDB \<Rightarrow> unit res \<times> LedgerDB" where
  "create_distributions [] l = (Ok (), l)"
| "create_distributions (d # ds) l =
     (case CreateDistribution d l of
        (Ok _, l') \<Rightarrow> create_distributions ds l'
      | (r, l') \<Rightarrow> (r, l'))"

definition queued_payment :: "int \<Rightarrow> u64 \<Rightarrow> Distribution \<Rightarrow> Payment" where
  "queued_payment now height d =
     \<lparr>paID = 0, paBlockHeight = Some height, paRecipientAddr = diMinerAddr d, paAmount = diRewardNet d, paFee = 0,
      paTxID = None, paStatus = ''pending'', paCreatedAt = now, paSentAt = None, paConfirmedAt = None, paUpdatedAt = None\<rparr>"

fun create_payments :: "int \<Rightarrow> u64 \<Rightarrow> Distribution list \<Rightarrow> LedgerDB \<Rightarrow> unit res \<times> LedgerDB" where
  "create_payments now height [] l = (Ok (), l)"
| "create_payments now height (d # ds) l =
     (case CreatePayment (queued_payment now height d) l of
        (Ok _, l') \<Rightarrow> create_payments now height ds l'
      | (r, l') \<Rightarrow> (r, l'))"

definition write_distributions :: "int \<Rightarrow> u64 \<Rightarrow> Distribution list \<Rightarrow> LedgerDB \<Rightarrow> unit res \<times> LedgerDB" where
  "write_distributions now height ds l =
     (case create_distributions ds l of
        (Ok _, l') \<Rightarrow> create_payments now height ds l'
      | (r, l') \<Rightarrow> (r, l'))"

definition transfer_block :: "int \<Rightarrow> TransferInfo \<Rightarrow> Ledger.BlockFound" where
  "transfer_block now transfer =
     \<lparr>bfHeight = tiHeight transfer, bfHash = tiTxid transfer, bfRewardTotal = tiAmount transfer,
      bfTimestamp = tiTimestamp transfer, bfFoundAt = now, bfProcessedAt = None, bfStatus = ''processing''\<rparr>"

definition processTransfer ::
  "(f64 \<Rightarrow> u64) \<Rightarrow> (Share list \<Rightarrow> Share list) \<Rightarrow> ((string \<rightharpoonup> u64) \<Rightarrow> string list) \<Rightarrow> MasterConfig \<Rightarrow> int \<Rightarrow> TransferInfo
   \<Rightarrow> LedgerDB \<Rightarrow> unit res \<times> LedgerDB" where
  "processTransfer conv order rng cfg now transfer l =
     (case IsBlockProcessed (tiHeight transfer) l of
        Blocked \<Rightarrow> (Blocked, l)
      | Err e \<Rightarrow> (Err e, l)
      | Ok True \<Rightarrow> (Ok (), l)
      | Ok False \<Rightarrow>
          (case CreateBlock (transfer_block now transfer) l of
             (Ok _, l1) \<Rightarrow>
               (case calculateDistributions conv order rng cfg now transfer l1 of
                  Blocked \<Rightarrow> (Blocked, l1)
                | Err e \<Rightarrow> (Err e, l1)
                | Ok ds \<Rightarrow>
                    (case WithTransaction (write_distributions now (tiHeight transfer) ds) l1 of
                       (Ok _, l2) \<Rightarrow> MarkBlockProcessed now (tiHeight transfer) l2
                     | (r, l2) \<Rightarrow> (r, l2)))
           | (r, l1) \<Rightarrow> (r, l1)))"

section \<open>The update of the balances\<close>

record UpdaterState =
  uLedger :: LedgerDB
  minHeight :: u64

definition raise_min :: "u64 \<Rightarrow> u64 \<Rightarrow> u64" where
  "raise_min height mh = (if mh \<le> height then height + 1 else mh)"

definition update_transfer ::
  "(f64 \<Rightarrow> u64) \<Rightarrow> (Share list \<Rightarrow> Share list) \<Rightarrow> ((string \<rightharpoonup> u64) \<Rightarrow> string list) \<Rightarrow> MasterConfig \<Rightarrow> int \<Rightarrow> TransferInfo
   \<Rightarrow> UpdaterState \<Rightarrow> unit res \<times> UpdaterState" where
  "update_transfer conv order rng cfg now vt st =
     (case IsTransferProcessed (tiTxid vt) (uLedger st) of
        Blocked \<Rightarrow> (Blocked, st)
      | Err _ \<Rightarrow> (Ok (), st)
      | Ok True \<Rightarrow> (Ok (), st\<lparr>minHeight := raise_min (tiHeight vt) (minHeight st)\<rparr>)
      | Ok False \<Rightarrow>
          (case processTransfer conv order rng cfg now vt (uLedger st) of
             (Blocked, l) \<Rightarrow> (Blocked, st\<lparr>uLedger := l\<rparr>)
           | (Err _, l) \<Rightarrow> (Ok (), st\<lparr>uLedger := l\<rparr>)
           | (Ok _, l) \<Rightarrow>
               (case MarkTransferProcessed now (tiTxid vt) (tiHeight vt) (tiAmount vt) l of
                  (Blocked, l') \<Rightarrow> (Blocked, st\<lparr>uLedger := l'\<rparr>)
                | (Err _, l') \<Rightarrow> (Ok (), st\<lparr>uLedger := l'\<rparr>)
                | (Ok _, l') \<Rightarrow> (Ok (), st\<lparr>uLedger := l', minHeight := raise_min (tiHeight vt) (minHeight st)\<rparr>))))"

fun update_transfers ::
  "(f64 \<Rightarrow> u64) \<Rightarrow> (Share list \<Rightarrow> Share list) \<Rightarrow> ((string \<rightharpoonup> u64) \<Rightarrow> string list) \<Rightarrow> MasterConfig \<Rightarrow> int \<Rightarrow> TransferInfo list
   \<Rightarrow> UpdaterState \<Rightarrow> unit res \<times> UpdaterState" where
  "update_transfers conv order rng cfg now [] st = (Ok (), st)"
| "update_transfers conv order rng cfg now (vt # vts) st =
     (case update_transfer conv order rng cfg now vt st of
        (Blocked, st') \<Rightarrow> (Blocked, st')
      | (_, st') \<Rightarrow> update_transfers conv order rng cfg now vts st')"

text \<open>
  \<open>UpdatePendingBals\<close>; \<open>transfers\<close> is what the wallet returned, \<open>None\<close> when one of the two RPC
  calls failed. (The loop that counts the unprocessed transfers only reads the ledger.)
\<close>

definition UpdatePendingBals ::
  "(f64 \<Rightarrow> u64) \<Rightarrow> (Share list \<Rightarrow> Share list) \<Rightarrow> ((string \<rightharpoonup> u64) \<Rightarrow> string list) \<Rightarrow> MasterConfig \<Rightarrow> int
   \<Rightarrow> TransferInfo list option \<Rightarrow> UpdaterState \<Rightarrow> unit res \<times> UpdaterState" where
  "UpdatePendingBals conv order rng cfg now transfers st =
     (case transfers of None \<Rightarrow> (Ok (), st)
      | Some ts \<Rightarrow>
        let ts' = sort_key tiHeight ts in
        (case update_transfers conv order rng cfg now ts' st of
           (Blocked, st') \<Rightarrow> (Blocked, st')
         | (_, st') \<Rightarrow>
             (if ts' = [] then (Ok (), st')
              else let highestHeight = tiHeight (last ts') in
                (case UpdateLastProcessedHeight highestHeight (uLedger st') of
                   (Blocked, l) \<Rightarrow> (Blocked, st'\<lparr>uLedger := l\<rparr>)
                 | (_, l) \<Rightarrow> (Ok (), st'\<lparr>uLedger := l, minHeight := highestHeight + 1\<rparr>)))))"

definition initTransferTracking :: "LedgerDB \<Rightarrow> UpdaterState res" where
  "initTransferTracking l =
     (case GetLastProcessedHeight l of
        Blocked \<Rightarrow> Blocked
      | Err _ \<Rightarrow> Ok \<lparr>uLedger = l, minHeight = 0\<rparr>
      | Ok lastHeight \<Rightarrow> Ok \<lparr>uLedger = l, minHeight = lastHeight + 1\<rparr>)"

text \<open>One round of the update loop on the chain state: what the daemon reported, and whether the
  height changed (which starts \<open>UpdatePendingBals\<close>).\<close>

definition updater_height :: "u64 \<Rightarrow> u64 \<Rightarrow> LedgerDB \<Rightarrow> (bool \<times> LedgerDB) res" where
  "updater_height infoHeight infoDifficulty l =
     (let go = (\<lambda>currentHeight.
        if infoHeight \<noteq> currentHeight then
          (case UpdateBlockchainInfo infoHeight 0 infoDifficulty l of
             (Blocked, _) \<Rightarrow> Blocked
           | (_, l') \<Rightarrow> Ok (True, l'))
        else Ok (False, l))
      in case GetBlockchainInfo l of
           Blocked \<Rightarrow> Blocked
         | Err _ \<Rightarrow> go 0
         | Ok (currentHeight, _, _) \<Rightarrow> go currentHeight)"

text \<open>One round of the loop of \<open>Updater\<close>: height, difficulty and target of the daemon (\<open>None\<close> for an
  error); the second component of the state is the global \<open>config.BlockTime\<close>, 0 when the process
  starts. The flag says whether \<open>CheckWithdraw\<close> and \<open>UpdatePendingBals\<close> are started.\<close>

definition Updater_round :: "(u64 \<times> u64 \<times> u64) option \<Rightarrow> LedgerDB \<times> u64 \<Rightarrow> (bool \<times> LedgerDB \<times> u64) res" where
  "Updater_round info = (\<lambda>(l, blockTime).
     case info of
       None \<Rightarrow> Ok (False, l, blockTime)
     | Some (height, difficulty, target) \<Rightarrow>
         res_bind (updater_height height difficulty l) (\<lambda>(heightChanged, l').
           Ok (heightChanged, l', if heightChanged then target else blockTime)))"

definition UpdateReward :: "u64 option \<Rightarrow> LedgerDB \<Rightarrow> unit res \<times> LedgerDB" where
  "UpdateReward headerReward l =
     (case headerReward of None \<Rightarrow> (Ok (), l)
      | Some reward \<Rightarrow>
        (case GetBlockchainInfo l of
           Blocked \<Rightarrow> (Blocked, l)
         | Err _ \<Rightarrow> (Ok (), l)
         | Ok (height, _, difficulty) \<Rightarrow>
             (case UpdateBlockchainInfo height reward difficulty l of
                (Blocked, l') \<Rightarrow> (Blocked, l')
              | (_, l') \<Rightarrow> (Ok (), l'))))"


section \<open>The transaction and its connection\<close>

lemma open_transaction_blocks: "txOpen l \<Longrightarrow> ledger_exec e l = (Blocked, l)"
  by (cases e) (simp_all add: MarkTransferProcessed_def CreateBlock_def AddBlockFound_def MarkBlockProcessed_def
      AddShare_def CreateDistribution_def CreatePayment_def UpdatePaymentStatus_def ReplaceBalance_def
      InsertPoolFee_def StorePoolStats_def CleanupOldChartData_def UpdateBlockchainInfo_def
      UpdateLastProcessedHeight_def exec_def)

lemma write_distributions_Blocked:
  "txOpen l \<Longrightarrow> ds \<noteq> [] \<Longrightarrow> write_distributions now h ds l = (Blocked, l)"
  by (cases ds) (auto simp: write_distributions_def CreateDistribution_def exec_def)

lemma WithTransaction_write:
  assumes "\<not> txOpen l"
  shows "WithTransaction (write_distributions now h ds) l =
    (if ds = [] then (Ok (), l) else (Blocked, l\<lparr>txOpen := True\<rparr>))"
  using assms by (simp add: WithTransaction_def write_distributions_Blocked) (simp add: write_distributions_def)

lemma CreateBlock_frame:
  assumes "CreateBlock b l = (Ok (), l1)"
  shows "txOpen l1 = txOpen l" "shares l1 = shares l" "payments l1 = payments l" "lschema l1 = lschema l"
  using assms by (auto simp: CreateBlock_def exec_def insert_block_def split: if_splits)

lemma MarkBlockProcessed_effect:
  assumes "txOpen l = False" "bindable h" "has_block l h"
  shows "\<exists>l'. MarkBlockProcessed now h l = (Ok (), l') \<and> payments l' = payments l \<and> IsBlockProcessed h l' = Ok True"
proof -
  let ?g = "\<lambda>b. if bfHeight b = h then b\<lparr>bfProcessedAt := Some now, bfStatus := ''completed''\<rparr> else b"
  obtain b where b: "b \<in> set (blocks_found l)" "bfHeight b = h" using assms(3) by (auto simp: has_block_def list_ex_iff)
  then have "?g b \<in> set (filter (\<lambda>b. bfHeight b = h \<and> bfStatus b \<in> {''completed'', ''orphaned''}) (map ?g (blocks_found l)))"
    by auto
  then have "0 < length (filter (\<lambda>b. bfHeight b = h \<and> bfStatus b \<in> {''completed'', ''orphaned''}) (map ?g (blocks_found l)))"
    by (rule length_pos_if_in_set)
  then show ?thesis using assms(1,2)
    by (simp only: MarkBlockProcessed_def IsBlockProcessed_def exec_def query_def) simp
qed

lemma sorted_last_max: "sorted (map f xs) \<Longrightarrow> x \<in> set xs \<Longrightarrow> f x \<le> f (last xs)"
  by (induction xs) (auto split: if_splits)

text \<open>
  C31: Paying out a transfer deadlocks. If at least one share lies in the six-hour window, the
  transaction of \<open>processTransfer\<close> holds the only connection while the statements inside it ask
  the pool for another one: the call never returns, no distribution and no payment is
  written, and from then on every statement of the whole program blocks as well.
\<close>
theorem processTransfer_deadlocks:
  assumes "IsBlockProcessed (tiHeight vt) l = Ok False" "bindable (tiAmount vt)"
    and "GetSharesInWindow order (now - 21600) l = Ok shs" "shs \<noteq> []"
  shows "\<exists>l'. processTransfer conv order rng cfg now vt l = (Blocked, l') \<and>
    payments l' = payments l \<and> distributions l' = distributions l \<and>
    (\<forall>op. ledger_exec op l' = (Blocked, l')) \<and> (\<forall>txid. IsTransferProcessed txid l' = Blocked)"
proof -
  have tx: "\<not> txOpen l" and h: "bindable (tiHeight vt)"
    using assms(1) by (auto simp: IsBlockProcessed_def query_def split: if_splits)
  let ?l1 = "insert_block (transfer_block now vt) l"
  have c: "CreateBlock (transfer_block now vt) l = (Ok (), ?l1)"
    using tx h assms(2) by (simp add: CreateBlock_def exec_def transfer_block_def)
  have l1: "txOpen ?l1 = False" "shares ?l1 = shares l" "payments ?l1 = payments l" "distributions ?l1 = distributions l"
    using tx by (simp_all add: insert_block_def)
  have "GetSharesInWindow order (now - 21600) ?l1 = Ok shs"
    using assms(3) tx by (simp add: GetSharesInWindow_def query_def l1)
  then obtain ds where ds: "calculateDistributions conv order rng cfg now vt ?l1 = Ok ds" "ds \<noteq> []"
    using assms(4) by (auto simp: calculateDistributions_def Let_def)
  have "processTransfer conv order rng cfg now vt l = (Blocked, ?l1\<lparr>txOpen := True\<rparr>)"
    using assms(1) c ds l1(1) by (simp add: processTransfer_def WithTransaction_write)
  then show ?thesis
    using l1 by (auto simp: open_transaction_blocks IsTransferProcessed_def query_def)
qed

definition sample_transfer :: TransferInfo where
  "sample_transfer = \<lparr>tiTxid = ''tx'', tiHeight = 7, tiAmount = 1000, tiTimestamp = 300\<rparr>"

lemma processTransfer_deadlocks_witness:
  "\<exists>l'. processTransfer (\<lambda>_. 0) (sort_key (\<lambda>s. - shTimestamp s)) (\<lambda>_. [''m'']) sample_cfg 400 sample_transfer sample_shares
     = (Blocked, l') \<and> ledger_exec (OpSetHeight 3) l' = (Blocked, l')"
proof -
  have b: "IsBlockProcessed (tiHeight sample_transfer) sample_shares = Ok False"
    by (simp add: IsBlockProcessed_def query_def sample_shares_def NewLedgerDB_def sample_transfer_def bindable_def)
  have a: "bindable (tiAmount sample_transfer)" by (simp add: sample_transfer_def bindable_def)
  have g: "GetSharesInWindow (sort_key (\<lambda>s. - shTimestamp s)) (400 - 21600) sample_shares
      = Ok [sample_share 2 200, sample_share 1 100]"
    by (simp add: GetSharesInWindow_def query_def sample_shares_def NewLedgerDB_def sample_share_def)
  show ?thesis
    using processTransfer_deadlocks [OF b a g list.simps(3), of "\<lambda>_. 0" "\<lambda>_. [''m'']" sample_cfg] by blast
qed

text \<open>
  With no share in the window a transfer is processed to the end, but nobody is paid: the
  block is recorded and marked as completed, and no payment is queued.
\<close>
theorem processTransfer_without_shares:
  assumes "IsBlockProcessed (tiHeight vt) l = Ok False" "bindable (tiAmount vt)"
    and "GetSharesInWindow order (now - 21600) l = Ok []"
    and "tiTxid vt \<notin> bfHash ` set (blocks_found l)" "\<not> has_block l (tiHeight vt)"
  shows "\<exists>l'. processTransfer conv order rng cfg now vt l = (Ok (), l') \<and> payments l' = payments l \<and>
    IsBlockProcessed (tiHeight vt) l' = Ok True"
proof -
  have tx: "\<not> txOpen l" and h: "bindable (tiHeight vt)"
    using assms(1) by (auto simp: IsBlockProcessed_def query_def split: if_splits)
  let ?l1 = "insert_block (transfer_block now vt) l"
  have c: "CreateBlock (transfer_block now vt) l = (Ok (), ?l1)"
    using tx h assms(2) by (simp add: CreateBlock_def exec_def transfer_block_def)
  have new: "transfer_block now vt \<in> set (blocks_found ?l1)"
    using assms(4,5) by (auto simp: insert_block_def transfer_block_def block_statuses_def list_ex_iff has_block_def image_iff)
  have l1: "txOpen ?l1 = False" "shares ?l1 = shares l" "payments ?l1 = payments l"
    using tx by (simp_all add: insert_block_def)
  have "calculateDistributions conv order rng cfg now vt ?l1 = Ok []"
    using assms(3) tx by (simp add: calculateDistributions_def GetSharesInWindow_def query_def l1)
  then have p: "processTransfer conv order rng cfg now vt l = MarkBlockProcessed now (tiHeight vt) ?l1"
    using assms(1) c l1(1) by (simp add: processTransfer_def WithTransaction_write)
  have "has_block ?l1 (tiHeight vt)"
    unfolding has_block_def list_ex_iff by (rule bexI [OF _ new]) (simp add: transfer_block_def)
  with MarkBlockProcessed_effect [OF l1(1) h] show ?thesis by (simp add: p l1)
qed

lemma processTransfer_without_shares_witness:
  "\<exists>l'. processTransfer (\<lambda>_. 0) id (\<lambda>_. []) sample_cfg 400 sample_transfer (NewLedgerDB schema_sql) = (Ok (), l') \<and>
     payments l' = []"
proof -
  have "IsBlockProcessed (tiHeight sample_transfer) (NewLedgerDB schema_sql) = Ok False"
    by (simp add: IsBlockProcessed_def query_def NewLedgerDB_def sample_transfer_def bindable_def)
  moreover have "GetSharesInWindow id (400 - 21600) (NewLedgerDB schema_sql) = Ok []"
    by (simp add: GetSharesInWindow_def query_def NewLedgerDB_def)
  ultimately obtain l' where
    "processTransfer (\<lambda>_. 0) id (\<lambda>_. []) sample_cfg 400 sample_transfer (NewLedgerDB schema_sql) = (Ok (), l')"
    "payments l' = payments (NewLedgerDB schema_sql)"
    using processTransfer_without_shares [of sample_transfer "NewLedgerDB schema_sql" id 400 "\<lambda>_. 0" "\<lambda>_. []" sample_cfg]
    by (auto simp: sample_transfer_def bindable_def NewLedgerDB_def has_block_def)
  then show ?thesis by (simp add: NewLedgerDB_def)
qed


section \<open>Which transfers are looked at again\<close>

lemma update_transfers_processed:
  assumes "\<forall>t \<in> set ts. IsTransferProcessed (tiTxid t) (uLedger st) = Ok True"
  shows "\<exists>mh. update_transfers conv order rng cfg now ts st = (Ok (), st\<lparr>minHeight := mh\<rparr>)"
  using assms
proof (induction ts arbitrary: st)
  case Nil
  show ?case by (auto intro: exI [of _ "minHeight st"])
next
  case (Cons t ts)
  let ?st = "st\<lparr>minHeight := raise_min (tiHeight t) (minHeight st)\<rparr>"
  have "update_transfer conv order rng cfg now t st = (Ok (), ?st)"
    using Cons.prems by (simp add: update_transfer_def)
  with Cons.IH [of ?st] Cons.prems show ?case by auto
qed

text \<open>
  No transfer is paid twice. When the wallet returns only transfers that are recorded as
  processed, in any order and any number of times, an update changes no table of the ledger:
  it only stores the highest height.
\<close>
theorem processed_transfers_are_skipped:
  assumes "\<forall>t \<in> set ts. IsTransferProcessed (tiTxid t) (uLedger st) = Ok True" "ts \<noteq> []"
  shows "\<exists>h. UpdatePendingBals conv order rng cfg now (Some ts) st =
    (Ok (), st\<lparr>uLedger := (uLedger st)\<lparr>pool_config := (pool_config (uLedger st))(''last_processed_height'' \<mapsto> FormatUint h)\<rparr>,
       minHeight := h + 1\<rparr>)"
proof -
  have ne: "sort_key tiHeight ts \<noteq> []" using assms(2) by (metis set_empty set_sort)
  obtain t where "t \<in> set ts" using assms(2) by (cases ts) auto
  with assms(1) have tx: "\<not> txOpen (uLedger st)"
    by (auto simp: IsTransferProcessed_def query_def split: if_splits)
  obtain mh where "update_transfers conv order rng cfg now (sort_key tiHeight ts) st = (Ok (), st\<lparr>minHeight := mh\<rparr>)"
    using update_transfers_processed [of "sort_key tiHeight ts" st conv order rng cfg now] assms(1) by auto
  then show ?thesis using ne tx
    by (auto simp: UpdatePendingBals_def Let_def UpdateLastProcessedHeight_def exec_def)
qed

lemma processed_transfers_are_skipped_witness:
  "\<exists>h. UpdatePendingBals (\<lambda>_. 0) id (\<lambda>_. []) sample_cfg 400 (Some [sample_transfer, sample_transfer])
      \<lparr>uLedger = sample_ledger, minHeight = 0\<rparr>
    = (Ok (), \<lparr>uLedger = sample_ledger\<lparr>pool_config := (pool_config sample_ledger)(''last_processed_height'' \<mapsto> FormatUint h)\<rparr>,
         minHeight = h + 1\<rparr>)"
proof -
  have "IsTransferProcessed ''tx'' sample_ledger = Ok True"
    by (simp add: sample_ledger_def IsTransferProcessed_def MarkTransferProcessed_def NewLedgerDB_def
        query_def exec_def bindable_def)
  then show ?thesis
    using processed_transfers_are_skipped [of "[sample_transfer, sample_transfer]" "\<lparr>uLedger = sample_ledger, minHeight = 0\<rparr>"
        "\<lambda>_. 0" id "\<lambda>_. []" sample_cfg 400]
    by (simp add: sample_transfer_def)
qed

text \<open>
  C35: Every completed update moves the tracking past all the transfers it saw, also past those
  whose processing failed: the persisted height is the highest height seen and the next query
  starts above it, so a transfer that failed is neither retried nor seen again.
\<close>
theorem failed_transfers_are_skipped:
  assumes "UpdatePendingBals conv order rng cfg now (Some ts) st = (Ok (), st')" "ts \<noteq> []"
  shows "\<exists>h. minHeight st' = h + 1 \<and> GetLastProcessedHeight (uLedger st') = Ok h \<and>
    (\<forall>t \<in> set ts. tiHeight t \<le> h) \<and> h \<in> tiHeight ` set ts"
proof -
  let ?ts = "sort_key tiHeight ts"
  have ne: "?ts \<noteq> []" using assms(2) by (metis set_empty set_sort)
  let ?h = "tiHeight (last ?ts)"
  obtain r st1 where u: "update_transfers conv order rng cfg now ?ts st = (r, st1)" by (metis surj_pair)
  then have tx: "\<not> txOpen (uLedger st1)" and st': "st' = st1\<lparr>uLedger := (uLedger st1)\<lparr>pool_config :=
      (pool_config (uLedger st1))(''last_processed_height'' \<mapsto> FormatUint ?h)\<rparr>, minHeight := ?h + 1\<rparr>"
    using assms(1) ne
    by (auto simp: UpdatePendingBals_def Let_def UpdateLastProcessedHeight_def exec_def split: res.splits if_splits)
  have "\<forall>t \<in> set ?ts. tiHeight t \<le> ?h" by (auto intro: sorted_last_max)
  moreover have "?h \<in> tiHeight ` set ts" using last_in_set [OF ne] by simp
  ultimately show ?thesis
    using tx by (intro exI [of _ ?h]) (auto simp: st' GetLastProcessedHeight_def query_def ParseUint_FormatUint)
qed


lemma failed_transfers_are_skipped_witness:
  "\<exists>h. minHeight (snd (UpdatePendingBals (\<lambda>_. 0) id (\<lambda>_. []) sample_cfg 400
        (Some [sample_transfer\<lparr>tiAmount := 9223372036854775808\<rparr>]) \<lparr>uLedger = NewLedgerDB schema_sql, minHeight = 0\<rparr>)) = h + 1 \<and>
     (\<forall>t \<in> set [sample_transfer\<lparr>tiAmount := 9223372036854775808\<rparr>]. tiHeight t \<le> h)"
proof -
  let ?t = "sample_transfer\<lparr>tiAmount := 9223372036854775808\<rparr>"
  let ?st = "\<lparr>uLedger = NewLedgerDB schema_sql, minHeight = 0\<rparr>"
  have "update_transfer (\<lambda>_. 0) id (\<lambda>_. []) sample_cfg 400 ?t ?st = (Ok (), ?st)"
    by (simp add: update_transfer_def IsTransferProcessed_def query_def NewLedgerDB_def processTransfer_def
        IsBlockProcessed_def CreateBlock_def exec_def transfer_block_def sample_transfer_def bindable_def)
  then obtain st' where "UpdatePendingBals (\<lambda>_. 0) id (\<lambda>_. []) sample_cfg 400 (Some [?t]) ?st = (Ok (), st')"
    by (auto simp: UpdatePendingBals_def UpdateLastProcessedHeight_def exec_def NewLedgerDB_def Let_def)
  from failed_transfers_are_skipped [OF this] this show ?thesis by auto
qed


section \<open>The sum of the distributions of a transfer\<close>

definition net_value :: "rat \<Rightarrow> nat \<Rightarrow> rat" where
  "net_value x g = rnd64 (rnd64 (of_nat g * x) / 100)"

lemma net_value_le:
  assumes "g \<le> 2 ^ 46" "0 \<le> x" "x \<le> 100"
  shows "net_value x g \<le> of_nat g"
proof -
  have "of_nat g * x \<le> of_nat (g * 100)" using assms by (simp add: mult_left_mono)
  then have "rnd64 (of_nat g * x) \<le> rnd64 (of_nat (g * 100))" by (rule r64.rd_mono)
  also have "\<dots> = of_nat (g * 100)" using assms(1) by (intro rnd64_of_nat) simp
  finally have "rnd64 (of_nat g * x) / 100 \<le> of_nat g" by simp
  then have "net_value x g \<le> rnd64 (of_nat g)" unfolding net_value_def by (rule r64.rd_mono)
  then show ?thesis using assms(1) by (simp add: rnd64_of_nat)
qed

lemma net_value_bounds:
  assumes "1 \<le> x"
  shows "of_nat g * (x / 100) * (1 - 3 * eps64) \<le> net_value x g" "net_value x g \<le> of_nat g * (x / 100) * (1 + 3 * eps64)"
proof -
  have "of_nat g * (x / 100) * (1 - 3 * eps64) \<le> net_value x g \<and> net_value x g \<le> of_nat g * (x / 100) * (1 + 3 * eps64)"
  proof (cases "g = 0")
    case False
    let ?p = "of_nat g * x"
    have e: "0 < 1 - eps64" "0 < 1 + eps64" "(1 + eps64) * (1 + eps64) \<le> 1 + 3 * eps64" "1 - 3 * eps64 \<le> (1 - eps64) * (1 - eps64)"
      by (simp_all add: eps64_def)
    have p1: "1 * 1 \<le> ?p" using False assms by (intro mult_mono) auto
    then have "rnd64 1 \<le> rnd64 ?p" by (intro r64.rd_mono) simp
    then have r1: "1 \<le> rnd64 ?p" using rnd64_of_nat [of 1] by simp
    have t: "tiny64 \<le> ?p" "tiny64 \<le> rnd64 ?p / 100"
      using p1 r1 by (simp_all add: tiny64_def)
    have a: "?p * (1 - eps64) \<le> rnd64 ?p" "rnd64 ?p \<le> ?p * (1 + eps64)"
      using r64.rd_ge [of ?p] r64.rd_le [of ?p] t(1) by auto
    have b: "rnd64 ?p / 100 * (1 - eps64) \<le> net_value x g" "net_value x g \<le> rnd64 ?p / 100 * (1 + eps64)"
      using r64.rd_ge [of "rnd64 ?p / 100"] r64.rd_le [of "rnd64 ?p / 100"] t(2) by (auto simp: net_value_def)
    have "of_nat g * (x / 100) * (1 - 3 * eps64) \<le> of_nat g * (x / 100) * ((1 - eps64) * (1 - eps64))"
      using assms e(4) by (intro mult_left_mono) auto
    also have "\<dots> = ?p * (1 - eps64) / 100 * (1 - eps64)" by simp
    also have "\<dots> \<le> rnd64 ?p / 100 * (1 - eps64)" using a(1) e(1) by (intro mult_right_mono divide_right_mono) auto
    finally have lo: "of_nat g * (x / 100) * (1 - 3 * eps64) \<le> net_value x g" using b(1) by linarith
    have "rnd64 ?p / 100 * (1 + eps64) \<le> ?p * (1 + eps64) / 100 * (1 + eps64)"
      using a(2) e(2) by (intro mult_right_mono divide_right_mono) auto
    also have "\<dots> = of_nat g * (x / 100) * ((1 + eps64) * (1 + eps64))" by simp
    also have "\<dots> \<le> of_nat g * (x / 100) * (1 + 3 * eps64)" using assms e(3) by (intro mult_left_mono) auto
    finally show ?thesis using lo b(2) by linarith
  qed (simp add: net_value_def)
  then show "of_nat g * (x / 100) * (1 - 3 * eps64) \<le> net_value x g" "net_value x g \<le> of_nat g * (x / 100) * (1 + 3 * eps64)" by auto
qed

lemma net_reward_floor:
  assumes f: "0 \<le> f" "f \<le> 99" and g: "unat g \<le> 2 ^ 46" and x: "x = rnd64 (100 - f)"
  shows "int (unat (net_reward conv (Fin f) g)) = \<lfloor>net_value x (unat g)\<rfloor>" "1 \<le> x" "x \<le> 100"
proof -
  show x1: "1 \<le> x" using f r64.rd_mono [of 1 "100 - f"] rnd64_of_nat [of 1] by (simp add: x)
  show x100: "x \<le> 100" using f r64.rd_mono [of "100 - f" 100] rnd64_of_nat [of 100] by (simp add: x)
  have big: "q \<le> pow2 1000" if "q \<le> 2 ^ 64" for q using that pow2_64_le by (rule order_trans)
  have s: "Fin 100 - Fin f = Fin x"
    using f by (simp add: minus_f64_def x) (rule f64_round_Fin, simp_all add: big)
  let ?p = "of_nat (unat g) * x"
  have "(of_nat (unat g) :: rat) \<le> of_nat (2 ^ 46)" using g by (simp only: of_nat_le_iff)
  then have g': "(of_nat (unat g) :: rat) \<le> 2 ^ 46" by simp
  have p1: "0 \<le> ?p" using x1 by simp
  have p2: "?p \<le> 2 ^ 46 * 100" by (rule mult_mono [OF g' x100]) (use x1 in auto)
  note p = p1 p2
  have r: "0 \<le> rnd64 ?p" "rnd64 ?p \<le> 2 ^ 46 * 100"
    using r64.rd_nonneg [OF p(1)] r64.rd_mono [OF p(2)] rnd64_of_nat [of "2 ^ 46 * 100"] by simp_all
  have m: "f64_of_u64 g * Fin x = Fin (rnd64 ?p)"
    using g p by (simp add: f64_of_u64_exact times_f64_def f64_round_Fin big)
  have d: "Fin (rnd64 ?p) / Fin 100 = Fin (net_value x (unat g))"
  proof -
    have "rnd64 ?p / 100 \<le> 2 ^ 64" using r(2) by simp
    from f64_round_Fin [OF _ big [OF this]] r(1) show ?thesis by (simp add: divide_f64_def net_value_def)
  qed
  have v: "0 \<le> net_value x (unat g)" "net_value x (unat g) \<le> of_nat (unat g)"
    using r(1) net_value_le [OF g _ x100] x1 by (simp_all add: net_value_def r64.rd_nonneg)
  have "\<lfloor>net_value x (unat g)\<rfloor> \<le> int (unat g)" using v(2) by (simp add: floor_le_iff)
  also have "int (unat g) < 2 ^ 64" using g by simp
  finally have hi: "\<lfloor>net_value x (unat g)\<rfloor> < 2 ^ 64" .
  have "net_reward conv (Fin f) g = of_int \<lfloor>net_value x (unat g)\<rfloor>"
    unfolding net_reward_def s m d u64_of_f64_def f64.case rat_trunc_nonneg [OF v(1)]
    using v(1) hi by (simp only: zero_le_floor if_True simp_thms)
  then show "int (unat (net_reward conv (Fin f) g)) = \<lfloor>net_value x (unat g)\<rfloor>"
    using unat_of_int_u64 [OF _ hi] v(1) by simp
qed


lemma int_sum_list: "(\<And>k. k \<in> set ks \<Longrightarrow> int (f k) = g k) \<Longrightarrow> int (\<Sum>k \<leftarrow> ks. f k) = (\<Sum>k \<leftarrow> ks. g k)"
  by (induction ks) auto

lemma sum_nets:
  assumes x: "1 \<le> x" "x \<le> 100" and gs: "sum_list gs \<le> a" and a: "a \<le> 2 ^ 46"
  shows "(\<Sum>g \<leftarrow> gs. \<lfloor>net_value x g\<rfloor>) \<le> \<lfloor>net_value x a\<rfloor> + 1"
proof -
  have split: "c * (1 + 3 * e) = c * (1 - 3 * e) + c * (6 * e)" for c e :: rat by (simp add: algebra_simps)
  have "of_int (\<Sum>g \<leftarrow> gs. \<lfloor>net_value x g\<rfloor>) \<le> (\<Sum>g \<leftarrow> gs. net_value x g)"
    by (induction gs) (auto intro: add_mono)
  also have "\<dots> \<le> (\<Sum>g \<leftarrow> gs. of_nat g * (x / 100) * (1 + 3 * eps64))"
    using net_value_bounds(2) [OF x(1)] by (intro sum_list_mono) auto
  also have "\<dots> = of_nat (sum_list gs) * (x / 100) * (1 + 3 * eps64)"
    by (induction gs) (auto simp: algebra_simps)
  also have "\<dots> \<le> of_nat a * (x / 100) * (1 + 3 * eps64)"
  proof -
    have "(of_nat (sum_list gs) :: rat) \<le> of_nat a" using gs by (simp only: of_nat_le_iff)
    moreover have "0 \<le> x / 100" "0 \<le> 1 + 3 * eps64" using x by (simp_all add: eps64_def)
    ultimately show ?thesis by (intro mult_right_mono)
  qed
  also have "\<dots> = of_nat a * (x / 100) * (1 - 3 * eps64) + of_nat a * (x / 100) * (6 * eps64)"
    by (rule split)
  also have "\<dots> \<le> net_value x a + of_nat a * (x / 100) * (6 * eps64)"
    using net_value_bounds(1) [OF x(1)] by simp
  finally have le: "of_int (\<Sum>g \<leftarrow> gs. \<lfloor>net_value x g\<rfloor>) \<le> net_value x a + of_nat a * (x / 100) * (6 * eps64)" .
  have "(of_nat a :: rat) \<le> of_nat (2 ^ 46)" using a by (simp only: of_nat_le_iff)
  then have "of_nat a * (x / 100) * (6 * eps64) \<le> 2 ^ 46 * 1 * (6 * eps64)"
    using x by (intro mult_right_mono mult_mono) (auto simp: eps64_def)
  also have "\<dots> < 1" by (simp add: eps64_def)
  finally have "of_int (\<Sum>g \<leftarrow> gs. \<lfloor>net_value x g\<rfloor>) < net_value x a + 1" using le by linarith
  also have "net_value x a < of_int \<lfloor>net_value x a\<rfloor> + 1" by linarith
  finally have "(of_int (\<Sum>g \<leftarrow> gs. \<lfloor>net_value x g\<rfloor>) :: rat) < of_int (\<lfloor>net_value x a\<rfloor> + 2)" by simp
  then show ?thesis by (simp only: of_int_less_iff)
qed

text \<open>
  The distributions of a transfer of at most \<open>2 ^ 46\<close> atomic units, with a fee between 0 and
  99 percent: they are one per miner of the window and the pool's fee last; the gross rewards
  together never exceed the amount, no net reward exceeds the gross one, the fee does not
  underflow, and all net rewards and the fee together exceed the amount by at most one
  atomic unit, which only the floating-point roundings can cause.
\<close>
theorem calculateDistributions_bounded:
  assumes fee: "cfgFeePercent cfg = Fin f" "0 \<le> f" "f \<le> 99" and a: "unat (tiAmount t) \<le> 2 ^ 46"
    and shs: "GetSharesInWindow order (now - 21600) l = Ok shs" "total_diff shs \<noteq> 0"
      "sum_list (map (\<lambda>s. unat (shDifficulty s)) shs) < 2 ^ 64"
    and rng: "range_order (miner_diffs shs) (rng (miner_diffs shs))"
  shows "\<exists>ms fd. calculateDistributions conv order rng cfg now t l = Ok (ms @ [fd]) \<and>
    map diMinerAddr ms = rng (miner_diffs shs) \<and> diMinerAddr fd = cfgFeeAddress cfg \<and>
    (\<Sum>d \<leftarrow> ms. unat (diRewardGross d)) \<le> unat (tiAmount t) \<and>
    (\<forall>d \<in> set ms. diRewardNet d \<le> diRewardGross d) \<and> diRewardNet fd \<le> tiAmount t \<and>
    (\<Sum>d \<leftarrow> ms @ [fd]. unat (diRewardNet d)) \<le> unat (tiAmount t) + 1"
proof -
  let ?m = "miner_diffs shs" let ?D = "total_diff shs" let ?keys = "rng ?m"
  let ?gross = "\<lambda>k. part_reward conv (tiAmount t) (map_get 0 ?m k) ?D"
  define x where "x = rnd64 (100 - f)"
  note N = net_reward_floor(1) [OF fee(2,3) _ x_def, where conv = conv]
  have x: "1 \<le> x" "x \<le> 100" using net_reward_floor(2,3) [OF fee(2,3) a x_def] by auto
  have "unat (tiAmount t) \<le> 2 ^ 50" using a by simp
  note W = window_rewards [OF shs(3,2) rng this, where conv = conv]
  define ms where "ms = map (\<lambda>k. miner_distribution conv cfg now t ?D k (map_get 0 ?m k)) ?keys"
  define fd where "fd = fee_distribution conv cfg now t"
  have "shs \<noteq> []" using shs(2) by (auto simp: total_diff_def)
  then have calc: "calculateDistributions conv order rng cfg now t l = Ok (ms @ [fd])"
    using shs(1) by (simp add: calculateDistributions_def ms_def fd_def Let_def)
  have small: "unat (?gross k) \<le> 2 ^ 46" if "k \<in> set ?keys" for k using W(3) [OF that] a by linarith
  have net: "int (unat (net_reward conv (Fin f) (?gross k))) = \<lfloor>net_value x (unat (?gross k))\<rfloor>" if "k \<in> set ?keys" for k
    by (rule N [OF small [OF that]])
  have neta: "int (unat (net_reward conv (Fin f) (tiAmount t))) = \<lfloor>net_value x (unat (tiAmount t))\<rfloor>" by (rule N [OF a])
  have le: "net_reward conv (Fin f) g \<le> g" if "unat g \<le> 2 ^ 46" for g
  proof -
    have "net_value x (unat g) \<le> of_nat (unat g)" using net_value_le [OF that] x by simp
    then have "\<lfloor>net_value x (unat g)\<rfloor> \<le> int (unat g)" by (simp add: floor_le_iff)
    then show ?thesis using N [OF that] by (simp add: word_le_nat_alt)
  qed
  have "int (\<Sum>k \<leftarrow> ?keys. unat (net_reward conv (Fin f) (?gross k))) = (\<Sum>k \<leftarrow> ?keys. \<lfloor>net_value x (unat (?gross k))\<rfloor>)"
    by (rule int_sum_list) (rule net)
  also have "\<dots> \<le> \<lfloor>net_value x (unat (tiAmount t))\<rfloor> + 1"
    using sum_nets [OF x _ a, of "map (\<lambda>k. unat (?gross k)) ?keys"] W(1) by (simp add: comp_def)
  finally have "(\<Sum>k \<leftarrow> ?keys. unat (net_reward conv (Fin f) (?gross k))) \<le> unat (net_reward conv (Fin f) (tiAmount t)) + 1"
    using neta by linarith
  moreover have "unat (diRewardNet fd) = unat (tiAmount t) - unat (net_reward conv (Fin f) (tiAmount t))"
    using le [OF a] by (simp add: fd_def fee_distribution_def Let_def fee(1) unat_sub)
  moreover have "unat (net_reward conv (Fin f) (tiAmount t)) \<le> unat (tiAmount t)" using le [OF a] by (simp add: word_le_nat_alt)
  ultimately have total: "(\<Sum>d \<leftarrow> ms @ [fd]. unat (diRewardNet d)) \<le> unat (tiAmount t) + 1" and "diRewardNet fd \<le> tiAmount t"
    by (simp_all add: ms_def comp_def miner_distribution_def Let_def fee(1) word_le_nat_alt)
  moreover have "map diMinerAddr ms = ?keys" "diMinerAddr fd = cfgFeeAddress cfg"
    "(\<Sum>d \<leftarrow> ms. unat (diRewardGross d)) \<le> unat (tiAmount t)" "\<forall>d \<in> set ms. diRewardNet d \<le> diRewardGross d"
    using W(1) le small by (auto simp: ms_def fd_def comp_def miner_distribution_def fee_distribution_def Let_def fee(1))
  ultimately show ?thesis using calc by blast
qed


lemma calculateDistributions_bounded_witness:
  "\<exists>ms fd. calculateDistributions (\<lambda>_. 0) (sort_key (\<lambda>s. - shTimestamp s)) (\<lambda>_. [''m'']) sample_cfg 400 sample_transfer
      sample_shares = Ok (ms @ [fd]) \<and> map diMinerAddr ms = [''m''] \<and>
    (\<Sum>d \<leftarrow> ms @ [fd]. unat (diRewardNet d)) \<le> 1001"
proof -
  let ?shs = "[sample_share 2 200, sample_share 1 100]"
  have f: "cfgFeePercent sample_cfg = Fin 1" by (simp add: sample_cfg_def)
  have g: "GetSharesInWindow (sort_key (\<lambda>s. - shTimestamp s)) (400 - 21600) sample_shares = Ok ?shs"
    by (simp add: GetSharesInWindow_def query_def sample_shares_def NewLedgerDB_def sample_share_def)
  have t: "total_diff ?shs \<noteq> 0" "sum_list (map (\<lambda>s. unat (shDifficulty s)) ?shs) < 2 ^ 64"
    by (simp_all add: total_diff_def sample_share_def)
  have r: "range_order (miner_diffs ?shs) [''m'']"
    by (simp add: range_order_def dom_miner_diffs sample_share_def)
  have a: "unat (tiAmount sample_transfer) = 1000" by (simp add: sample_transfer_def)
  show ?thesis
    using calculateDistributions_bounded [OF f _ _ _ g t r, of sample_transfer "\<lambda>_. 0"] by (auto simp: a)
qed

end
