(* ===== verification/Api.thy ===== *)
theory Api
  imports Stats Updater
begin

text \<open>
  The HTTP API of the master, \<^verbatim>\<open>src/cmd/master/api.go\<close>: what the handlers answer, as the JSON value
  they encode. \<open>coin\<close> is the global \<open>Coin\<close>, \<open>math.Pow10\<close> of the configured number of decimals, and
  \<open>clock k\<close> is the \<open>k\<close>-th reading of the clock in a call.

  The encoder of \<open>encoding/json\<close> refuses a number that is not finite and then writes nothing; the
  handlers ignore its error, so the reply has no body.
\<close>

section \<open>JSON values\<close>

datatype json =
    JNull
  | JBool bool
  | JInt int
  | JFloat f64
  | JString string
  | JArray "json list"
  | JObject "(string \<times> json) list"

definition finite64 :: "f64 \<Rightarrow> bool" where
  "finite64 x = (\<not> IsNaN x \<and> \<not> IsInf x)"

fun json_ok :: "json \<Rightarrow> bool" where
  "json_ok (JFloat x) = finite64 x"
| "json_ok (JArray js) = list_all json_ok js"
| "json_ok (JObject fs) = list_all (\<lambda>(k, j). json_ok j) fs"
| "json_ok _ = True"

datatype http_reply = Body json | EmptyBody | HttpError string

definition Encode :: "json \<Rightarrow> http_reply" where
  "Encode j = (if json_ok j then Body j else EmptyBody)"

abbreviation JNat :: "nat \<Rightarrow> json" where
  "JNat n \<equiv> JInt (int n)"

abbreviation JUint :: "u64 \<Rightarrow> json" where
  "JUint x \<equiv> JInt (int (unat x))"

section \<open>Rounding\<close>

definition Round0 :: "f64 \<Rightarrow> f64" where
  "Round0 val = math_Round val"

definition Round3 :: "f64 \<Rightarrow> f64" where
  "Round3 val = math_Round (val * Fin 1000) / Fin 1000"

definition Round6 :: "f64 \<Rightarrow> f64" where
  "Round6 val = math_Round (val * Fin 1000000) / Fin 1000000"

definition NotNan :: "f64 \<Rightarrow> f64" where
  "NotNan val = (if IsNaN val \<or> IsInf val then Fin 0 else val)"

definition coins :: "f64 \<Rightarrow> u64 \<Rightarrow> json" where
  "coins coin amount = JFloat (NotNan (Round6 (f64_of_u64 amount / coin)))"

section \<open>A miner\<close>

definition diff_within :: "int \<Rightarrow> int \<Rightarrow> Share list \<Rightarrow> u64" where
  "diff_within now secs shs = foldl (\<lambda>d s. if now - shTimestamp s \<le> secs then d + shDifficulty s else d) 0 shs"

definition rate_over :: "rat \<Rightarrow> u64 \<Rightarrow> f64" where
  "rate_over secs d = (if 0 < d then f64_of_u64 d / Fin secs else Fin 0)"

text \<open>The hash rates over 5 minutes, 15 minutes and an hour.\<close>

definition miner_hashrates ::
  "(Share list \<Rightarrow> Share list) \<Rightarrow> int \<Rightarrow> int \<Rightarrow> string \<Rightarrow> LedgerDB \<Rightarrow> (f64 \<times> f64 \<times> f64) res" where
  "miner_hashrates order t now addr l =
     res_bind (on_error [] (GetMinerSharesInWindow order addr (t - 3600) l)) (\<lambda>shs.
       Ok (rate_over 300 (diff_within now 300 shs), rate_over 900 (diff_within now 900 shs),
           rate_over 3600 (diff_within now 3600 shs)))"

definition api_balance :: "int \<Rightarrow> string \<Rightarrow> LedgerDB \<Rightarrow> Balance res" where
  "api_balance now addr l =
     on_error \<lparr>baMinerAddr = addr, baPending = 0, baConfirmed = 0, baTotalPaid = 0, baLastUpdated = now\<rparr>
       (GetBalance now addr l)"

definition worker_count :: "string \<Rightarrow> int \<Rightarrow> LedgerDB \<Rightarrow> nat res" where
  "worker_count addr since l = on_error 0 (res_bind (GetActiveWorkers addr since l) (\<lambda>ws. Ok (length ws)))"

definition GetMinerStats ::
  "f64 \<Rightarrow> (Share list \<Rightarrow> Share list) \<Rightarrow> (Payment list \<Rightarrow> Payment list) \<Rightarrow> (nat \<Rightarrow> int) \<Rightarrow> string \<Rightarrow> LedgerDB \<Rightarrow> json res" where
  "GetMinerStats coin order porder clock addr l =
     res_bind (api_balance (clock 0) addr l) (\<lambda>balance.
     res_bind (miner_hashrates order (clock 1) (clock 2) addr l) (\<lambda>(h5, h15, h1).
     res_bind (worker_count addr (clock 2 - 3600) l) (\<lambda>workerCount.
     res_bind (on_error [] (GetMinerWithdrawals porder addr 10 l)) (\<lambda>withdrawals.
     Ok (JObject
       [(''address'', JString addr),
        (''balance'', coins coin (baConfirmed balance)),
        (''balance_pending'', coins coin (baPending balance)),
        (''paid'', coins coin (baTotalPaid balance)),
        (''hashrate_5m'', JFloat (Round0 h5)),
        (''hashrate_15m'', JFloat (Round0 h15)),
        (''hashrate_1h'', JFloat (Round0 h1)),
        (''worker_count'', JNat workerCount),
        (''last_seen'', JInt (baLastUpdated balance)),
        (''withdrawals'', JArray (map (\<lambda>w. JObject
           [(''txid'', JString (wdTxID w)), (''amount'', JFloat (f64_of_u64 (wdAmount w) / coin)),
            (''time'', JInt (wdTimestamp w))]) withdrawals))])))))"

text \<open>What \<open>/stats/<address>\<close> answers.\<close>

definition miner_response ::
  "f64 \<Rightarrow> (Share list \<Rightarrow> Share list) \<Rightarrow> (Payment list \<Rightarrow> Payment list) \<Rightarrow> (nat \<Rightarrow> int) \<Rightarrow> string \<Rightarrow> LedgerDB \<Rightarrow> json res" where
  "miner_response coin order porder clock addr l =
     res_bind (api_balance (clock 0) addr l) (\<lambda>balance.
     let now = clock 1 in
     res_bind (miner_hashrates order now now addr l) (\<lambda>(h5, h15, _).
     res_bind (worker_count addr (now - 3600) l) (\<lambda>workerCount.
     res_bind (on_error [] (GetMinerWithdrawals porder addr 10 l)) (\<lambda>withdrawals.
     Ok (JObject
       [(''hashrate_5m'', JFloat (NotNan (Round0 h5))),
        (''hashrate_10m'', JFloat (NotNan (Round0 h15))),
        (''hashrate_15m'', JFloat (NotNan (Round0 h15))),
        (''balance'', coins coin (baConfirmed balance)),
        (''balance_pending'', coins coin (baPending balance)),
        (''paid'', coins coin (baTotalPaid balance)),
        (''est_pending'', JInt 0),
        (''hr_chart'', JArray []),
        (''withdrawals'', JArray (map (\<lambda>w. JObject
           [(''amount'', JFloat (f64_of_u64 (wdAmount w) / coin)), (''txid'', JString (wdTxID w))]) withdrawals)),
        (''worker_count'', JNat workerCount)])))))"

section \<open>The pool\<close>

definition pool_rate :: "(Share list \<Rightarrow> Share list) \<Rightarrow> int \<Rightarrow> LedgerDB \<Rightarrow> f64 res" where
  "pool_rate order now l =
     res_bind (on_error [] (GetSharesInWindow order (now - 300) l)) (\<lambda>shs. Ok (f64_of_u64 (total_diff shs) / Fin 300))"

definition GetPoolStats ::
  "f64 \<Rightarrow> MasterConfig \<Rightarrow> (Share list \<Rightarrow> Share list) \<Rightarrow> (tempMiner list \<Rightarrow> tempMiner list) \<Rightarrow> (nat \<Rightarrow> int) \<Rightarrow> LedgerDB \<Rightarrow> json res" where
  "GetPoolStats coin cfg order torder clock l =
     res_bind (on_error [] (GetRecentBlocks 10 l)) (\<lambda>blocks.
     res_bind (on_error [] (GetTopMinersForAPI torder (clock 0) 10 l)) (\<lambda>topMiners.
     res_bind (pool_rate order (clock 1) l) (\<lambda>poolHashrate.
     res_bind (on_error 0 (GetActiveMinerCount (clock 2 - 600) l)) (\<lambda>minerCount.
     res_bind (on_error 0 (GetActiveWorkerCount (clock 2 - 600) l)) (\<lambda>workerCount.
     Ok (JObject
       [(''pool_hashrate'', JFloat (Round0 poolHashrate)),
        (''connected_miners'', JNat minerCount),
        (''connected_workers'', JNat workerCount),
        (''blocks_found'', JNat (length blocks)),
        (''recent_blocks'', JArray (map (\<lambda>b. JObject
           [(''height'', JUint (biHeight b)), (''hash'', JString (biHash b)),
            (''reward'', JFloat (f64_of_u64 (biRewardTotal b) / coin)), (''timestamp'', JInt (biTimestamp b)),
            (''status'', JString (biStatus b))]) blocks)),
        (''top_miners'', JArray (map (\<lambda>m. JObject
           [(''address'', JString (tmMinerAddr m)), (''shares_total'', JUint (tmShareCount m)),
            (''shares_in_window'', JUint (tmSharesInWindow m)), (''workers'', JNat (tmWorkerCount m)),
            (''percentage'', JFloat (Round3 (tmPercentage m))), (''last_share'', JInt (tmLastShareTime m))]) topMiners)),
        (''pool_fee_percent'', JFloat (cfgFeePercent cfg)),
        (''min_payout'', JFloat (cfgMinWithdrawal cfg)),
        (''last_update'', JInt (clock 3))]))))))"

text \<open>The loop over the blocks that finds the most recent one.\<close>

definition last_block :: "BlockInfo list \<Rightarrow> int \<times> BlockInfo option" where
  "last_block blocks =
     foldl (\<lambda>(t, lb) b. if t < biTimestamp b then (biTimestamp b, Some b) else (t, lb)) (0, None) blocks"

definition block_json :: "f64 \<Rightarrow> BlockInfo \<Rightarrow> json" where
  "block_json coin b = JObject
     [(''height'', JUint (biHeight b)), (''timestamp'', JInt (biTimestamp b)),
      (''reward'', JFloat (Round3 (f64_of_u64 (biRewardTotal b) / coin))), (''hash'', JString (biHash b))]"

definition no_block_json :: json where
  "no_block_json = JObject [(''height'', JInt 0), (''timestamp'', JInt 0), (''reward'', JInt 0), (''hash'', JString '''')]"

definition round_shares :: "(Share list \<Rightarrow> Share list) \<Rightarrow> int \<Rightarrow> LedgerDB \<Rightarrow> u64 res" where
  "round_shares order lastBlockTime l =
     (if 0 < lastBlockTime
      then res_bind (on_error [] (GetSharesInWindow order lastBlockTime l)) (\<lambda>shs. Ok (total_diff shs))
      else Ok 0)"

definition effort :: "u64 \<Rightarrow> u64 \<Rightarrow> f64" where
  "effort roundShares difficulty =
     (if 0 < roundShares \<and> 0 < difficulty
      then f64_of_u64 roundShares / f64_of_u64 difficulty * Fin 100 else Fin 0)"

text \<open>What \<open>/stats\<close> answers; \<open>recent_blocks_found\<close> of no block is the nil slice.\<close>

definition pool_json ::
  "f64 \<Rightarrow> MasterConfig \<Rightarrow> u64 \<Rightarrow> u64 \<times> u64 \<times> u64 \<Rightarrow> BlockInfo list \<Rightarrow> f64 \<Rightarrow> nat \<Rightarrow> nat \<Rightarrow> u64 \<Rightarrow> int \<Rightarrow> json" where
  "pool_json coin cfg blockTime info blocks poolHashrate minerCount workerCount roundShares window =
     (case info of (height, blockReward, difficulty) \<Rightarrow> JObject
       [(''pool_hr'', JFloat (Round0 poolHashrate)),
        (''net_hr'', JFloat (Round0 (f64_of_u64 difficulty / f64_of_u64 blockTime))),
        (''connected_addresses'', JNat minerCount),
        (''connected_workers'', JNat workerCount),
        (''chart'', JObject [(''hashrate'', JArray []), (''workers'', JArray []), (''addresses'', JArray [])]),
        (''num_blocks_found'', JNat (length blocks)),
        (''recent_blocks_found'', if blocks = [] then JNull else JArray (map (block_json coin) (take 10 blocks))),
        (''height'', JUint height),
        (''last_block'', case snd (last_block blocks) of None \<Rightarrow> no_block_json | Some b \<Rightarrow> block_json coin b),
        (''reward'', JFloat (Round3 (f64_of_u64 blockReward / coin))),
        (''pplns_window_seconds'', JInt window),
        (''withdrawals'', JArray []),
        (''pool_fee_percent'', JFloat (cfgFeePercent cfg)),
        (''payment_threshold'', JFloat (cfgMinWithdrawal cfg)),
        (''network_difficulty'', JUint difficulty),
        (''round_hashes'', JUint roundShares),
        (''effort'', JFloat (Round3 (effort roundShares difficulty)))])"

definition pool_response ::
  "(f64 \<Rightarrow> u64) \<Rightarrow> (f64 \<Rightarrow> int) \<Rightarrow> f64 \<Rightarrow> MasterConfig \<Rightarrow> u64 \<Rightarrow> (Share list \<Rightarrow> Share list) \<Rightarrow> (nat \<Rightarrow> int) \<Rightarrow> LedgerDB
     \<Rightarrow> PPLNSManager \<Rightarrow> (json \<times> PPLNSManager) res" where
  "pool_response conv convi coin cfg blockTime order clock l p =
     res_bind (on_error (0, 0, 1) (GetBlockchainInfo l)) (\<lambda>info.
     res_bind (on_error [] (GetRecentBlocks 50 l)) (\<lambda>blocks.
     res_bind (pool_rate order (clock 0) l) (\<lambda>poolHashrate.
     res_bind (on_error 0 (GetActiveMinerCount (clock 0 - 600) l)) (\<lambda>minerCount.
     res_bind (on_error 0 (GetActiveWorkerCount (clock 0 - 600) l)) (\<lambda>workerCount.
     res_bind (round_shares order (fst (last_block blocks)) l) (\<lambda>roundShares.
     res_bind (GetPplnsWindow conv convi order cfg (clock 1) l p) (\<lambda>(window, p').
     Ok (pool_json coin cfg blockTime info blocks poolHashrate minerCount workerCount roundShares window, p'))))))))"

section \<open>The handlers\<close>

definition handleStatsOld ::
  "(f64 \<Rightarrow> u64) \<Rightarrow> (f64 \<Rightarrow> int) \<Rightarrow> f64 \<Rightarrow> MasterConfig \<Rightarrow> u64 \<Rightarrow> (Share list \<Rightarrow> Share list) \<Rightarrow> (Payment list \<Rightarrow> Payment list)
     \<Rightarrow> (nat \<Rightarrow> int) \<Rightarrow> string \<Rightarrow> LedgerDB \<Rightarrow> PPLNSManager \<Rightarrow> (http_reply \<times> PPLNSManager) res" where
  "handleStatsOld conv convi coin cfg blockTime order porder clock urlPath l p =
     (let path = strings_TrimPrefix urlPath ''/stats'' in
      if path = '''' \<or> path = ''/'' then
        res_bind (pool_response conv convi coin cfg blockTime order clock l p) (\<lambda>(j, p'). Ok (Encode j, p'))
      else
        let minerAddr = strings_TrimPrefix path ''/'' in
        if minerAddr = '''' then Ok (HttpError ''Missing miner address'', p)
        else res_bind (miner_response coin order porder clock minerAddr l) (\<lambda>j. Ok (Encode j, p)))"

definition worker_status :: "int \<Rightarrow> int \<Rightarrow> string \<times> bool" where
  "worker_status currentTime lastShareTime =
     (let isActive = (currentTime - lastShareTime < 300) in
      (if isActive then ''active'' else if currentTime - lastShareTime < 600 then ''idle'' else ''offline'', isActive))"

definition worker_json :: "int \<Rightarrow> WorkerStats \<Rightarrow> json" where
  "worker_json currentTime w =
     (let (status, isActive) = worker_status currentTime (wsLastShareTime w) in JObject
       [(''identifier'', JString (wsWorkerID w)), (''name'', JString (wsWorkerID w)), (''worker_id'', JString (wsWorkerID w)),
        (''shares_total'', JUint (wsShareCount w)), (''shares_in_window'', JUint (wsSharesInWindow w)),
        (''percentage'', JFloat (Round3 (wsPercentage w))), (''last_share'', JInt (wsLastShareTime w)),
        (''hashrate'', JFloat (Round0 (wsHashrate w))), (''status'', JString status), (''active'', JBool isActive),
        (''timestamp'', JInt currentTime)])"

definition handleWorkers ::
  "(f64 \<Rightarrow> u64) \<Rightarrow> (f64 \<Rightarrow> int) \<Rightarrow> MasterConfig \<Rightarrow> (Share list \<Rightarrow> Share list) \<Rightarrow> (tempWorker list \<Rightarrow> tempWorker list)
     \<Rightarrow> (nat \<Rightarrow> int) \<Rightarrow> string \<Rightarrow> LedgerDB \<Rightarrow> PPLNSManager \<Rightarrow> (http_reply \<times> PPLNSManager) res" where
  "handleWorkers conv convi cfg order wsorder clock urlPath l p =
     (let minerAddr = strings_TrimSuffix (strings_TrimPrefix urlPath ''/workers/'') ''/'' in
      if minerAddr = '''' then Ok (HttpError ''Missing miner address'', p)
      else
        res_bind (GetPplnsWindow conv convi order cfg (clock 1) l p) (\<lambda>(window, p').
        res_bind (on_error [] (GetMinerWorkerStats wsorder (clock 2) minerAddr (clock 0 - window) l)) (\<lambda>workers.
        Ok (Encode (JArray (map (worker_json (clock 3)) workers)), p'))))"

definition GetAddressInfoCompat :: "int \<Rightarrow> string \<Rightarrow> LedgerDB \<Rightarrow> (u64 \<times> u64 \<times> u64) res" where
  "GetAddressInfoCompat now addr l =
     res_bind (GetBalance now addr l) (\<lambda>b. Ok (baConfirmed b, baPending b, baTotalPaid b))"


section \<open>Finite numbers\<close>

named_theorems finite_intros \<open>closure of the finite, bounded numbers\<close>

text \<open>A finite number of absolute value at most \<open>2 ^ k\<close>: rounding cannot lead beyond a power of
  two, so bounds of this form pass through the arithmetic.\<close>

definition within2 :: "nat \<Rightarrow> f64 \<Rightarrow> bool" where
  "within2 k x = (\<exists>q. x = Fin q \<and> 0 \<le> q \<and> q \<le> 2 ^ k)"

lemma within2_finite: "within2 k x \<Longrightarrow> finite64 x"
  by (auto simp: within2_def finite64_def IsNaN_def IsInf_def)

lemma within2_round:
  assumes "0 \<le> q" "q \<le> 2 ^ k" "k \<le> 1000"
  shows "within2 k (f64_round q)"
proof -
  have p: "(2 ^ k :: rat) = pow2 (int k)" by (simp add: pow2_def)
  have "q \<le> pow2 1000" using assms(2,3) pow2_mono [of "int k" 1000] by (simp add: p)
  then have "f64_round q = Fin (rnd64 q)" using assms(1) by (rule f64_round_Fin [rotated])
  moreover have "rnd64 q \<le> pow2 (int k)"
    using r64.rd_mono [of q "pow2 (int k)"] assms(2) rnd64_pow2 [of "int k"] by (simp add: p)
  moreover have "0 \<le> rnd64 q" using assms(1) by (rule rnd_nonneg)
  ultimately show ?thesis by (simp add: within2_def p)
qed

lemma within2_u64 [finite_intros]: "within2 64 (f64_of_u64 n)"
  unfolding f64_of_u64_def using of_nat_u64_lt [of n] by (intro within2_round) auto

lemma within2_div [finite_intros]:
  assumes "within2 k x" "k \<le> 1000" "1 \<le> c"
  shows "within2 k (x / Fin c)"
proof -
  obtain q where q: "x = Fin q" "0 \<le> q" "q \<le> 2 ^ k" using assms(1) by (auto simp: within2_def)
  have "q / c \<le> q" using assms(3) q(2) mult_left_mono [of 1 c q] by (simp add: divide_le_eq)
  then have "within2 k (f64_round (q / c))" using q assms by (intro within2_round) auto
  then show ?thesis using assms(3) by (simp add: q(1) divide_f64_def)
qed

lemma within2_mult:
  assumes "within2 k x" "within2 m y" "k + m \<le> 1000"
  shows "within2 (k + m) (x * y)"
proof -
  obtain p q where pq: "x = Fin p" "0 \<le> p" "p \<le> 2 ^ k" "y = Fin q" "0 \<le> q" "q \<le> 2 ^ m"
    using assms by (auto simp: within2_def)
  then have "p * q \<le> 2 ^ k * 2 ^ m" by (intro mult_mono) auto
  then have "within2 (k + m) (f64_round (p * q))" using pq assms(3) by (intro within2_round) (auto simp: power_add)
  then show ?thesis by (simp add: pq times_f64_def)
qed

lemma within2_Round:
  assumes "within2 k x"
  shows "within2 k (math_Round x)"
proof -
  obtain q where q: "x = Fin q" "0 \<le> q" "q \<le> 2 ^ k" using assms by (auto simp: within2_def)
  have "\<lfloor>q + 1 / 2\<rfloor> \<le> 2 ^ k"
  proof -
    have "\<lfloor>q + 1 / 2\<rfloor> < 2 ^ k + 1" unfolding floor_less_iff using q(3) by simp
    then show ?thesis by simp
  qed
  then have "(of_int \<lfloor>q + 1 / 2\<rfloor> :: rat) \<le> 2 ^ k" by (metis of_int_le_iff of_int_numeral of_int_power)
  then show ?thesis using q by (simp add: within2_def)
qed

lemma finite_NotNan [finite_intros]: "finite64 (NotNan x)"
  by (auto simp: NotNan_def finite64_def IsNaN_def IsInf_def)

lemma within2_Round0 [finite_intros]: "within2 k x \<Longrightarrow> within2 k (Round0 x)"
  by (simp add: Round0_def within2_Round)

lemma within2_Round3 [finite_intros]:
  assumes "within2 k x" "k + 10 \<le> 1000"
  shows "within2 (k + 10) (Round3 x)"
  unfolding Round3_def using assms
  by (intro within2_div within2_Round within2_mult) (auto simp: within2_def)

lemma finite_Fin [simp]: "finite64 (Fin q)"
  by (simp add: finite64_def IsNaN_def IsInf_def)

section \<open>Every reply about a miner has a body\<close>

lemma coins_ok [simp]: "json_ok (coins coin a)"
  by (simp add: coins_def finite_NotNan)

lemma finite_amount: "1 \<le> c \<Longrightarrow> finite64 (f64_of_u64 a / Fin c)"
  by (rule within2_finite [of 64]) (auto intro: finite_intros)

lemma on_error_Ok: "r \<noteq> Blocked \<Longrightarrow> \<exists>x. on_error d r = Ok x"
  by (cases r) (auto simp: on_error_def)

lemma res_bind_Blocked: "r \<noteq> Blocked \<Longrightarrow> \<forall>x. r = Ok x \<longrightarrow> f x \<noteq> Blocked \<Longrightarrow> res_bind r f \<noteq> Blocked"
  by (cases r) auto

lemma queries_answer:
  assumes "\<not> txOpen l"
  shows "GetBalance now a l \<noteq> Blocked" "GetMinerSharesInWindow order a t l \<noteq> Blocked"
    "GetSharesInWindow order t l \<noteq> Blocked" "GetActiveWorkers a t l \<noteq> Blocked"
    "GetMinerWithdrawals porder a n l \<noteq> Blocked" "GetRecentBlocks n l \<noteq> Blocked"
    "GetActiveMinerCount t l \<noteq> Blocked" "GetActiveWorkerCount t l \<noteq> Blocked" "GetBlockchainInfo l \<noteq> Blocked"
  using assms
  by (simp_all add: GetBalance_def GetMinerSharesInWindow_def GetSharesInWindow_def GetActiveWorkers_def
      GetMinerWithdrawals_def GetRecentBlocks_def GetActiveMinerCount_def GetActiveWorkerCount_def
      GetBlockchainInfo_def query_def)

lemma miner_response_ok:
  assumes "\<not> txOpen l" "1 \<le> c"
  shows "\<exists>j. miner_response (Fin c) order porder clock addr l = Ok j \<and> json_ok j"
proof -
  obtain bal where b: "api_balance (clock 0) addr l = Ok bal"
    using on_error_Ok [OF queries_answer(1) [OF assms(1)]] unfolding api_balance_def by blast
  obtain shs where s: "on_error [] (GetMinerSharesInWindow order addr (clock 1 - 3600) l) = Ok shs"
    using on_error_Ok [OF queries_answer(2) [OF assms(1)]] by blast
  have nb: "res_bind (GetActiveWorkers addr (clock 1 - 3600) l) (\<lambda>ws. Ok (length ws)) \<noteq> Blocked"
    using queries_answer(4) [OF assms(1)] by (intro res_bind_Blocked) auto
  obtain n where w: "worker_count addr (clock 1 - 3600) l = Ok n"
    using on_error_Ok [OF nb, of 0] unfolding worker_count_def by blast
  obtain ws where d: "on_error [] (GetMinerWithdrawals porder addr 10 l) = Ok ws"
    using on_error_Ok [OF queries_answer(5) [OF assms(1)]] by blast
  show ?thesis
    using assms(2) by (simp add: miner_response_def Let_def b miner_hashrates_def s w d list_all_iff finite_amount finite_NotNan
        del: One_nat_def)
qed

section \<open>The reply about the pool\<close>

lemma GetPplnsWindow_Ok:
  assumes "\<not> txOpen l"
  shows "\<exists>w p'. GetPplnsWindow conv convi order cfg now l p = Ok (w, p')"
proof -
  obtain n p1 where "GetPPLNSWindow conv cfg l p = Ok (n, p1)"
    using queries_answer(9) [OF assms] by (cases "GetBlockchainInfo l") (auto simp: GetPPLNSWindow_def Let_def)
  then show ?thesis
    using queries_answer(3) [OF assms, of order "now - 300"]
    by (cases "GetSharesInWindow order (now - 300) l") (auto simp: GetPplnsWindow_def Let_def)
qed

text \<open>Without an open transaction the reply is built from some values.\<close>

lemma pool_response_built:
  assumes "\<not> txOpen l"
  shows "\<exists>info blocks shs m n r w p'. pool_response conv convi coin cfg blockTime order clock l p =
    Ok (pool_json coin cfg blockTime info blocks (f64_of_u64 (total_diff shs) / Fin 300) m n r w, p')"
proof -
  obtain info where i: "on_error (0, 0, 1) (GetBlockchainInfo l) = Ok info"
    using on_error_Ok [OF queries_answer(9) [OF assms]] by blast
  obtain blocks where b: "on_error [] (GetRecentBlocks 50 l) = Ok blocks"
    using on_error_Ok [OF queries_answer(6) [OF assms]] by blast
  obtain shs where s: "on_error [] (GetSharesInWindow order (clock 0 - 300) l) = Ok shs"
    using on_error_Ok [OF queries_answer(3) [OF assms]] by blast
  obtain m where m: "on_error 0 (GetActiveMinerCount (clock 0 - 600) l) = Ok m"
    using on_error_Ok [OF queries_answer(7) [OF assms]] by blast
  obtain n where n: "on_error 0 (GetActiveWorkerCount (clock 0 - 600) l) = Ok n"
    using on_error_Ok [OF queries_answer(8) [OF assms]] by blast
  obtain x where x: "on_error [] (GetSharesInWindow order (fst (last_block blocks)) l) = Ok x"
    using on_error_Ok [OF queries_answer(3) [OF assms]] by blast
  then obtain r where r: "round_shares order (fst (last_block blocks)) l = Ok r"
    by (cases "0 < fst (last_block blocks)") (auto simp: round_shares_def)
  obtain w p' where w: "GetPplnsWindow conv convi order cfg (clock 1) l p = Ok (w, p')"
    using GetPplnsWindow_Ok [OF assms] by blast
  show ?thesis
    unfolding pool_response_def pool_rate_def by (simp only: i b s m n r w res_bind.simps prod.case) blast
qed

lemma finite_div_Fin [finite_intros]: "1 \<le> c \<Longrightarrow> finite64 (Round3 (f64_of_u64 a / Fin c))"
  by (rule within2_finite [of 74]) (use within2_Round3 [OF within2_div [OF within2_u64, of c a]] in simp)

lemma finite_network_rate:
  assumes "blockTime \<noteq> 0"
  shows "finite64 (Round0 (f64_of_u64 d / f64_of_u64 blockTime))"
proof -
  have "1 \<le> rnd64 (of_nat (unat blockTime))" using assms by (intro rnd64_of_nat_ge1) (simp add: unat_gt_0)
  then have "within2 64 (Round0 (f64_of_u64 d / Fin (rnd64 (of_nat (unat blockTime)))))"
    by (intro finite_intros) simp_all
  then show ?thesis unfolding f64_of_u64_Fin [of blockTime] by (rule within2_finite)
qed

lemma finite_effort: "finite64 (Round3 (effort r d))"
proof (cases "0 < r \<and> 0 < d")
  case True
  then have "1 \<le> rnd64 (of_nat (unat d))" by (intro rnd64_of_nat_ge1) (simp add: word_less_nat_alt)
  then have "within2 64 (f64_of_u64 r / f64_of_u64 d)"
    unfolding f64_of_u64_Fin [of d] by (intro finite_intros) simp_all
  moreover have "within2 7 (Fin 100)" by (simp add: within2_def)
  ultimately have "within2 (64 + 7) (f64_of_u64 r / f64_of_u64 d * Fin 100)" by (rule within2_mult) simp
  from within2_Round3 [OF this] have "within2 (64 + 7 + 10) (Round3 (effort r d))"
    using True by (simp add: effort_def)
  then show ?thesis by (rule within2_finite)
next
  case False
  have "within2 (0 + 10) (Round3 (Fin 0))" by (rule within2_Round3) (simp_all add: within2_def)
  with False show ?thesis by (auto simp: effort_def intro: within2_finite)
qed

lemma block_json_ok: "1 \<le> c \<Longrightarrow> json_ok (block_json (Fin c) b)"
  by (simp add: block_json_def finite_div_Fin)

lemma last_block_json_ok:
  "1 \<le> c \<Longrightarrow> json_ok (case snd (last_block blocks) of None \<Rightarrow> no_block_json | Some b \<Rightarrow> block_json (Fin c) b)"
  by (simp add: no_block_json_def block_json_ok split: option.split)

lemma pool_json_ok_iff:
  assumes "1 \<le> c" "finite64 (cfgFeePercent cfg)" "finite64 (cfgMinWithdrawal cfg)"
  shows "json_ok (pool_json (Fin c) cfg blockTime (h, rw, d) blocks (f64_of_u64 t / Fin 300) m n r w)
    \<longleftrightarrow> finite64 (Round0 (f64_of_u64 d / f64_of_u64 blockTime))"
proof -
  have hr: "finite64 (Round0 (f64_of_u64 t / Fin 300))"
    by (rule within2_finite [of 64]) (intro finite_intros, simp_all)
  have bl: "list_all json_ok (map (block_json (Fin c)) (take 10 blocks))"
    using assms(1) by (simp add: list_all_iff block_json_ok)
  show ?thesis
    using assms hr bl by (simp add: pool_json_def last_block_json_ok finite_div_Fin finite_effort)
qed

lemma net_rate_blank: "\<not> finite64 (Round0 (f64_of_u64 d / f64_of_u64 0))"
  by (simp add: f64_of_u64_Fin divide_f64_def Round0_def finite64_def IsNaN_def IsInf_def f64_inf_def)

text \<open>
  C28: the statistics pages always have a body. With a decimal unit of at least one atomic unit,
  finite configured amounts and a known block time, every request below \<open>/stats\<close> is answered with
  a JSON document or with the error for a missing address, whatever the tables hold and whichever
  queries fail: none of the divisions and roundings can produce a number that JSON cannot express.
\<close>
theorem stats_replies_encodable:
  assumes "\<not> txOpen l" "coin = Fin c" "1 \<le> c" "finite64 (cfgFeePercent cfg)" "finite64 (cfgMinWithdrawal cfg)"
    and "blockTime \<noteq> 0"
  shows "\<exists>reply p'. handleStatsOld conv convi coin cfg blockTime order porder clock urlPath l p = Ok (reply, p') \<and>
    ((\<exists>j. reply = Body j \<and> json_ok j) \<or> reply = HttpError ''Missing miner address'')"
proof -
  let ?path = "strings_TrimPrefix urlPath ''/stats''"
  have pool: "\<exists>j p'. pool_response conv convi coin cfg blockTime order clock l p = Ok (j, p') \<and> json_ok j"
    using pool_response_built [OF assms(1), of conv convi coin cfg blockTime order clock p] assms(2-6)
    by (auto simp: pool_json_ok_iff finite_network_rate)
  have miner: "\<exists>j. miner_response coin order porder clock (strings_TrimPrefix ?path ''/'') l = Ok j \<and> json_ok j"
    unfolding assms(2) by (rule miner_response_ok [OF assms(1,3)])
  show ?thesis
    using pool miner by (auto simp: handleStatsOld_def Let_def Encode_def)
qed

lemma stats_replies_encodable_witness:
  "(\<exists>j p'. handleStatsOld (\<lambda>_. 0) (\<lambda>_. 0) (Fin 100000000) sample_cfg 120 id id (\<lambda>_. 1000) ''/stats''
      (NewLedgerDB schema_full) (InitPPLNS sample_cfg) = Ok (Body j, p'))"
proof -
  have tx: "\<not> txOpen (NewLedgerDB schema_full)" by (simp add: NewLedgerDB_def)
  have fin: "finite64 (cfgFeePercent sample_cfg)" "finite64 (cfgMinWithdrawal sample_cfg)" by (simp_all add: sample_cfg_def)
  have "strings_TrimPrefix ''/stats'' ''/stats'' = ''''" by code_simp
  with stats_replies_encodable [OF tx refl _ fin, of 100000000 120 "\<lambda>_. 0" "\<lambda>_. 0" id id "\<lambda>_. 1000" "''/stats''" "InitPPLNS sample_cfg"]
  show ?thesis by (auto simp: handleStatsOld_def Let_def Encode_def res_bind_eq_Ok split: if_splits)
qed

section \<open>After a restart\<close>

text \<open>What happens while the master runs: rounds of the update loop, the reward updates they start,
  and any other write of the ledger.\<close>

datatype update_event =
    Round "(u64 \<times> u64 \<times> u64) option"
  | Reward "u64 option"
  | TableWrite ledger_op

fun update_step :: "LedgerDB \<times> u64 \<Rightarrow> update_event \<Rightarrow> LedgerDB \<times> u64" where
  "update_step s (Round info) = (case Updater_round info s of Ok (_, s') \<Rightarrow> s' | _ \<Rightarrow> s)"
| "update_step (l, bt) (Reward r) = (snd (UpdateReward r l), bt)"
| "update_step (l, bt) (TableWrite e) = (ledger_step l e, bt)"

definition stored_height :: "LedgerDB \<Rightarrow> u64" where
  "stored_height l = (case blockchain_info l of None \<Rightarrow> 0 | Some (h, _) \<Rightarrow> h)"

text \<open>The daemon reports no block above the stored one.\<close>

fun no_new_block :: "u64 \<Rightarrow> update_event \<Rightarrow> bool" where
  "no_new_block h (Round (Some (height, _))) = (height = h)"
| "no_new_block h (TableWrite (OpUpdateChain _ _ _)) = False"
| "no_new_block h e = True"

definition unset :: "u64 \<Rightarrow> LedgerDB \<times> u64 \<Rightarrow> bool" where
  "unset h s = (\<not> txOpen (fst s) \<and> stored_height (fst s) = h \<and> snd s = 0)"

lemma GetBlockchainInfo_stored:
  "\<not> txOpen l \<Longrightarrow> \<exists>r d. GetBlockchainInfo l = Ok (stored_height l, r, d)"
  by (auto simp: GetBlockchainInfo_def query_def stored_height_def split: option.split)

lemma unset_Round:
  assumes "unset h s" "no_new_block h (Round info)"
  shows "update_step s (Round info) = s"
proof -
  obtain r d where "GetBlockchainInfo (fst s) = Ok (h, r, d)"
    using GetBlockchainInfo_stored assms(1) unfolding unset_def by metis
  then show ?thesis
    using assms(2) by (cases info) (auto simp: Updater_round_def updater_height_def Let_def split: prod.split)
qed

lemma unset_Reward:
  assumes "unset h (l, bt)"
  shows "unset h (update_step (l, bt) (Reward r))"
proof -
  obtain rw d where "GetBlockchainInfo l = Ok (h, rw, d)"
    using GetBlockchainInfo_stored [of l] assms unfolding unset_def by auto
  then show ?thesis
    using assms by (cases r) (auto simp: unset_def UpdateReward_def UpdateBlockchainInfo_def exec_def stored_height_def
        split: option.splits res.splits prod.splits)
qed

lemma unset_frame:
  "blockchain_info l' = blockchain_info l \<Longrightarrow> txOpen l' = txOpen l \<Longrightarrow> unset h (l, bt) \<Longrightarrow> unset h (l', bt)"
  by (simp add: unset_def stored_height_def)

lemma unset_TableWrite:
  assumes "unset h (l, bt)" "no_new_block h (TableWrite e)"
  shows "unset h (ledger_step l e, bt)"
proof (cases e)
  case (OpUpdateChain a b c)
  then show ?thesis using assms(2) by simp
qed (use assms in \<open>auto simp: ledger_step_def ledger_write_defs exec_def Let_def intro: unset_frame split: option.splits\<close>)

interpretation block_time: step_invariant update_step "no_new_block h" "unset h" for h
proof unfold_locales
  fix s e
  assume "unset h s" "no_new_block h e"
  then show "unset h (update_step s e)"
    by (cases e; cases s) (simp_all add: unset_Round unset_Reward unset_TableWrite del: update_step.simps(1,2))
qed

text \<open>
  After a restart the pool page is blank. The block time is not persisted: it is 0 when the
  process starts and assigned only when the daemon reports a height other than the stored one.
  Until the next block of the chain, whatever the updater, the reward updates and the writers of
  the ledger do, the network hash rate is a quotient by zero, the encoder refuses the document and
  \<open>/stats\<close> is answered without a body.
\<close>
theorem stats_blank_after_restart:
  assumes "\<not> txOpen l" "\<forall>e \<in> set es. no_new_block (stored_height l) e"
    and "run update_step (l, 0) es = (l', blockTime)"
  shows "\<exists>p'. handleStatsOld conv convi coin cfg blockTime order porder clock ''/stats'' l' p = Ok (EmptyBody, p')"
proof -
  have "unset (stored_height l) (l, 0)" using assms(1) by (simp add: unset_def)
  from block_time.run_keeps [OF this assms(2)] have u: "\<not> txOpen l'" "blockTime = 0"
    by (simp_all add: assms(3) unset_def)
  obtain j p' where r: "pool_response conv convi coin cfg blockTime order clock l' p = Ok (j, p')" "\<not> json_ok j"
    using pool_response_built [OF u(1), of conv convi coin cfg blockTime order clock p]
    by (auto simp: pool_json_def u(2) net_rate_blank)
  have "strings_TrimPrefix ''/stats'' ''/stats'' = ''''" by code_simp
  with r show ?thesis by (simp add: handleStatsOld_def Let_def Encode_def)
qed

lemma stats_blank_after_restart_witness:
  "\<exists>l bt p'. run update_step ((NewLedgerDB schema_full)\<lparr>blockchain_info := Some (500, 9, 7000)\<rparr>, 0)
        [Round None, Round (Some (500, 7000, 120)), Reward (Some 12)] = (l, bt) \<and>
     handleStatsOld (\<lambda>_. 0) (\<lambda>_. 0) (Fin 100000000) sample_cfg bt id id (\<lambda>_. 1000) ''/stats'' l
       (InitPPLNS sample_cfg) = Ok (EmptyBody, p')"
proof -
  let ?l = "(NewLedgerDB schema_full)\<lparr>blockchain_info := Some (500, 9, 7000)\<rparr>"
  let ?es = "[Round None, Round (Some (500, 7000, 120)), Reward (Some 12)]"
  obtain l bt where r: "run update_step (?l, 0) ?es = (l, bt)" by fastforce
  have "\<not> txOpen ?l" "\<forall>e \<in> set ?es. no_new_block (stored_height ?l) e"
    by (simp_all add: NewLedgerDB_def stored_height_def)
  from stats_blank_after_restart [OF this r] r show ?thesis by blast
qed

section \<open>The rates of a miner agree\<close>

lemma rate_over_rate: "1 \<le> c \<Longrightarrow> rate_over c d = f64_of_u64 d / Fin c"
  using f64_round_Fin [of 0] by (simp add: rate_over_def word_gt_0 f64_of_u64_Fin divide_f64_def pow2_def)

lemma diff_within_since: "diff_within now secs shs = diff_since (now - secs) shs"
  by (simp add: diff_within_def diff_since_def algebra_simps)

lemma diff_since_order:
  assumes "permutes order"
  shows "diff_since t (order shs) = diff_since t shs"
  by (simp add: diff_since_sum sum_filter_order [OF assms])

lemma total_diff_order:
  assumes "permutes order"
  shows "total_diff (order shs) = total_diff shs"
  using sum_filter_order [OF assms, of shDifficulty "\<lambda>_. True"] by (simp add: total_diff_sum)

lemma diff_since_cut: "u \<le> t \<Longrightarrow> diff_since t (filter (\<lambda>s. P s \<and> u \<le> shTimestamp s) shs) = diff_since t (filter P shs)"
  unfolding diff_since_sum filter_filter by (rule arg_cong [where f = "\<lambda>xs. sum_list (map shDifficulty xs)"]) (auto intro: filter_cong)

lemma total_diff_window: "total_diff (filter (\<lambda>s. P s \<and> t \<le> shTimestamp s) shs) = diff_since t (filter P shs)"
  by (simp add: total_diff_sum diff_since_sum conj_commute)

text \<open>The difficulties behind a row of the collector.\<close>

lemma row_diff:
  assumes "permutes order" "now - 3600 \<le> t"
  shows "diff_since t (map_get [] (group_shares (order (filter (\<lambda>s. now - 3600 \<le> shTimestamp s) shs))) a)
    = diff_since t (filter (\<lambda>s. shMinerAddr s = a) shs)"
proof -
  have "diff_since t (map_get [] (group_shares (order (filter (\<lambda>s. now - 3600 \<le> shTimestamp s) shs))) a)
    = diff_since t (filter (\<lambda>s. shMinerAddr s = a \<and> now - 3600 \<le> shTimestamp s) shs)"
    unfolding group_shares_get diff_since_sum filter_filter sum_filter_order [OF assms(1)]
    by (simp add: conj_ac)
  then show ?thesis using assms(2) by (simp add: diff_since_cut)
qed

text \<open>
  C29: three computations of a miner's hash rate agree. At one reading of the clock, the row that
  the collector computes for a miner from the grouped shares of all miners, the statistics
  functions over 5 and 15 minutes and the rates of the API page are the same numbers (the
  functions round them), in whatever orders the database returns the shares.
\<close>
theorem hashrates_agree:
  assumes "miner_rows order rng now l = Ok rows" "r \<in> set rows" "permutes order" "permutes order'"
  shows "Get5mHashrate order' now (mhMinerAddr r) l = Ok (math_Round (mhHashrate5m r)) \<and>
    Get15mHashrate order' now (mhMinerAddr r) l = Ok (math_Round (mhHashrate15m r)) \<and>
    miner_hashrates order' now now (mhMinerAddr r) l = Ok (mhHashrate5m r, mhHashrate15m r, mhHashrate1h r)"
proof -
  have tx: "\<not> txOpen l" using assms(1) by (auto simp: miner_rows_def GetSharesInWindow_def query_def)
  define a where "a = mhMinerAddr r"
  let ?D = "\<lambda>t. diff_since t (filter (\<lambda>s. shMinerAddr s = a) (shares l))"
  have r: "mhHashrate5m r = f64_of_u64 (?D (now - 300)) / Fin 300"
    "mhHashrate15m r = f64_of_u64 (?D (now - 900)) / Fin 900"
    "mhHashrate1h r = f64_of_u64 (?D (now - 3600)) / Fin 3600"
    using assms(1,2) tx
    by (auto simp: miner_rows_def GetSharesInWindow_def query_def Let_def a_def miner_hashrate_def row_diff [OF assms(3)])
  have q: "GetMinerSharesInWindow order' a t l
      = Ok (order' (filter (\<lambda>s. shMinerAddr s = a \<and> t \<le> shTimestamp s) (shares l)))" for t
    using tx by (simp add: GetMinerSharesInWindow_def query_def)
  have "Get5mHashrate order' now a l = Ok (math_Round (mhHashrate5m r))"
    by (simp add: Get5mHashrate_def q r total_diff_order [OF assms(4)] total_diff_window)
  moreover have "Get15mHashrate order' now a l = Ok (math_Round (mhHashrate15m r))"
    by (simp add: Get15mHashrate_def q r total_diff_order [OF assms(4)] total_diff_window)
  moreover have "miner_hashrates order' now now a l = Ok (mhHashrate5m r, mhHashrate15m r, mhHashrate1h r)"
    by (simp add: miner_hashrates_def on_error_def q rate_over_rate diff_within_since diff_since_order [OF assms(4)]
        diff_since_cut r)
  ultimately show ?thesis by (simp add: a_def)
qed

lemma hashrates_agree_witness:
  "miner_hashrates id 400 400 ''m'' sample_shares = Ok (f64_of_u64 (diff_since 100 (shares sample_shares)) / Fin 300,
     f64_of_u64 (diff_since (- 500) (shares sample_shares)) / Fin 900,
     f64_of_u64 (diff_since (- 3200) (shares sample_shares)) / Fin 3600)"
proof -
  let ?r = "miner_hashrate 400 ''m'' (shares sample_shares)"
  have "filter (\<lambda>s. - 3200 \<le> shTimestamp s) (shares sample_shares) = shares sample_shares"
    "filter (\<lambda>s. shMinerAddr s = ''m'') (shares sample_shares) = shares sample_shares"
    by (simp_all add: sample_shares_def sample_share_def)
  then have "miner_rows id (\<lambda>_. [''m'']) 400 sample_shares = Ok [?r]"
    by (simp add: miner_rows_def GetSharesInWindow_def query_def Let_def group_shares_get) (simp add: sample_shares_def NewLedgerDB_def)
  from hashrates_agree [OF this, of ?r id] show ?thesis by (simp add: permutes_def miner_hashrate_def)
qed

end
