(* ===== verification/Withdraw.thy ===== *)
theory Withdraw
  imports Updater
begin

text \<open>
  \<^verbatim>\<open>src/cmd/master/withdraw.go\<close>: pending payments are grouped by recipient and sent through the
  wallet, a service: \<open>rpc\<close> gives its answer to a transfer request (the transaction id, \<open>None\<close> on
  an error), which may depend on the transfers sent before.
\<close>

type_synonym sent_transfer = "string \<times> u64 \<times> string"
type_synonym wallet_rpc = "sent_transfer list \<Rightarrow> string \<Rightarrow> u64 \<Rightarrow> string option"

definition minWithdrawal :: "(f64 \<Rightarrow> u64) \<Rightarrow> MasterConfig \<Rightarrow> u64" where
  "minWithdrawal conv cfg = u64_of_f64 conv (cfgMinWithdrawal cfg * math_Pow10 (cfgAtomic cfg))"

definition withdrawalFee :: "(f64 \<Rightarrow> u64) \<Rightarrow> MasterConfig \<Rightarrow> u64" where
  "withdrawalFee conv cfg = u64_of_f64 conv (cfgWithdrawalFee cfg * math_Pow10 (cfgAtomic cfg))"

definition recipient_payments :: "Payment list \<Rightarrow> string \<rightharpoonup> Payment list" where
  "recipient_payments ps =
     foldl (\<lambda>m p. m(paRecipientAddr p \<mapsto> map_get [] m (paRecipientAddr p) @ [p])) Map.empty ps"

definition total_amount :: "Payment list \<Rightarrow> u64" where
  "total_amount ps = foldl (\<lambda>t p. t + paAmount p) 0 ps"

definition sendPayment ::
  "(f64 \<Rightarrow> u64) \<Rightarrow> MasterConfig \<Rightarrow> wallet_rpc \<Rightarrow> string \<Rightarrow> u64 \<Rightarrow> sent_transfer list \<Rightarrow> string option \<times> sent_transfer list" where
  "sendPayment conv cfg rpc addr amount sent =
     (let amt = amount - withdrawalFee conv cfg in
      case rpc sent addr amt of
        None \<Rightarrow> (None, sent)
      | Some txid \<Rightarrow> (Some txid, sent @ [(addr, amt, txid)]))"

fun mark_sent :: "int \<Rightarrow> string \<Rightarrow> Payment list \<Rightarrow> LedgerDB \<Rightarrow> unit res \<times> LedgerDB" where
  "mark_sent now txid [] l = (Ok (), l)"
| "mark_sent now txid (p # ps) l =
     (case UpdatePaymentStatus now (paID p) ''sent'' (Some txid) l of
        (Blocked, l') \<Rightarrow> (Blocked, l')
      | (_, l') \<Rightarrow> mark_sent now txid ps l')"

fun withdraw_loop ::
  "(f64 \<Rightarrow> u64) \<Rightarrow> MasterConfig \<Rightarrow> wallet_rpc \<Rightarrow> int \<Rightarrow> (string \<rightharpoonup> Payment list) \<Rightarrow> string list
   \<Rightarrow> LedgerDB \<Rightarrow> sent_transfer list \<Rightarrow> unit res \<times> LedgerDB \<times> sent_transfer list" where
  "withdraw_loop conv cfg rpc now m [] l sent = (Ok (), l, sent)"
| "withdraw_loop conv cfg rpc now m (a # as) l sent =
     (let paymentList = map_get [] m a; totalAmount = total_amount paymentList in
      if totalAmount < minWithdrawal conv cfg then withdraw_loop conv cfg rpc now m as l sent
      else case sendPayment conv cfg rpc a totalAmount sent of
             (None, sent') \<Rightarrow> withdraw_loop conv cfg rpc now m as l sent'
           | (Some txid, sent') \<Rightarrow>
               (case mark_sent now txid paymentList l of
                  (Blocked, l') \<Rightarrow> (Blocked, l', sent')
                | (_, l') \<Rightarrow> withdraw_loop conv cfg rpc now m as l' sent'))"

definition Withdraw ::
  "(f64 \<Rightarrow> u64) \<Rightarrow> (Payment list \<Rightarrow> Payment list) \<Rightarrow> ((string \<rightharpoonup> Payment list) \<Rightarrow> string list) \<Rightarrow> MasterConfig \<Rightarrow> wallet_rpc
   \<Rightarrow> int \<Rightarrow> LedgerDB \<Rightarrow> sent_transfer list \<Rightarrow> unit res \<times> LedgerDB \<times> sent_transfer list" where
  "Withdraw conv order rng cfg rpc now l sent =
     (case GetPendingPayments order l of
        Blocked \<Rightarrow> (Blocked, l, sent)
      | Err _ \<Rightarrow> (Ok (), l, sent)
      | Ok ps \<Rightarrow>
          (if ps = [] then (Ok (), l, sent)
           else let m = recipient_payments ps in withdraw_loop conv cfg rpc now m (rng m) l sent))"

definition ProcessWithdrawals ::
  "(f64 \<Rightarrow> u64) \<Rightarrow> (Payment list \<Rightarrow> Payment list) \<Rightarrow> ((string \<rightharpoonup> Payment list) \<Rightarrow> string list) \<Rightarrow> MasterConfig \<Rightarrow> wallet_rpc
   \<Rightarrow> int \<Rightarrow> LedgerDB \<Rightarrow> sent_transfer list \<Rightarrow> unit res \<times> LedgerDB \<times> sent_transfer list" where
  "ProcessWithdrawals = Withdraw"

section \<open>Grouping\<close>

lemma recipient_payments_snoc:
  "recipient_payments (ps @ [p]) = (recipient_payments ps)(paRecipientAddr p \<mapsto>
     map_get [] (recipient_payments ps) (paRecipientAddr p) @ [p])"
  by (simp only: recipient_payments_def foldl_append foldl_Cons foldl_Nil)

lemma recipient_payments_get:
  "map_get [] (recipient_payments ps) a = filter (\<lambda>p. paRecipientAddr p = a) ps"
proof (induction ps rule: rev_induct)
  case (snoc p ps)
  then show ?case unfolding recipient_payments_snoc map_get_upd by auto
qed (simp add: recipient_payments_def)

lemma dom_recipient_payments: "dom (recipient_payments ps) = paRecipientAddr ` set ps"
proof (induction ps rule: rev_induct)
  case (snoc p ps)
  then show ?case unfolding recipient_payments_snoc dom_fun_upd by simp
qed (simp add: recipient_payments_def)

section \<open>What one run sends\<close>

lemma withdraw_loop_sends:
  assumes "distinct as"
  shows "\<exists>new. snd (snd (withdraw_loop conv cfg rpc now m as l sent)) = sent @ new \<and> distinct (map fst new) \<and>
    (\<forall>(a, amt, txid) \<in> set new. a \<in> set as \<and> minWithdrawal conv cfg \<le> total_amount (map_get [] m a) \<and>
       amt = total_amount (map_get [] m a) - withdrawalFee conv cfg)"
  using assms
proof (induction as arbitrary: l sent)
  case (Cons a as)
  let ?t = "total_amount (map_get [] m a)"
  have IH: "\<exists>new. snd (snd (withdraw_loop conv cfg rpc now m as l sent)) = sent @ new \<and> distinct (map fst new) \<and>
    (\<forall>(a, amt, txid) \<in> set new. a \<in> set as \<and> minWithdrawal conv cfg \<le> total_amount (map_get [] m a) \<and>
       amt = total_amount (map_get [] m a) - withdrawalFee conv cfg)" for l sent
    using Cons by simp
  show ?case
  proof (cases "?t < minWithdrawal conv cfg \<or> rpc sent a (?t - withdrawalFee conv cfg) = None")
    case True
    then have "withdraw_loop conv cfg rpc now m (a # as) l sent = withdraw_loop conv cfg rpc now m as l sent"
      by (auto simp: sendPayment_def Let_def)
    with IH [of l sent] show ?thesis by fastforce
  next
    case False
    then obtain txid where tx: "rpc sent a (?t - withdrawalFee conv cfg) = Some txid" and ge: "minWithdrawal conv cfg \<le> ?t"
      by (auto simp: not_less)
    let ?s = "(a, ?t - withdrawalFee conv cfg, txid)"
    obtain r l' where mk: "mark_sent now txid (map_get [] m a) l = (r, l')" by (metis surj_pair)
    obtain new where new: "snd (snd (withdraw_loop conv cfg rpc now m as l' (sent @ [?s]))) = (sent @ [?s]) @ new"
      "distinct (map fst new)" "\<forall>(a, amt, txid) \<in> set new. a \<in> set as \<and> minWithdrawal conv cfg \<le> total_amount (map_get [] m a) \<and>
       amt = total_amount (map_get [] m a) - withdrawalFee conv cfg"
      using IH [of l' "sent @ [?s]"] by blast
    have "a \<notin> fst ` set new" using new(3) Cons.prems by force
    then show ?thesis
      using False tx mk new ge by (cases r) (auto simp: sendPayment_def Let_def intro: exI [of _ "?s # new"] exI [of _ "[?s]"])
  qed
qed (intro exI [of _ "[]"], simp)

lemma unat_diff_u64:
  fixes x y :: u64
  shows "unat (x - y) = (if y \<le> x then unat x - unat y else 18446744073709551616 + unat x - unat y)"
proof (cases "y \<le> x")
  case True
  then show ?thesis by (simp add: unat_sub)
next
  case False
  then have "\<not> unat y \<le> unat x" by (simp add: word_le_nat_alt)
  then have "unat (x - y) = unat x + 2 ^ LENGTH(64) - unat y" by (simp only: unat_sub_if' if_False)
  moreover have "(2 :: nat) ^ LENGTH(64) = 18446744073709551616" by simp
  ultimately have "unat (x - y) = 18446744073709551616 + unat x - unat y" by (metis add.commute)
  with False show ?thesis by (simp only: if_False)
qed

lemma total_amount_sum: "total_amount ps = sum_list (map paAmount ps)"
proof -
  have "foldl (\<lambda>t p. t + paAmount p) t ps = t + sum_list (map paAmount ps)" for t
    by (induction ps arbitrary: t) (simp_all add: add.assoc)
  then show ?thesis by (simp add: total_amount_def)
qed

lemma unat_total_amount:
  "(\<Sum>p \<leftarrow> ps. unat (paAmount p)) < 2 ^ 64 \<Longrightarrow> unat (total_amount ps) = (\<Sum>p \<leftarrow> ps. unat (paAmount p))"
  using unat_sum_list_u64 [of "map paAmount ps"] by (simp add: total_amount_sum comp_def)

text \<open>
  C32: One run of \<open>Withdraw\<close> sends at most one transfer to a recipient, only to recipients of
  pending payments whose total reaches the minimum, and the total less the withdrawal fee, both
  reckoned modulo \<open>2 ^ 64\<close>. The total is the exact sum if that fits 64 bits. The amount is the exact
  difference if the fee does not exceed the total, for instance if it does not exceed the configured
  minimum, which nothing in the code enforces; a greater fee makes the subtraction wrap around, and
  the transfer asks for nearly \<open>2 ^ 64\<close> atomic units.
\<close>
theorem Withdraw_sends:
  assumes "\<not> txOpen l"
    and "m = recipient_payments (order (filter (\<lambda>p. paStatus p = ''pending'') (payments l)))" "range_order m (rng m)"
  shows "\<exists>new. snd (snd (Withdraw conv order rng cfg rpc now l sent)) = sent @ new \<and> distinct (map fst new) \<and>
    (\<forall>(a, amt, txid) \<in> set new.
      let due = filter (\<lambda>p. paRecipientAddr p = a) (order (filter (\<lambda>p. paStatus p = ''pending'') (payments l)));
          fee = withdrawalFee conv cfg in
      due \<noteq> [] \<and> minWithdrawal conv cfg \<le> total_amount due \<and> amt = total_amount due - fee \<and>
      ((\<Sum>p \<leftarrow> due. unat (paAmount p)) < 2 ^ 64 \<longrightarrow> unat (total_amount due) = (\<Sum>p \<leftarrow> due. unat (paAmount p))) \<and>
      unat amt = (if fee \<le> total_amount due then unat (total_amount due) - unat fee
                  else 18446744073709551616 + unat (total_amount due) - unat fee) \<and>
      (fee \<le> minWithdrawal conv cfg \<longrightarrow> fee \<le> total_amount due))"
proof -
  let ?ps = "order (filter (\<lambda>p. paStatus p = ''pending'') (payments l))"
  let ?m = "recipient_payments ?ps"
  have g: "GetPendingPayments order l = Ok ?ps" using assms(1) by (simp add: GetPendingPayments_def query_def)
  show ?thesis
  proof (cases "?ps = []")
    case True
    then show ?thesis by (intro exI [of _ "[]"]) (simp add: Withdraw_def g)
  next
    case False
    have rng: "distinct (rng ?m)" "set (rng ?m) = paRecipientAddr ` set ?ps"
      using assms(3) by (simp_all add: assms(2) range_order_def dom_recipient_payments)
    have w: "Withdraw conv order rng cfg rpc now l sent = withdraw_loop conv cfg rpc now ?m (rng ?m) l sent"
      using False by (simp add: Withdraw_def g Let_def)
    have due: "map_get [] ?m a \<noteq> []" if "a \<in> set (rng ?m)" for a
      using that rng(2) by (auto simp: recipient_payments_get filter_empty_conv)
    obtain new where new: "snd (snd (withdraw_loop conv cfg rpc now ?m (rng ?m) l sent)) = sent @ new" "distinct (map fst new)"
      "\<forall>(a, amt, txid) \<in> set new. a \<in> set (rng ?m) \<and> minWithdrawal conv cfg \<le> total_amount (map_get [] ?m a) \<and>
        amt = total_amount (map_get [] ?m a) - withdrawalFee conv cfg"
      using withdraw_loop_sends [OF rng(1), of conv cfg rpc now ?m l sent] by blast
    show ?thesis
    proof (intro exI [of _ new] conjI ballI)
      fix x assume x: "x \<in> set new"
      obtain a amt txid where a: "x = (a, amt, txid)" by (cases x)
      with new(3) x due have "map_get [] ?m a \<noteq> []" "minWithdrawal conv cfg \<le> total_amount (map_get [] ?m a)"
        "amt = total_amount (map_get [] ?m a) - withdrawalFee conv cfg" by auto
      then show "case x of (a, amt, txid) \<Rightarrow>
          let due = filter (\<lambda>p. paRecipientAddr p = a) ?ps; fee = withdrawalFee conv cfg in
          due \<noteq> [] \<and> minWithdrawal conv cfg \<le> total_amount due \<and> amt = total_amount due - fee \<and>
          ((\<Sum>p \<leftarrow> due. unat (paAmount p)) < 2 ^ 64 \<longrightarrow> unat (total_amount due) = (\<Sum>p \<leftarrow> due. unat (paAmount p))) \<and>
          unat amt = (if fee \<le> total_amount due then unat (total_amount due) - unat fee
                      else 18446744073709551616 + unat (total_amount due) - unat fee) \<and>
          (fee \<le> minWithdrawal conv cfg \<longrightarrow> fee \<le> total_amount due)"
        unfolding a prod.case Let_def recipient_payments_get
        using unat_total_amount unat_diff_u64 order_trans by blast
    qed (use new w in simp_all)
  qed
qed

definition sample_payment :: "u64 \<Rightarrow> Payment" where
  "sample_payment i = \<lparr>paID = i, paBlockHeight = None, paRecipientAddr = ''m'', paAmount = 500000000, paFee = 0, paTxID = None,
     paStatus = ''pending'', paCreatedAt = 5, paSentAt = None, paConfirmedAt = None, paUpdatedAt = None\<rparr>"

definition sample_pending :: "schema \<Rightarrow> LedgerDB" where
  "sample_pending sc = (NewLedgerDB sc)\<lparr>payments := [sample_payment 1, sample_payment 2], nextPaymentID := 3\<rparr>"

lemma Withdraw_sends_witness:
  "\<exists>new. snd (snd (Withdraw (\<lambda>_. 0) (sort_key paCreatedAt) (\<lambda>_. [''m'']) sample_cfg (\<lambda>_ _ _. Some ''tx'') 9
      (sample_pending schema_full) [])) = new \<and> distinct (map fst new)"
proof -
  let ?m = "recipient_payments (sort_key paCreatedAt (filter (\<lambda>p. paStatus p = ''pending'') (payments (sample_pending schema_full))))"
  have "\<not> txOpen (sample_pending schema_full)" by (simp add: sample_pending_def NewLedgerDB_def)
  moreover have "range_order ?m [''m'']"
    by (simp add: range_order_def dom_recipient_payments sample_pending_def sample_payment_def)
  ultimately show ?thesis
    using Withdraw_sends [of "sample_pending schema_full" ?m "sort_key paCreatedAt" "\<lambda>_. [''m'']" "\<lambda>_. 0" sample_cfg
        "\<lambda>_ _ _. Some ''tx''" 9 "[]"] by auto
qed

section \<open>Marking the payments\<close>

lemma mark_sent_no_column:
  assumes "\<not> txOpen l" "\<not> paymentsUpdatedAt (lschema l)"
  shows "mark_sent now txid ps l = (Ok (), l)"
proof (induction ps)
  case (Cons p ps)
  have "snd (UpdatePaymentStatus now (paID p) ''sent'' (Some txid) l) = l"
    "fst (UpdatePaymentStatus now (paID p) ''sent'' (Some txid) l) \<noteq> Blocked"
    using assms by (simp_all add: UpdatePaymentStatus_def exec_def)
  with Cons show ?case
    by (cases "UpdatePaymentStatus now (paID p) ''sent'' (Some txid) l"; cases "fst (UpdatePaymentStatus now (paID p) ''sent'' (Some txid) l)") auto
qed simp

lemma withdraw_loop_no_column:
  assumes "\<not> txOpen l" "\<not> paymentsUpdatedAt (lschema l)"
  shows "\<exists>new. withdraw_loop conv cfg rpc now m as l sent = (Ok (), l, sent @ new)"
proof (induction as arbitrary: sent)
  case (Cons a as)
  have IH: "\<exists>new. withdraw_loop conv cfg rpc now m as l (sent @ xs) = (Ok (), l, sent @ new)" for xs
    using Cons [of "sent @ xs"] by (metis append.assoc)
  then show ?case
    using IH [of "[]"] by (auto simp: Let_def sendPayment_def mark_sent_no_column [OF assms] split: option.split)
qed simp

text \<open>
  On a database created by \<^verbatim>\<open>schema.sql\<close> payments are sent over and over: the statement that
  marks a payment as sent names a column the table does not have, so it always fails, a run
  of \<open>Withdraw\<close> leaves the ledger exactly as it was, and the next run finds the same payments
  pending and sends them again.
\<close>
theorem schema_sql_pays_again:
  assumes "\<not> txOpen l" "lschema l = schema_sql"
  shows "\<exists>new. Withdraw conv order rng cfg rpc now l sent = (Ok (), l, sent @ new) \<and>
    GetPendingPayments order (fst (snd (Withdraw conv order rng cfg rpc now l sent))) = GetPendingPayments order l"
proof -
  have "\<not> paymentsUpdatedAt (lschema l)" using assms(2) by (simp add: schema_sql_def)
  then obtain new where "Withdraw conv order rng cfg rpc now l sent = (Ok (), l, sent @ new)"
    using withdraw_loop_no_column [OF assms(1), of conv cfg rpc now
        "recipient_payments (order (filter (\<lambda>p. paStatus p = ''pending'') (payments l)))"
        "rng (recipient_payments (order (filter (\<lambda>p. paStatus p = ''pending'') (payments l))))" sent] assms(1)
    by (cases "order (filter (\<lambda>p. paStatus p = ''pending'') (payments l)) = []")
      (auto simp: Withdraw_def GetPendingPayments_def query_def Let_def)
  then show ?thesis by simp
qed

lemma schema_sql_pays_again_witness:
  "\<exists>new. Withdraw (\<lambda>_. 0) (sort_key paCreatedAt) (\<lambda>_. [''m'']) sample_cfg (\<lambda>_ _ _. Some ''tx'') 9 (sample_pending schema_sql) []
     = (Ok (), sample_pending schema_sql, new)"
proof -
  have "\<not> txOpen (sample_pending schema_sql)" "lschema (sample_pending schema_sql) = schema_sql"
    by (simp_all add: sample_pending_def NewLedgerDB_def)
  from schema_sql_pays_again [OF this] show ?thesis by (metis append_Nil)
qed

text \<open>The rows after the loop, when the column exists.\<close>

definition sent_row :: "int \<Rightarrow> string \<Rightarrow> Payment \<Rightarrow> Payment" where
  "sent_row now txid p = p\<lparr>paStatus := ''sent'', paTxID := Some txid, paSentAt := Some now, paUpdatedAt := Some now\<rparr>"

lemma mark_sent_taken:
  assumes "\<not> txOpen l" "\<exists>q \<in> set (payments l). paTxID q = Some txid \<and> (\<forall>p \<in> set ps. paID q \<noteq> paID p)"
    "\<forall>p \<in> set ps. p \<in> set (payments l)"
  shows "mark_sent now txid ps l = (Ok (), l)"
  using assms(2,3)
proof (induction ps)
  case (Cons p ps)
  obtain q where q: "q \<in> set (payments l)" "paTxID q = Some txid" "paID q \<noteq> paID p" using Cons.prems(1) by auto
  have "p \<in> set (payments l)" using Cons.prems by simp
  then have "UpdatePaymentStatus now (paID p) ''sent'' (Some txid) l \<in> {(Err e, l) | e. True}"
    using assms(1) q by (auto simp: UpdatePaymentStatus_def exec_def set_payment_def Let_def list_ex_iff payment_statuses_def)
  moreover have "mark_sent now txid ps l = (Ok (), l)" using Cons.prems by (intro Cons.IH) auto
  ultimately show ?case by auto
qed simp

text \<open>
  C33: Even on a database that has the column, of the payments one transfer settles only the first
  is ever marked. The transaction id of a payment is UNIQUE, so giving the id of the transfer
  to a second payment of the same recipient fails: the first becomes \<^verbatim>\<open>sent\<close>, every other row of
  the table stays as it is, hence pending, and is sent again by the next run.
\<close>
theorem only_first_payment_marked:
  assumes "\<not> txOpen l" "paymentsUpdatedAt (lschema l)" "bindable (paID p)"
    and "\<forall>q \<in> set (p # ps). q \<in> set (payments l)" "distinct (map paID (p # ps))"
    and "\<forall>q \<in> set (payments l). paTxID q \<noteq> Some txid"
  shows "mark_sent now txid (p # ps) l
    = (Ok (), l\<lparr>payments := map (\<lambda>q. if paID q = paID p then sent_row now txid q else q) (payments l)\<rparr>)"
proof -
  let ?l = "l\<lparr>payments := map (\<lambda>q. if paID q = paID p then sent_row now txid q else q) (payments l)\<rparr>"
  have u: "UpdatePaymentStatus now (paID p) ''sent'' (Some txid) l = (Ok (), ?l)"
    using assms(1-3,6) by (auto simp: UpdatePaymentStatus_def exec_def set_payment_def Let_def list_ex_iff
        payment_statuses_def sent_row_def)
  have "sent_row now txid p \<in> set (payments ?l)" using assms(4) by (auto simp: image_iff intro!: bexI [of _ p])
  moreover have "paTxID (sent_row now txid p) = Some txid" "paID (sent_row now txid p) = paID p"
    by (simp_all add: sent_row_def)
  ultimately have t: "\<exists>q \<in> set (payments ?l). paTxID q = Some txid \<and> (\<forall>r \<in> set ps. paID q \<noteq> paID r)"
    using assms(5) by force
  have "\<forall>q \<in> set ps. q \<in> set (payments ?l)"
    using assms(4,5) by (force simp: image_iff)
  with mark_sent_taken [of ?l txid ps now] assms(1) t u show ?thesis by simp
qed

lemma only_first_payment_marked_witness:
  "mark_sent 9 ''tx'' [sample_payment 1, sample_payment 2] (sample_pending schema_full)
    = (Ok (), (sample_pending schema_full)\<lparr>payments := [sent_row 9 ''tx'' (sample_payment 1), sample_payment 2]\<rparr>)"
  using only_first_payment_marked [of "sample_pending schema_full" "sample_payment 1" "[sample_payment 2]" "''tx''" 9]
  by (simp add: sample_pending_def sample_payment_def NewLedgerDB_def schema_full_def bindable_def)

end
