(* ===== verification/Startup.thy ===== *)
theory Startup
  imports Api Withdraw Daemon_Pool Verify_Queue Requests
begin

text \<open>
  How the two programs start: reading the configuration (\<^verbatim>\<open>src/config/config.go\<close>), \<open>main\<close> of the master
  (\<^verbatim>\<open>src/cmd/master/master.go\<close>) and of the slave (\<^verbatim>\<open>src/cmd/slave/slave.go\<close>), the listeners and the
  certificate of the stratum server (\<^verbatim>\<open>src/stratum\<close>) and the routes of the API
  (\<^verbatim>\<open>src/cmd/master/api.go\<close>). Files, sockets, clients and the database are arguments: the result of
  opening them. The last part follows the master from its start through the messages of its slaves
  and the rewards of its blocks.
\<close>

section \<open>Configuration\<close>

text \<open>The two places are tried in turn. The message of the last panic formats the error of
  \<open>MarshalIndent\<close>, which is \<open>nil\<close> there, not that of the file. On success the configuration, the key of
  the link between master and slaves, and what is printed.\<close>

definition read_config ::
  "string + string \<Rightarrow> string + string \<Rightarrow> (string \<Rightarrow> string + 'c) \<Rightarrow> 'c go" where
  "read_config cwd parent unmarshal =
     (let parse = (\<lambda>fd. case unmarshal fd of Inl e \<Rightarrow> Panic (Explicit e) | Inr c \<Rightarrow> Ret c) in
      case cwd of
        Inr fd \<Rightarrow> parse fd
      | Inl _ \<Rightarrow>
          (case parent of
             Inr fd \<Rightarrow> parse fd
           | Inl _ \<Rightarrow> Panic (Explicit ''could not open config: %!s(<nil>). blank configuration created'')))"

definition config_init ::
  "string + string \<Rightarrow> string + string \<Rightarrow> (string \<Rightarrow> string + 'c) \<Rightarrow> ('c \<Rightarrow> string) \<Rightarrow> (byte list \<Rightarrow> byte list)
     \<Rightarrow> ('c \<times> byte list \<times> string) go" where
  "config_init cwd parent unmarshal pass sha256 =
     go_map (\<lambda>c.
         let key = sha256 (bytes_of_string (pass c))
         in (c, key, ''Master password is '' @ hex_EncodeToString key))
       (read_config cwd parent unmarshal)"

text \<open>The line that is printed holds the key of the link.\<close>

lemma printed_line_tells_key:
  assumes "config_init cwd parent unmarshal pass sha256 = Ret (c, key, line)"
  shows "hex_DecodeString (drop (length ''Master password is '') line) = Some key"
  using assms by (auto simp: config_init_def Let_def go_map_bind go_bind_eq_Ret hex_roundtrip)

section \<open>The certificate\<close>

text \<open>The steps of \<open>GenCertificate\<close> may fail one by one; the two files are written last.\<close>

record cert_env =
  ceKey :: "string + string"
  ceKeyBytes :: "string + byte list"
  ceCert :: "string + byte list"
  ceKeyWrite :: "string option"
  ceCertWrite :: "string option"

definition GenCertificate ::
  "(string \<Rightarrow> byte list \<Rightarrow> string) \<Rightarrow> cert_env \<Rightarrow> (string \<rightharpoonup> string) \<Rightarrow> (string \<times> string \<times> string option) \<times> (string \<rightharpoonup> string)" where
  "GenCertificate pem env files =
     (case ceKey env of
        Inl e \<Rightarrow> (('''', '''', Some e), files)
      | Inr _ \<Rightarrow>
     (case ceKeyBytes env of
        Inl e \<Rightarrow> (('''', '''', Some e), files)
      | Inr kb \<Rightarrow>
          let keyPem = pem ''OPENSSH PRIVATE KEY'' kb in
     (case ceCert env of
        Inl e \<Rightarrow> (('''', '''', Some e), files)
      | Inr der \<Rightarrow>
          let certPem = pem ''CERTIFICATE'' der in
     (case ceKeyWrite env of
        Some e \<Rightarrow> (('''', '''', Some e), files)
      | None \<Rightarrow>
          let files = files(''key.pem'' \<mapsto> keyPem) in
     (case ceCertWrite env of
        Some e \<Rightarrow> ((certPem, keyPem, Some e), files)
      | None \<Rightarrow> ((certPem, keyPem, None), files(''cert.pem'' \<mapsto> certPem)))))))"

text \<open>The certificate the TLS listener of \<open>Start\<close> uses: \<open>pair\<close> is \<open>tls.X509KeyPair\<close>, which
  \<open>LoadX509KeyPair\<close> applies to the two files.\<close>

definition load_cert :: "(string \<Rightarrow> string \<Rightarrow> string + 't) \<Rightarrow> (string \<rightharpoonup> string) \<Rightarrow> string + 't" where
  "load_cert pair files =
     (case (files ''cert.pem'', files ''key.pem'') of
        (Some c, Some k) \<Rightarrow> pair c k
      | _ \<Rightarrow> Inl ''no such file'')"

definition tls_cert ::
  "(string \<Rightarrow> byte list \<Rightarrow> string) \<Rightarrow> (string \<Rightarrow> string \<Rightarrow> string + 't) \<Rightarrow> cert_env \<Rightarrow> (string \<rightharpoonup> string)
     \<Rightarrow> ('t \<times> (string \<rightharpoonup> string)) go" where
  "tls_cert pem pair env files =
     (case load_cert pair files of
        Inr t \<Rightarrow> Ret (t, files)
      | Inl _ \<Rightarrow>
          (case GenCertificate pem env files of
             ((c, k, Some e), files') \<Rightarrow> Panic (Fatal e)
           | ((c, k, None), files') \<Rightarrow>
               (case pair c k of Inl e \<Rightarrow> Panic (Fatal e) | Inr t \<Rightarrow> Ret (t, files'))))"

text \<open>A certificate that was generated is used again by the next start.\<close>

lemma tls_cert_reused:
  assumes "tls_cert pem pair env files = Ret (t, files')"
  shows "tls_cert pem pair env' files' = Ret (t, files')"
  using assms
  by (auto simp: tls_cert_def load_cert_def GenCertificate_def Let_def split: sum.splits option.splits)

section \<open>The stratum server\<close>

text \<open>Both listeners of \<open>Start\<close>, with what their \<open>Accept\<close> calls deliver: the two loops run side by side,
  here one after the other. A listener that cannot be opened panics.\<close>

definition stratum_Start ::
  "'t go \<Rightarrow> ('t \<Rightarrow> string + byte list option list) \<Rightarrow> string + byte list option list \<Rightarrow> Server \<Rightarrow> Server go" where
  "stratum_Start cert listenTls listen s =
     go_bind cert (\<lambda>t.
       case listenTls t of
         Inl e \<Rightarrow> Panic (Explicit e)
       | Inr tlsConns \<Rightarrow>
           (case listen of
              Inl e \<Rightarrow> Panic (Explicit e)
            | Inr conns \<Rightarrow> Ret (accept_loop False conns (accept_loop True tlsConns s))))"

section \<open>The master\<close>

text \<open>What \<open>main\<close> opens: the ledger, the daemon and wallet clients, the listener for slaves.\<close>

record master_env =
  meLedger :: "string + LedgerDB"
  meDaemon :: "string option"
  meWallet :: "string option"
  meListen :: "string option"

definition fatal_if :: "string option \<Rightarrow> string \<Rightarrow> 'a go \<Rightarrow> 'a go" where
  "fatal_if err msg rest = (case err of Some e \<Rightarrow> Panic (Fatal (msg @ '' '' @ e)) | None \<Rightarrow> rest)"

definition master_main ::
  "(byte list \<Rightarrow> byte list) \<Rightarrow> addr_config \<Rightarrow> MasterConfig \<Rightarrow> master_env \<Rightarrow> MasterState go" where
  "master_main keccak acfg cfg env =
     go_bind (IsAddressValid keccak acfg (cfgPoolAddress cfg)) (\<lambda>poolOk.
     go_bind (if poolOk then IsAddressValid keccak acfg (cfgFeeAddress cfg) else Ret False) (\<lambda>ok.
       if \<not> ok then Panic (Fatal ''Pool or fee address are not valid'')
       else case meLedger env of
         Inl e \<Rightarrow> Panic (Fatal (''Failed to initialize SQLite ledger: '' @ e))
       | Inr l \<Rightarrow>
           fatal_if (meDaemon env) ''Failed to create daemon RPC client:''
          (fatal_if (meWallet env) ''Failed to create wallet RPC client:''
          (fatal_if (meListen env) ''Failed to start stratum server:''
             (Ret \<lparr>ledger = l, pplns = InitPPLNS cfg, numConns = Map.empty, scheduled = []\<rparr>)))))"

text \<open>The accept loop: the slaves that get a goroutine.\<close>

fun startStratum_loop :: "(string + 'conn) list \<Rightarrow> 'conn list" where
  "startStratum_loop [] = []"
| "startStratum_loop (Inl e # cs) = startStratum_loop cs"
| "startStratum_loop (Inr c # cs) = c # startStratum_loop cs"

definition OnP2PoolShareFound :: "u64 \<Rightarrow> MasterState \<Rightarrow> MasterState" where
  "OnP2PoolShareFound height st = st"

definition CheckWithdraw :: "LedgerDB \<Rightarrow> bool \<times> LedgerDB" where
  "CheckWithdraw l = (False, l)"

definition GetSaveFile :: "string \<Rightarrow> string" where
  "GetSaveFile name = ''./save/'' @ name @ ''.json''"

section \<open>The slave\<close>

text \<open>What \<open>main\<close> of the slave opens. \<open>seQueueSteps\<close> are the results of opening the queue's database,
  setting its five pragmas and creating its tables, and \<open>seQueueFile\<close> is what the database then holds,
  \<open>NewVerifyQueue\<close> for a new file.\<close>

record slave_start_env =
  seClient :: "string option"
  seQueueSteps :: "string option list"
  seQueueFile :: VerifyQueue

text \<open>The worker goroutines that \<open>NewVerifyQueue\<close> starts, with their numbers.\<close>

definition queue_workers :: "int \<Rightarrow> nat list" where
  "queue_workers workers = [0..<nat workers]"

definition open_queue :: "slave_start_env \<Rightarrow> int \<Rightarrow> string + VerifyQueue \<times> nat list" where
  "open_queue env workers =
     (case find (\<lambda>r. r \<noteq> None) (seQueueSteps env) of
        Some (Some e) \<Rightarrow> Inl e
      | _ \<Rightarrow> Inr ((seQueueFile env)\<lparr>vqStats := zero_stats\<rparr>, queue_workers workers))"

definition slave_main ::
  "(nat \<Rightarrow> ('c \<times> instant) option) \<Rightarrow> SlaveConfig \<Rightarrow> int \<Rightarrow> slave_start_env \<Rightarrow> ('c DaemonPool \<times> VerifyQueue \<times> nat list) go" where
  "slave_main dial cfg verifyWorkers env =
     (case seClient env of
        Some e \<Rightarrow> Panic (Explicit e)
      | None \<Rightarrow>
          (case NewDaemonPool dial (DaemonPoolSize cfg) (Minutes (DaemonPoolMaxAge cfg)) of
             None \<Rightarrow> Panic (Fatal ''Failed to initialize daemon pool: failed to create any connections'')
           | Some p \<Rightarrow>
               (case open_queue env verifyWorkers of
                  Inl e \<Rightarrow> Panic (Fatal (''Failed to initialize verify queue: '' @ e))
                | Inr (q, ws) \<Rightarrow> Ret (p, q, ws))))"

text \<open>A start that succeeds has a connection to the daemon, and the rows of the last run in its queue.\<close>

lemma slave_main_ready:
  assumes "slave_main dial cfg n env = Ret (p, q, ws)"
  shows "connections p \<noteq> [] \<and> q = (seQueueFile env)\<lparr>vqStats := zero_stats\<rparr> \<and> length ws = nat n"
proof -
  from assms obtain e where p: "NewDaemonPool dial (DaemonPoolSize cfg) (Minutes (DaemonPoolMaxAge cfg)) = Some p"
    and q: "open_queue env n = Inr (q, ws)"
    by (auto simp: slave_main_def split: option.split_asm sum.split_asm prod.split_asm)
  from p have "connections p \<noteq> []" by (auto simp: NewDaemonPool_def Let_def split: if_split_asm)
  with q show ?thesis by (auto simp: open_queue_def queue_workers_def split: option.split_asm)
qed

text \<open>The comment of the call promises four workers by default; an absent setting starts none.\<close>

lemma no_default_workers:
  "slave_main dial cfg 0 env = Ret (p, q, ws) \<Longrightarrow> ws = []"
  using slave_main_ready by fastforce


text \<open>Every ten seconds the slave reports how many miners are connected, and the master keeps the number
  for this slave.\<close>

definition stats_tick :: "Server \<Rightarrow> byte list" where
  "stats_tick srv = stats_packet (of_nat (length (Connections srv)))"

lemma ucast_of_nat_u32: "(ucast (of_nat n :: u64) :: u32) = of_nat n"
  by (rule bit_word_eqI) (simp add: bit_simps bit_of_nat_iff_bit)

lemma miners_reported:
  "OnMessage keccak acfg cfg now cid (stats_tick srv) st
     = Ret (Ok (), st\<lparr>numConns := (numConns st)(cid \<mapsto> of_nat (length (Connections srv)))\<rparr>)"
  by (simp add: OnMessage_def OnMessage_call_def stats_tick_def stats_packet_def AddUvarint_def AppendUvarint_put
      codec_simps ucast_of_nat_u32)

section \<open>The routes of the API\<close>

text \<open>\<open>http.ServeMux\<close>: a path is cleaned first, and a request for another spelling is redirected; then
  the longest pattern wins, and a pattern that ends in a slash stands for every path below it.\<close>

fun join_path :: "string list \<Rightarrow> string" where
  "join_path [] = ''/''"
| "join_path [s] = ''/'' @ s"
| "join_path (s # ss) = ''/'' @ s @ join_path ss"

definition clean_segment :: "string list \<Rightarrow> string \<Rightarrow> string list" where
  "clean_segment acc s =
     (if s = '''' \<or> s = ''.'' then acc else if s = ''..'' then butlast acc else acc @ [s])"

definition clean_path :: "string \<Rightarrow> string" where
  "clean_path p =
     (if p = '''' then ''/''
      else
        let np = join_path (foldl clean_segment [] (strings_Split p ''/''))
        in if last p = CHR ''/'' \<and> np \<noteq> ''/'' then np @ ''/'' else np)"

datatype route = Ping | StatsRoute | WorkersRoute | Redirect string | NotFound

definition mux :: "string \<Rightarrow> route" where
  "mux path =
     (if path = ''/ping'' then Ping
      else if path = ''/stats'' \<or> is_prefix_of ''/stats/'' path then StatsRoute
      else if is_prefix_of ''/workers/'' path then WorkersRoute
      else if path = ''/workers'' then Redirect ''/workers/''
      else NotFound)"

definition startAPI :: "string \<Rightarrow> route" where
  "startAPI path = (if clean_path path \<noteq> path then Redirect (clean_path path) else mux path)"

datatype api_answer = Pong | Reply http_reply | MovedTo string | Status404

definition handlePoolStats ::
  "(f64 \<Rightarrow> u64) \<Rightarrow> (f64 \<Rightarrow> int) \<Rightarrow> f64 \<Rightarrow> MasterConfig \<Rightarrow> u64 \<Rightarrow> (Share list \<Rightarrow> Share list) \<Rightarrow> (Payment list \<Rightarrow> Payment list)
     \<Rightarrow> (nat \<Rightarrow> int) \<Rightarrow> string \<Rightarrow> LedgerDB \<Rightarrow> PPLNSManager \<Rightarrow> (http_reply \<times> PPLNSManager) res" where
  "handlePoolStats = handleStatsOld"

definition api_serve ::
  "(f64 \<Rightarrow> u64) \<Rightarrow> (f64 \<Rightarrow> int) \<Rightarrow> f64 \<Rightarrow> MasterConfig \<Rightarrow> u64 \<Rightarrow> (Share list \<Rightarrow> Share list) \<Rightarrow> (Payment list \<Rightarrow> Payment list)
     \<Rightarrow> (tempWorker list \<Rightarrow> tempWorker list) \<Rightarrow> (nat \<Rightarrow> int) \<Rightarrow> string \<Rightarrow> LedgerDB \<Rightarrow> PPLNSManager
     \<Rightarrow> (api_answer \<times> PPLNSManager) res" where
  "api_serve conv convi coin cfg blockTime order porder wsorder clock path l p =
     (case startAPI path of
        Ping \<Rightarrow> Ok (Pong, p)
      | StatsRoute \<Rightarrow>
          res_bind (handleStatsOld conv convi coin cfg blockTime order porder clock path l p) (\<lambda>(r, p'). Ok (Reply r, p'))
      | WorkersRoute \<Rightarrow>
          res_bind (handleWorkers conv convi cfg order wsorder clock path l p) (\<lambda>(r, p'). Ok (Reply r, p'))
      | Redirect q \<Rightarrow> Ok (MovedTo q, p)
      | NotFound \<Rightarrow> Ok (Status404, p))"

section \<open>Who is credited\<close>

text \<open>Every row that credits somebody names a valid address.\<close>

definition valid_address :: "(byte list \<Rightarrow> byte list) \<Rightarrow> addr_config \<Rightarrow> string \<Rightarrow> bool" where
  "valid_address keccak acfg a = (IsAddressValid keccak acfg a = Ret True)"

definition credits_valid :: "(string \<Rightarrow> bool) \<Rightarrow> LedgerDB \<Rightarrow> bool" where
  "credits_valid P l =
     ((\<forall>s \<in> set (shares l). P (shMinerAddr s)) \<and> (\<forall>d \<in> set (distributions l). P (diMinerAddr d)) \<and>
      (\<forall>b \<in> set (balances l). P (baMinerAddr b)))"

lemma exec_credits:
  assumes "exec args q l = (r, l')" "credits_valid P l" "\<And>r' l''. q l = (r', l'') \<Longrightarrow> credits_valid P l''"
  shows "credits_valid P l'"
  using assms by (cases "q l") (auto simp: exec_def split: if_split_asm)

lemma AddShare_credits:
  assumes "AddShare s l = (r, l')" "credits_valid P l" "P (shMinerAddr s)"
  shows "credits_valid P l'"
  using assms(1) unfolding AddShare_def
  by (rule exec_credits) (use assms(2,3) in \<open>auto simp: credits_valid_def split: if_split_asm\<close>)

lemma AddBlockFound_credits: "AddBlockFound now b l = (r, l') \<Longrightarrow> credits_valid P l \<Longrightarrow> credits_valid P l'"
  unfolding AddBlockFound_def by (erule exec_credits) (auto simp: credits_valid_def insert_block_def)

lemma CreateDistribution_credits:
  assumes "CreateDistribution d l = (r, l')" "credits_valid P l" "P (diMinerAddr d)"
  shows "credits_valid P l'"
  using assms(1) unfolding CreateDistribution_def
  by (rule exec_credits) (use assms(2,3) in \<open>auto simp: credits_valid_def split: if_split_asm\<close>)

lemma ReplaceBalance_credits:
  assumes "ReplaceBalance b l = (r, l')" "credits_valid P l" "P (baMinerAddr b)"
  shows "credits_valid P l'"
  using assms(1) unfolding ReplaceBalance_def
  by (rule exec_credits) (use assms(2,3) in \<open>auto simp: credits_valid_def\<close>)

lemma InsertPoolFee_credits: "InsertPoolFee f l = (r, l') \<Longrightarrow> credits_valid P l \<Longrightarrow> credits_valid P l'"
  unfolding InsertPoolFee_def by (erule exec_credits) (auto simp: credits_valid_def split: if_split_asm)

lemma MarkBlockProcessed_credits: "MarkBlockProcessed now h l = (r, l') \<Longrightarrow> credits_valid P l \<Longrightarrow> credits_valid P l'"
  unfolding MarkBlockProcessed_def by (erule exec_credits) (auto simp: credits_valid_def)

lemma add_shares_credits:
  "add_shares n s l = (r, l') \<Longrightarrow> credits_valid P l \<Longrightarrow> P (shMinerAddr s) \<Longrightarrow> credits_valid P l'"
proof (induction n s l rule: add_shares.induct)
  case (2 n share l)
  obtain r1 l1 where a: "AddShare share l = (r1, l1)" by fastforce
  then have "credits_valid P l1" using "2.prems" AddShare_credits by blast
  then show ?case using 2 a by (cases r1) auto
qed simp

lemma distribute_one_credits:
  assumes "distribute_one conv now height net td a d l = (r, l')" "credits_valid P l" "P a"
  shows "credits_valid P l'"
proof (cases "part_reward conv net d td = 0")
  case True
  then show ?thesis using assms(1,2) by (simp add: distribute_one_def)
next
  case False
  let ?di = "\<lparr>diID = 0, diBlockHeight = height, diMinerAddr = a, diSharesContrib = d,
      diPercentage = share_of_total d td * Fin 100, diRewardGross = part_reward conv net d td,
      diRewardNet = part_reward conv net d td, diCalculatedAt = now\<rparr>"
  obtain r1 l1 where c: "CreateDistribution ?di l = (r1, l1)" by fastforce
  have l1: "credits_valid P l1" using CreateDistribution_credits [OF c assms(2)] assms(3) by simp
  show ?thesis
  proof (cases r1)
    case (Ok u)
    show ?thesis
    proof (cases "GetBalance now a l1")
      case (Ok b)
      let ?b = "\<lparr>baMinerAddr = a, baPending = baPending b + part_reward conv net d td, baConfirmed = baConfirmed b,
          baTotalPaid = baTotalPaid b, baLastUpdated = now\<rparr>"
      obtain r2 l2 where b: "ReplaceBalance ?b l1 = (r2, l2)" by fastforce
      have "credits_valid P l2" using ReplaceBalance_credits [OF b l1] assms(3) by simp
      then show ?thesis using assms(1) False c \<open>r1 = Ok u\<close> Ok b by (cases r2) (auto simp: distribute_one_def Let_def)
    qed (use assms(1) False c \<open>r1 = Ok u\<close> l1 in \<open>auto simp: distribute_one_def Let_def\<close>)
  qed (use assms(1) False c l1 in \<open>auto simp: distribute_one_def Let_def\<close>)
qed

lemma distribute_all_credits:
  "distribute_all conv now height net td m as l = (r, l') \<Longrightarrow> credits_valid P l \<Longrightarrow> \<forall>a \<in> set as. P a
    \<Longrightarrow> credits_valid P l'"
proof (induction as arbitrary: l)
  case (Cons a as)
  obtain r1 l1 where o: "distribute_one conv now height net td a (map_get 0 m a) l = (r1, l1)" by fastforce
  then have "credits_valid P l1" using Cons.prems distribute_one_credits by auto
  then show ?case using Cons o by (cases r1) auto
qed simp


lemma finish_distribution_credits:
  assumes "finish_distribution conv cfg now height fee (l, p) = (e, l', p')" "credits_valid P l"
  shows "credits_valid P l'"
proof -
  let ?f = "\<lparr>pfBlockHeight = height, pfFeeAmount = fee, pfCollectedAt = now\<rparr>"
  obtain r1 l1 where f: "(if 0 < fee then InsertPoolFee ?f l else (Ok (), l)) = (r1, l1)" by fastforce
  have l1: "credits_valid P l1"
    using f assms(2) InsertPoolFee_credits by (auto split: if_split_asm)
  obtain r2 l2 where m: "MarkBlockProcessed now height l1 = (r2, l2)" by fastforce
  have l2: "credits_valid P l2" by (rule MarkBlockProcessed_credits [OF m l1])
  have "l' = l1 \<or> l' = l2"
    using assms(1) f m unfolding finish_distribution_def
    by (cases r1; cases r2; cases "OnBlockFoundPPLNS conv cfg l2 p height") (auto split: if_split_asm)
  with l1 l2 show ?thesis by blast
qed

lemma pplns_loop_subset: "set (pplns_loop w t acc xs) \<subseteq> set acc \<union> set xs"
  by (induction w t acc xs rule: pplns_loop.induct) auto

lemma GetSharesForPPLNS_subset:
  assumes "GetSharesForPPLNS conv order cfg l p = Ok (shs, p')" "\<forall>xs. set (order xs) \<subseteq> set xs"
  shows "set shs \<subseteq> set (shares l)"
proof -
  obtain w all where "GetSharesInWindow order 0 l = Ok all" "shs = pplns_loop w 0 [] (rev all)"
    using assms(1) by (auto simp: GetSharesForPPLNS_def res_bind_eq_Ok)
  then have "set shs \<subseteq> set all" "all = order (filter (\<lambda>s. 0 \<le> shTimestamp s) (shares l))"
    using pplns_loop_subset [of w 0 "[]" "rev all"]
    by (auto simp: GetSharesInWindow_def query_def split: if_split_asm)
  moreover have "set (order (filter (\<lambda>s. 0 \<le> shTimestamp s) (shares l))) \<subseteq> set (filter (\<lambda>s. 0 \<le> shTimestamp s) (shares l))"
    using assms(2) ..
  ultimately show ?thesis by auto
qed

lemma DistributeBlockReward_credits:
  assumes "DistributeBlockRewardPPLNS conv order rng cfg now height reward (l, p) = (e, l', p')"
    and "credits_valid P l" "\<forall>xs. set (order xs) \<subseteq> set xs" "\<forall>m. set (rng m) \<subseteq> dom m"
  shows "credits_valid P l'"
proof (cases "GetSharesForPPLNS conv order cfg l p")
  case (Ok sp)
  obtain shs p1 where sp: "sp = (shs, p1)" by fastforce
  let ?m = "miner_diffs shs" and ?net = "reward - fee_amount conv cfg reward"
  show ?thesis
  proof (cases "shs = [] \<or> total_diff shs = 0")
    case True
    then have "l' = l"
      using assms(1) Ok sp by (cases "shs = []") (simp_all add: DistributeBlockRewardPPLNS_def Let_def)
    then show ?thesis using assms(2) by simp
  next
    case False
    obtain r1 l1 where d: "distribute_all conv now height ?net (total_diff shs) ?m (rng ?m) l = (r1, l1)" by fastforce
    have "set shs \<subseteq> set (shares l)" using GetSharesForPPLNS_subset [of conv order cfg l p shs p1] Ok sp assms(3) by simp
    then have "\<forall>a \<in> set (rng ?m). P a"
      using assms(2,4) dom_miner_diffs [of shs] unfolding credits_valid_def by (metis imageE subsetD)
    then have l1: "credits_valid P l1" using distribute_all_credits [OF d assms(2)] by blast
    then show ?thesis
      using assms(1) Ok sp False d finish_distribution_credits [OF _ l1]
      by (cases r1) (auto simp: DistributeBlockRewardPPLNS_def Let_def)
  qed
qed (use assms(1,2) in \<open>auto simp: DistributeBlockRewardPPLNS_def\<close>)

lemma OnShareFound_credits:
  assumes "OnShareFound keccak acfg cfg now w d n wk l = Ret (r, l')"
    and "credits_valid (valid_address keccak acfg) l" "valid_address keccak acfg (cfgFeeAddress cfg)"
  shows "credits_valid (valid_address keccak acfg) l'"
proof -
  obtain v where v: "IsAddressValid keccak acfg w = Ret v"
    using assms(1) by (cases "IsAddressValid keccak acfg w") (auto simp: OnShareFound_def)
  then have "add_shares (unat n) (new_share now (if v then w else cfgFeeAddress cfg) wk d) l = (r, l')"
    using assms(1) by (simp add: OnShareFound_def split: if_splits)
  from add_shares_credits [OF this assms(2)] show ?thesis
    using v assms(3) by (auto simp: new_share_def valid_address_def)
qed

text \<open>After its start the master handles the messages of its slaves, in any order and at any time, and
  the rewards that are due. A panic ends the process.\<close>

datatype master_event = FromSlave int u64 "byte list" | RewardDue int u64 u64

fun master_step ::
  "(byte list \<Rightarrow> byte list) \<Rightarrow> addr_config \<Rightarrow> (f64 \<Rightarrow> u64) \<Rightarrow> (Share list \<Rightarrow> Share list) \<Rightarrow> ((string \<rightharpoonup> u64) \<Rightarrow> string list)
     \<Rightarrow> MasterConfig \<Rightarrow> MasterState \<Rightarrow> master_event \<Rightarrow> MasterState" where
  "master_step keccak acfg conv order rng cfg st (FromSlave now cid msg) =
     (case OnMessage keccak acfg cfg now cid msg st of Ret (r, st') \<Rightarrow> st' | Panic p \<Rightarrow> st)"
| "master_step keccak acfg conv order rng cfg st (RewardDue now height reward) =
     (case DistributeBlockRewardPPLNS conv order rng cfg now height reward (ledger st, pplns st) of
        (e, l, p) \<Rightarrow> st\<lparr>ledger := l, pplns := p\<rparr>)"

lemma OnMessage_credits:
  assumes "OnMessage keccak acfg cfg now cid msg st = Ret (r, st')"
    and "credits_valid (valid_address keccak acfg) (ledger st)" "valid_address keccak acfg (cfgFeeAddress cfg)"
  shows "credits_valid (valid_address keccak acfg) (ledger st')"
proof -
  obtain call where c: "OnMessage_call (cfgUseP2Pool cfg) msg = Ret call"
    using assms(1) by (cases "OnMessage_call (cfgUseP2Pool cfg) msg") (auto simp: OnMessage_def)
  show ?thesis
  proof (cases call)
    case (CallShareFound w d n wk)
    then show ?thesis using assms c OnShareFound_credits
      by (auto simp: OnMessage_def go_map_bind go_bind_eq_Ret)
  next
    case (CallBlockFound h rew hash)
    obtain r1 l1 where a: "AddBlockFound now \<lparr>bfHeight = h, bfHash = hash, bfRewardTotal = rew, bfTimestamp = now,
        bfFoundAt = 0, bfProcessedAt = None, bfStatus = ''pending''\<rparr> (ledger st) = (r1, l1)" by fastforce
    from AddBlockFound_credits [OF a assms(2)] show ?thesis
      using assms(1) c CallBlockFound a by (cases r1) (auto simp: OnMessage_def OnBlockFound_def BlockFound_def)
  qed (use assms c in \<open>auto simp: OnMessage_def\<close>)
qed

definition credit_inv :: "(byte list \<Rightarrow> byte list) \<Rightarrow> addr_config \<Rightarrow> MasterConfig \<Rightarrow> MasterState \<Rightarrow> bool" where
  "credit_inv keccak acfg cfg st =
     (credits_valid (valid_address keccak acfg) (ledger st) \<and> valid_address keccak acfg (cfgFeeAddress cfg))"

definition subset_orders :: "(Share list \<Rightarrow> Share list) \<Rightarrow> ((string \<rightharpoonup> u64) \<Rightarrow> string list) \<Rightarrow> bool" where
  "subset_orders order rng = ((\<forall>xs. set (order xs) \<subseteq> set xs) \<and> (\<forall>m. set (rng m) \<subseteq> dom m))"

lemma master_step_credits:
  assumes "credit_inv keccak acfg cfg st" "subset_orders order rng"
  shows "credit_inv keccak acfg cfg (master_step keccak acfg conv order rng cfg st e)"
proof (cases e)
  case (FromSlave now cid msg)
  then show ?thesis using assms(1) OnMessage_credits
    by (auto simp: credit_inv_def split: go.split)
next
  case (RewardDue now height reward)
  obtain en l p where d: "DistributeBlockRewardPPLNS conv order rng cfg now height reward (ledger st, pplns st) = (en, l, p)"
    by (metis surj_pair)
  from DistributeBlockReward_credits [OF d] show ?thesis
    using assms d RewardDue by (auto simp: credit_inv_def subset_orders_def)
qed

interpretation credited: step_invariant "master_step keccak acfg conv order rng cfg" "\<lambda>_. subset_orders order rng"
  "credit_inv keccak acfg cfg" for keccak acfg conv order rng cfg
  by unfold_locales (rule master_step_credits)

lemma master_main_addresses:
  assumes "master_main keccak acfg cfg env = Ret st"
  shows "valid_address keccak acfg (cfgPoolAddress cfg)" "valid_address keccak acfg (cfgFeeAddress cfg)"
    "meLedger env = Inr (ledger st)"
proof -
  have "IsAddressValid keccak acfg (cfgPoolAddress cfg) = Ret True \<and> IsAddressValid keccak acfg (cfgFeeAddress cfg) = Ret True \<and>
      meLedger env = Inr (ledger st)"
    using assms
    by (auto simp: master_main_def go_bind_eq_Ret fatal_if_def split: if_split_asm sum.split_asm option.split_asm)
  then show "valid_address keccak acfg (cfgPoolAddress cfg)" "valid_address keccak acfg (cfgFeeAddress cfg)"
    "meLedger env = Inr (ledger st)" by (auto simp: valid_address_def)
qed

text \<open>
  C12: Only valid addresses are ever credited. Once \<open>main\<close> of the master has got past its checks, with a
  ledger whose rows name valid addresses (such as a new one), whatever messages the slaves send, at
  whatever times, and whatever rewards are distributed in between: every row of the tables of shares,
  distributions and balances names an address that \<open>IsAddressValid\<close> accepts. A share reported for an
  invalid wallet goes to the fee address, which \<open>main\<close> has checked.
\<close>

theorem only_valid_addresses_credited:
  assumes "master_main keccak acfg cfg env = Ret st"
    and "credits_valid (valid_address keccak acfg) (ledger st)" "subset_orders order rng"
  shows "credits_valid (valid_address keccak acfg) (ledger (run (master_step keccak acfg conv order rng cfg) st es))"
proof -
  have "credit_inv keccak acfg cfg st"
    using assms(2) master_main_addresses [OF assms(1)] by (simp add: credit_inv_def)
  then have "credit_inv keccak acfg cfg (run (master_step keccak acfg conv order rng cfg) st es)"
    by (rule credited.run_keeps) (simp add: assms(3))
  then show ?thesis by (simp add: credit_inv_def)
qed

text \<open>A new database credits nobody.\<close>

lemma new_ledger_credits: "credits_valid P (NewLedgerDB sc)"
  by (simp add: credits_valid_def NewLedgerDB_def)


section \<open>Witnesses\<close>

definition sample_start_cfg :: MasterConfig where
  "sample_start_cfg = sample_cfg\<lparr>cfgPoolAddress := sample_address, cfgFeeAddress := sample_address\<rparr>"

definition sample_master_env :: master_env where
  "sample_master_env = \<lparr>meLedger = Inr (NewLedgerDB schema_full), meDaemon = None, meWallet = None, meListen = None\<rparr>"

definition sample_rng :: "(string \<rightharpoonup> u64) \<Rightarrow> string list" where
  "sample_rng m = (if m sample_address = None then [] else [sample_address])"

lemma only_valid_addresses_credited_witness:
  "\<exists>st. master_main sample_keccak sample_acfg sample_start_cfg sample_master_env = Ret st \<and>
     credits_valid (valid_address sample_keccak sample_acfg)
       (ledger (run (master_step sample_keccak sample_acfg (\<lambda>_. 0) id sample_rng sample_start_cfg) st
          [FromSlave 100 1 [0, 1, 0, 0, 5], RewardDue 130 10 1000]))"
proof -
  obtain st where st: "master_main sample_keccak sample_acfg sample_start_cfg sample_master_env = Ret st"
    "ledger st = NewLedgerDB schema_full"
    by (simp add: master_main_def sample_start_cfg_def sample_master_env_def sample_address_valid fatal_if_def)
  have o: "subset_orders id sample_rng" by (auto simp: subset_orders_def sample_rng_def)
  have "credits_valid (valid_address sample_keccak sample_acfg) (ledger st)"
    by (simp add: st(2) new_ledger_credits)
  from only_valid_addresses_credited [OF st(1) this o] st(1) show ?thesis by blast
qed

end
