(* ===== verification/Withdraw_Overlap.thy ===== *)
theory Withdraw_Overlap
  imports Withdraw
begin

text \<open>
  The withdrawal ticker of \<^verbatim>\<open>src/cmd/master/updater.go\<close> starts \<open>Withdraw\<close> in a goroutine of its own at
  every interval, whether or not the last one has finished; nothing in \<^verbatim>\<open>src/cmd/master/withdraw.go\<close>
  excludes a second run. Two runs that have read the same pending payments are interleaved here, one
  recipient at a time.
\<close>

section \<open>Two runs\<close>

text \<open>What \<open>Withdraw\<close> has read when its loop starts; \<open>None\<close> when it returns before.\<close>

definition Withdraw_read :: "(Payment list \<Rightarrow> Payment list) \<Rightarrow> LedgerDB \<Rightarrow> (string \<rightharpoonup> Payment list) option" where
  "Withdraw_read order l =
     (case GetPendingPayments order l of
        Ok ps \<Rightarrow> if ps = [] then None else Some (recipient_payments ps)
      | _ \<Rightarrow> None)"

lemma Withdraw_split:
  "Withdraw_read order l = Some m \<Longrightarrow> Withdraw conv order rng cfg rpc now l sent = withdraw_loop conv cfg rpc now m (rng m) l sent"
  by (auto simp: Withdraw_read_def Withdraw_def split: res.split_asm if_split_asm)

text \<open>The turns: \<open>True\<close> is the first run. A run whose statement waits for ever takes no more turns.\<close>

fun withdraw_turn ::
  "(f64 \<Rightarrow> u64) \<Rightarrow> MasterConfig \<Rightarrow> wallet_rpc \<Rightarrow> int \<Rightarrow> (string \<rightharpoonup> Payment list) \<Rightarrow> string list \<Rightarrow> LedgerDB \<Rightarrow> sent_transfer list
     \<Rightarrow> string list \<times> LedgerDB \<times> sent_transfer list" where
  "withdraw_turn conv cfg rpc now m [] l sent = ([], l, sent)"
| "withdraw_turn conv cfg rpc now m (a # as) l sent =
     (case withdraw_loop conv cfg rpc now m [a] l sent of
        (Blocked, l', sent') \<Rightarrow> ([], l', sent')
      | (_, l', sent') \<Rightarrow> (as, l', sent'))"

fun overlap ::
  "(f64 \<Rightarrow> u64) \<Rightarrow> MasterConfig \<Rightarrow> wallet_rpc \<Rightarrow> int \<Rightarrow> (string \<rightharpoonup> Payment list) \<Rightarrow> bool list \<Rightarrow> string list \<Rightarrow> string list
     \<Rightarrow> LedgerDB \<Rightarrow> sent_transfer list \<Rightarrow> string list \<times> string list \<times> LedgerDB \<times> sent_transfer list" where
  "overlap conv cfg rpc now m [] as bs l sent = (as, bs, l, sent)"
| "overlap conv cfg rpc now m (True # ts) as bs l sent =
     (case withdraw_turn conv cfg rpc now m as l sent of
        (as', l', sent') \<Rightarrow> overlap conv cfg rpc now m ts as' bs l' sent')"
| "overlap conv cfg rpc now m (False # ts) as bs l sent =
     (case withdraw_turn conv cfg rpc now m bs l sent of
        (bs', l', sent') \<Rightarrow> overlap conv cfg rpc now m ts as bs' l' sent')"

section \<open>What they send\<close>

lemma set_payment_returns: "fst (set_payment i u l) \<noteq> Blocked \<and> txOpen (snd (set_payment i u l)) = txOpen l"
  by (simp add: set_payment_def Let_def)

lemma UpdatePaymentStatus_returns:
  assumes "\<not> txOpen l" "UpdatePaymentStatus now i st tx l = (r, l')"
  shows "r \<noteq> Blocked \<and> \<not> txOpen l'"
proof -
  have "fst (UpdatePaymentStatus now i st tx l) \<noteq> Blocked \<and> \<not> txOpen (snd (UpdatePaymentStatus now i st tx l))"
    using assms(1) by (simp add: UpdatePaymentStatus_def exec_def set_payment_returns)
  then show ?thesis by (simp add: assms(2))
qed

lemma mark_sent_returns:
  "\<not> txOpen l \<Longrightarrow> mark_sent now tx ps l = (r, l') \<Longrightarrow> r = Ok () \<and> \<not> txOpen l'"
proof (induction ps arbitrary: l)
  case (Cons p ps)
  obtain r1 l1 where u: "UpdatePaymentStatus now (paID p) ''sent'' (Some tx) l = (r1, l1)" by fastforce
  note o = UpdatePaymentStatus_returns [OF Cons.prems(1) u]
  then have "mark_sent now tx ps l1 = (r, l')" using Cons.prems(2) u by (cases r1) simp_all
  then show ?case using Cons.IH o by blast
qed simp

text \<open>The transfer a recipient is due, if any.\<close>

definition due_transfer :: "(f64 \<Rightarrow> u64) \<Rightarrow> MasterConfig \<Rightarrow> (string \<rightharpoonup> Payment list) \<Rightarrow> string \<Rightarrow> (string \<times> u64) list" where
  "due_transfer conv cfg m a =
     (let t = total_amount (map_get [] m a) in
      if t < minWithdrawal conv cfg then [] else [(a, t - withdrawalFee conv cfg)])"

definition transfers :: "sent_transfer list \<Rightarrow> (string \<times> u64) list" where
  "transfers sent = map (\<lambda>(a, amt, tx). (a, amt)) sent"

lemma withdraw_turn_sends:
  assumes "\<forall>s a amt. rpc s a amt \<noteq> None" "\<not> txOpen l"
  shows "\<exists>l' sent'. withdraw_turn conv cfg rpc now m (a # as) l sent = (as, l', sent') \<and> \<not> txOpen l' \<and>
    transfers sent' = transfers sent @ due_transfer conv cfg m a"
proof (cases "total_amount (map_get [] m a) < minWithdrawal conv cfg")
  case True
  then show ?thesis using assms(2) by (simp add: due_transfer_def)
next
  case False
  let ?amt = "total_amount (map_get [] m a) - withdrawalFee conv cfg"
  obtain tx where tx: "rpc sent a ?amt = Some tx" using assms(1) by blast
  obtain r l' where mk: "mark_sent now tx (map_get [] m a) l = (r, l')" by fastforce
  from mark_sent_returns [OF assms(2) mk] mk tx False show ?thesis
    by (simp add: sendPayment_def due_transfer_def transfers_def Let_def)
qed

text \<open>However the turns fall, what is sent is what both runs owe, as far as they have got.\<close>

lemma overlap_sends:
  assumes "\<forall>s a amt. rpc s a amt \<noteq> None" "\<not> txOpen l"
    and "overlap conv cfg rpc now m ts as bs l sent = (as', bs', l', sent')"
  shows "mset (transfers sent') + mset (concat (map (due_transfer conv cfg m) (as' @ bs'))) =
         mset (transfers sent) + mset (concat (map (due_transfer conv cfg m) (as @ bs)))"
  using assms(2,3)
proof (induction ts arbitrary: as bs l sent)
  case (Cons t ts)
  show ?case
  proof (cases "(t \<and> as = []) \<or> (\<not> t \<and> bs = [])")
    case True
    then have "overlap conv cfg rpc now m ts as bs l sent = (as', bs', l', sent')"
      using Cons.prems(2) by (cases t) auto
    with Cons show ?thesis by blast
  next
    case False
    show ?thesis
    proof (cases t)
      case True
      with False obtain a as1 where as: "as = a # as1" by (cases as) auto
      obtain l1 sent1 where w: "withdraw_turn conv cfg rpc now m (a # as1) l sent = (as1, l1, sent1)" "\<not> txOpen l1"
        "transfers sent1 = transfers sent @ due_transfer conv cfg m a"
        using withdraw_turn_sends [OF assms(1) Cons.prems(1)] by blast
      have "overlap conv cfg rpc now m ts as1 bs l1 sent1 = (as', bs', l', sent')"
        using Cons.prems(2) True as w(1) by (simp del: withdraw_turn.simps)
      from Cons.IH [OF w(2) this] w(3) as show ?thesis by (simp add: ac_simps)
    next
      case t: False
      with False obtain b bs1 where bs: "bs = b # bs1" by (cases bs) auto
      obtain l1 sent1 where w: "withdraw_turn conv cfg rpc now m (b # bs1) l sent = (bs1, l1, sent1)" "\<not> txOpen l1"
        "transfers sent1 = transfers sent @ due_transfer conv cfg m b"
        using withdraw_turn_sends [OF assms(1) Cons.prems(1)] by blast
      have "overlap conv cfg rpc now m ts as bs1 l1 sent1 = (as', bs', l', sent')"
        using Cons.prems(2) t bs w(1) by (simp del: withdraw_turn.simps)
      from Cons.IH [OF w(2) this] w(3) bs show ?thesis by (simp add: ac_simps)
    qed
  qed
qed simp

text \<open>
  C13: Overlapping withdrawals pay twice. \<open>Updater\<close> starts a withdrawal every interval without
  waiting for the one before. When a second run reads the pending payments before the first one has
  settled anything, and the wallet accepts the transfers, then however the turns of the two runs
  fall, once both are through, every recipient whose total reaches the minimum has been sent that
  total, less the fee, twice.
\<close>

theorem overlapping_withdrawals_pay_twice:
  assumes "Withdraw_read order l = Some m" "\<not> txOpen l" "\<forall>s a amt. rpc s a amt \<noteq> None"
    and "range_order m as" "range_order m bs"
    and "overlap conv cfg rpc now m ts as bs l [] = ([], [], l', sent')"
    and "m a = Some ps" "\<not> total_amount ps < minWithdrawal conv cfg"
  shows "count (mset (transfers sent')) (a, total_amount ps - withdrawalFee conv cfg) = 2"
proof -
  let ?x = "(a, total_amount ps - withdrawalFee conv cfg)"
  have d: "due_transfer conv cfg m a = [?x]" using assms(7,8) by (simp add: due_transfer_def map_get_def)
  have one: "count (mset (concat (map (due_transfer conv cfg m) ks))) ?x = 1" if "range_order m ks" for ks
  proof -
    have "a \<in> set ks" "distinct ks" using that assms(7) by (auto simp: range_order_def)
    then obtain xs ys where ks: "ks = xs @ a # ys" "a \<notin> set xs" "a \<notin> set ys"
      by (metis distinct.simps(2) distinct_append not_distinct_conv_prefix split_list Un_iff set_append)
    have no: "?x \<notin> set (concat (map (due_transfer conv cfg m) zs))" if "a \<notin> set zs" for zs
      using that by (auto simp: due_transfer_def Let_def split: if_split_asm)
    show ?thesis using no [OF ks(2)] no [OF ks(3)] by (simp add: ks(1) d count_eq_zero_iff del: set_concat)
  qed
  have "mset (transfers sent') =
      mset (concat (map (due_transfer conv cfg m) as)) + mset (concat (map (due_transfer conv cfg m) bs))"
    using overlap_sends [OF assms(3,2,6)] by (simp add: transfers_def)
  then show ?thesis using one [OF assms(4)] one [OF assms(5)] by simp
qed


section \<open>Witness\<close>

definition no_minimum_cfg :: MasterConfig where
  "no_minimum_cfg = sample_cfg\<lparr>cfgMinWithdrawal := Fin 0, cfgAtomic := 0\<rparr>"

lemma no_minimum: "minWithdrawal conv no_minimum_cfg = 0"
proof -
  have "f64_round 1 = Fin 1" using f64_of_u64_exact [of 1] by (simp add: f64_of_u64_def)
  then have "math_Pow10 0 = Fin 1" by (simp add: math_Pow10_def f64_const_def times_f64_def)
  moreover have "f64_round 0 = Fin 0" using f64_of_u64_exact [of 0] by (simp add: f64_of_u64_def)
  ultimately show ?thesis
    by (simp add: minWithdrawal_def no_minimum_cfg_def times_f64_def u64_of_f64_def rat_trunc_def)
qed

lemma overlapping_withdrawals_pay_twice_witness:
  "\<exists>l' sent'. overlap (\<lambda>_. 0) no_minimum_cfg (\<lambda>_ _ _. Some ''tx'') 9
      (recipient_payments [sample_payment 1, sample_payment 2]) [True, False] [''m''] [''m''] (sample_pending schema_full) []
      = ([], [], l', sent') \<and>
    count (mset (transfers sent')) (''m'', 1000000000 - withdrawalFee (\<lambda>_. 0) no_minimum_cfg) = 2"
proof -
  let ?m = "recipient_payments [sample_payment 1, sample_payment 2]" and ?l = "sample_pending schema_full"
  let ?rpc = "\<lambda>_ _ _. Some ''tx''" and ?turn = "withdraw_turn (\<lambda>_. 0) no_minimum_cfg (\<lambda>_ _ _. Some ''tx'') 9"
  have m: "?m = [''m'' \<mapsto> [sample_payment 1, sample_payment 2]]"
    by (simp add: recipient_payments_def sample_payment_def map_get_def)
  have r: "Withdraw_read id ?l = Some ?m"
    by (simp add: Withdraw_read_def GetPendingPayments_def query_def sample_pending_def NewLedgerDB_def)
      (simp add: sample_payment_def)
  have o: "\<not> txOpen ?l" by (simp add: sample_pending_def NewLedgerDB_def)
  have rpc: "\<forall>s a amt. ?rpc s a amt \<noteq> None" by simp
  have k: "range_order ?m [''m'']" by (simp add: range_order_def m)
  obtain l1 s1 where one: "?turn ?m [''m''] ?l [] = ([], l1, s1)" "\<not> txOpen l1"
    using withdraw_turn_sends [OF rpc o, of "\<lambda>_. 0" no_minimum_cfg 9 ?m "''m''" "[]" "[]"] by blast
  obtain l2 s2 where two: "?turn ?m [''m''] l1 s1 = ([], l2, s2)"
    using withdraw_turn_sends [OF rpc one(2), of "\<lambda>_. 0" no_minimum_cfg 9 ?m "''m''" "[]" s1] by blast
  have run: "overlap (\<lambda>_. 0) no_minimum_cfg ?rpc 9 ?m [True, False] [''m''] [''m''] ?l [] = ([], [], l2, s2)"
    using one(1) two by (simp del: withdraw_turn.simps)
  have t: "total_amount [sample_payment 1, sample_payment 2] = 1000000000"
    by (simp add: total_amount_def sample_payment_def)
  have e: "?m ''m'' = Some [sample_payment 1, sample_payment 2]" by (simp add: m)
  from overlapping_withdrawals_pay_twice [OF r o rpc k k run e] show ?thesis
    using run t no_minimum [of "\<lambda>_. 0"] by auto
qed

end
