(* ===== verification/P2pool.thy ===== *)
theory P2pool
  imports Jobs Go_Time
begin

text \<open>
  P2Pool mode: the stratum client of \<^verbatim>\<open>src/p2pool/client.go\<close> and \<^verbatim>\<open>src/p2pool/p2client.go\<close>, and the
  part of a miner's session in \<^verbatim>\<open>src/cmd/slave/conn.go\<close> that hands P2Pool's jobs to the miner. What
  the sockets do (whether a dial or a write fails, the messages that \<open>readJSON\<close> returns) is an
  argument; a goroutine that reads from a channel is a function of the list of values it receives.
\<close>

section \<open>Messages\<close>

record MultiClientJob =
  pjBlob :: string
  pjJobID :: string
  pjTarget :: string
  pjAlgo :: string
  pjHeight :: u64
  pjSeedHash :: string
  pjNetworkDifficulty :: int
  pjReward :: int
  pjConnNonce :: u32

record p2_Response =
  prID :: u64
  prMethod :: string
  prJob :: "MultiClientJob option"
  prResult :: "string option"
  prError :: "string option"

record p2_loginResponse =
  lgResult :: "(string \<times> MultiClientJob option) option"
  lgError :: "(int \<times> string) option"
  lgWarning :: "(int \<times> string) option"

definition SUBMIT_WORK_JSONRPC_ID :: u64 where
  "SUBMIT_WORK_JSONRPC_ID = 541"

section \<open>The client\<close>

record p2_Client =
  clAddress :: string
  clClientId :: string
  clAlive :: bool

definition p2_Close :: "p2_Client \<Rightarrow> p2_Client" where
  "p2_Close cl = (if \<not> clAlive cl then cl else cl\<lparr>clAlive := False\<rparr>)"

text \<open>\<open>Connect\<close>: the error, code and message it returns, and the first job of the channel. The
  arguments \<open>dial\<close> and \<open>wr\<close> are the errors of the dial and of the write, \<open>rd\<close> what was read.\<close>

definition Connect ::
  "string \<Rightarrow> string option \<Rightarrow> string option \<Rightarrow> string + p2_loginResponse \<Rightarrow> p2_Client
     \<Rightarrow> (string option \<times> int \<times> string \<times> MultiClientJob option) \<times> p2_Client" where
  "Connect addr dial wr rd cl =
     (let cl = (p2_Close cl)\<lparr>clAddress := addr\<rparr> in
      case dial of
        Some e \<Rightarrow> ((Some e, 0, '''', None), cl)
      | None \<Rightarrow>
        (case wr of
           Some e \<Rightarrow> ((Some e, 0, '''', None), cl)
         | None \<Rightarrow>
           (case rd of
              Inl e \<Rightarrow> ((Some e, 0, '''', None), cl)
            | Inr resp \<Rightarrow>
                (case lgResult resp of
                   None \<Rightarrow>
                     (case lgError resp of
                        Some (code, msg) \<Rightarrow> ((Some ''stratum server error'', code, msg, None), cl)
                      | None \<Rightarrow> ((Some ''malformed login response'', 0, '''', None), cl))
                 | Some (i, j) \<Rightarrow>
                     let cl = cl\<lparr>clAlive := True\<rparr> in
                     (case j of
                        None \<Rightarrow> ((Some ''malformed login response case 2'', 0, '''', None), cl)
                      | Some job \<Rightarrow>
                          let cl = cl\<lparr>clClientId := i\<rparr> in
                          (case lgWarning resp of
                             Some (code, msg) \<Rightarrow> ((None, code, msg, Some job), cl)
                           | None \<Rightarrow> ((None, 0, '''', Some job), cl)))))))"

text \<open>\<open>submitRequest\<close>: \<open>wr\<close> is the error of the write, \<open>resp\<close> what the response channel delivers,
  \<open>None\<close> once it is closed. The state of the client is not changed.\<close>

definition submitRequest ::
  "u64 \<Rightarrow> string option \<Rightarrow> p2_Response option \<Rightarrow> p2_Client \<Rightarrow> (string + p2_Response) \<times> p2_Client" where
  "submitRequest expected wr resp cl =
     (if \<not> clAlive cl then (Inl ''client not alive'', cl)
      else case wr of
        Some e \<Rightarrow> (Inl e, cl)
      | None \<Rightarrow>
        (case resp of
           None \<Rightarrow> (Inl ''submit work failure: nil response'', cl)
         | Some r \<Rightarrow>
             if prID r \<noteq> expected then (Inl ''submit work failure: unexpected response'', cl)
             else (Inr r, cl)))"

definition SubmitWork ::
  "string option \<Rightarrow> p2_Response option \<Rightarrow> p2_Client \<Rightarrow> (string + p2_Response) \<times> p2_Client" where
  "SubmitWork = submitRequest SUBMIT_WORK_JSONRPC_ID"

text \<open>\<open>dispatchJobs\<close> on the messages it reads: what it sends on the two channels, in order, and
  whether it ended and closed them.\<close>

datatype dispatched = SendJob MultiClientJob | SendResponse p2_Response

fun dispatch_loop :: "(string + p2_Response) list \<Rightarrow> dispatched list \<times> bool" where
  "dispatch_loop [] = ([], False)"
| "dispatch_loop (Inl e # rs) = ([], True)"
| "dispatch_loop (Inr r # rs) =
     (if prMethod r \<noteq> ''job'' then
        (if prID r = SUBMIT_WORK_JSONRPC_ID
         then case dispatch_loop rs of (ds, ended) \<Rightarrow> (SendResponse r # ds, ended)
         else dispatch_loop rs)
      else case prJob r of
        None \<Rightarrow> ([], True)
      | Some j \<Rightarrow> (case dispatch_loop rs of (ds, ended) \<Rightarrow> (SendJob j # ds, ended)))"

definition dispatchJobs :: "MultiClientJob \<Rightarrow> (string + p2_Response) list \<Rightarrow> dispatched list \<times> bool" where
  "dispatchJobs firstJob rs = (case dispatch_loop rs of (ds, ended) \<Rightarrow> (SendJob firstJob # ds, ended))"

section \<open>The client that reconnects\<close>

definition TOTAL_TIMEOUT :: duration where
  "TOTAL_TIMEOUT = 25 * Second"

text \<open>One round of \<open>Start\<close>: whether \<open>Connect\<close> failed, the jobs received until the channel closed or
  the client was no longer alive, each with the time of its arrival, and the time of the check.\<close>

record p2_attempt =
  paError :: "string option"
  paJobs :: "(MultiClientJob \<times> instant) list"
  paCheck :: instant

definition attempt_jobs :: "p2_attempt \<Rightarrow> (MultiClientJob \<times> instant) list" where
  "attempt_jobs a = (case paError a of Some e \<Rightarrow> [] | None \<Rightarrow> paJobs a)"

definition last_received :: "instant \<Rightarrow> p2_attempt \<Rightarrow> instant" where
  "last_received t a = (if attempt_jobs a = [] then t else snd (last (attempt_jobs a)))"

text \<open>The jobs forwarded, and whether \<open>Start\<close> returned.\<close>

fun Start_loop :: "instant \<Rightarrow> p2_attempt list \<Rightarrow> MultiClientJob list \<times> bool" where
  "Start_loop lastReceived [] = ([], False)"
| "Start_loop lastReceived (a # as) =
     (let lastReceived = last_received lastReceived a in
      if time_Sub (paCheck a) lastReceived > TOTAL_TIMEOUT then (map fst (attempt_jobs a), True)
      else case Start_loop lastReceived as of (js, returned) \<Rightarrow> (map fst (attempt_jobs a) @ js, returned))"

section \<open>P2Pool's jobs in a session\<close>

record p2_session =
  psConn :: Connection
  psJobDiff :: u64

text \<open>The difficulty of a target: \<open>None\<close> when it is not hexadecimal.\<close>

definition target_diff :: "string \<Rightarrow> u64 option go" where
  "target_diff target =
     (case hex_DecodeString target of
        None \<Rightarrow> Ret None
      | Some t \<Rightarrow> go_map Some (if length t = 4 then ShortDiffToDiff t else MidDiffToDiff t))"

definition p2_job :: "string \<Rightarrow> MultiClientJob \<Rightarrow> u64 \<Rightarrow> Job" where
  "p2_job algo j diff =
     \<lparr>jobAlgo = algo, jobBlob = pjBlob j, jobHeight = pjHeight j, jobJobID = pjJobID j,
      jobSeedHash = pjSeedHash j, jobTarget = DiffToShortTarget diff\<rparr>"

text \<open>The first job: whether the login succeeds, what is sent, and the session. \<open>None\<close> is the job
  \<open>nil\<close>. NiceHash is switched off first, so its branches are not taken.\<close>

definition p2_first_job ::
  "Config \<Rightarrow> u64 \<Rightarrow> MultiClientJob option \<Rightarrow> p2_session \<Rightarrow> (bool \<times> reply list \<times> p2_session) go" where
  "p2_first_job cfg reqID jobData s =
     (let c = (psConn s)\<lparr>Nicehash := False\<rparr>; s = s\<lparr>psConn := c\<rparr> in
      case jobData of
        None \<Rightarrow> Ret (False, [], s)
      | Some j \<Rightarrow>
        (case hex_DecodeString (pjBlob j) of
           None \<Rightarrow> Ret (False, [], s\<lparr>psConn := c\<lparr>CurrentJob := (CurrentJob c)\<lparr>cjHashingBlob := hex_prefix (pjBlob j)\<rparr>\<rparr>\<rparr>)
         | Some blob \<Rightarrow>
             let c = c\<lparr>CurrentJob := (CurrentJob c)\<lparr>cjHashingBlob := blob\<rparr>\<rparr>; s = s\<lparr>psConn := c\<rparr> in
             if length blob < 43 then Ret (False, [], s)
             else
               go_map (\<lambda>jobDiff.
                   case jobDiff of
                     None \<Rightarrow> (False, [], s)
                   | Some d \<Rightarrow>
                       if d = 0 then (False, [], s)
                       else
                         let diff = (if d < cjDiff (CurrentJob c) then d else cjDiff (CurrentJob c));
                             c = c\<lparr>CurrentJob := (CurrentJob c)\<lparr>cjDiff := diff, cjJobID := pjJobID j\<rparr>\<rparr>
                         in (True, [LoginResponse reqID (p2_job (AlgoName cfg) j diff) [''keepalive'']],
                             s\<lparr>psConn := c, psJobDiff := d\<rparr>))
                 (target_diff (pjTarget j))))"

definition p2_next_diff :: "SlaveConfig \<Rightarrow> u64 \<Rightarrow> f64 \<Rightarrow> f64" where
  "p2_next_diff cfg jobDiff nd =
     (if nd < f64_of_u64 (MinDiff cfg) then f64_of_u64 (MinDiff cfg)
      else if f64_of_u64 jobDiff \<le> nd then f64_of_u64 jobDiff
      else nd)"

text \<open>
  The body of the goroutine that forwards the later jobs: whether it goes on, what it sends and
  the session; ending it always kicks the client. First the connection takes the new difficulty.
\<close>

definition p2_start_job :: "(f64 \<Rightarrow> u64) \<Rightarrow> SlaveConfig \<Rightarrow> u64 \<Rightarrow> Connection \<Rightarrow> Connection" where
  "p2_start_job conv cfg jobDiff c =
     (let c = c\<lparr>LastJob := CurrentJob c\<rparr>;
          c = c\<lparr>NextDiff := p2_next_diff cfg jobDiff (NextDiff c)\<rparr>
      in c\<lparr>CurrentJob := (CurrentJob c)\<lparr>cjDiff := u64_of_f64 conv (NextDiff c)\<rparr>\<rparr>)"

text \<open>Then, once the blob of the job is decoded, the target: \<open>firstTarget\<close> is the target of the first
  job, which is what line 369 decodes, and \<open>writeOk\<close> says whether the write succeeds.\<close>

definition p2_finish_job ::
  "Config \<Rightarrow> string \<Rightarrow> bool \<Rightarrow> MultiClientJob \<Rightarrow> Connection \<Rightarrow> p2_session \<Rightarrow> (bool \<times> reply list \<times> p2_session) go" where
  "p2_finish_job cfg firstTarget writeOk j c s =
     go_map (\<lambda>jobDiff.
         case jobDiff of
           None \<Rightarrow> (False, [], s\<lparr>psConn := c\<rparr>)
         | Some d \<Rightarrow>
             if d = 0 then (False, [], s\<lparr>psConn := c\<rparr>)
             else
               let diff = (if d < cjDiff (CurrentJob c) then d else cjDiff (CurrentJob c));
                   c = c\<lparr>CurrentJob := (CurrentJob c)\<lparr>cjDiff := diff\<rparr>\<rparr>
               in (\<not> snd (Send writeOk (JobNotification (p2_job (AlgoName cfg) j diff))),
                           fst (Send writeOk (JobNotification (p2_job (AlgoName cfg) j diff))),
                   s\<lparr>psConn := c, psJobDiff := d\<rparr>))
       (target_diff firstTarget)"

definition p2_next_job ::
  "(f64 \<Rightarrow> u64) \<Rightarrow> Config \<Rightarrow> string \<Rightarrow> bool \<Rightarrow> MultiClientJob \<Rightarrow> p2_session \<Rightarrow> (bool \<times> reply list \<times> p2_session) go" where
  "p2_next_job conv cfg firstTarget writeOk j s =
     (let c = p2_start_job conv (SlaveCfg cfg) (psJobDiff s) (psConn s) in
      case hex_DecodeString (pjBlob j) of
        None \<Rightarrow> Ret (False, [], s\<lparr>psConn := c\<lparr>CurrentJob := (CurrentJob c)\<lparr>cjHashingBlob := hex_prefix (pjBlob j)\<rparr>\<rparr>\<rparr>)
      | Some blob \<Rightarrow>
          go_bind (if Nicehash c then go_index blob 42 else Ret (cjNicehashByte (CurrentJob c))) (\<lambda>b.
          p2_finish_job cfg firstTarget writeOk j
            (c\<lparr>CurrentJob := (CurrentJob c)\<lparr>cjHashingBlob := blob, cjNicehashByte := b, cjJobID := pjJobID j\<rparr>\<rparr>) s))"

text \<open>The goroutine on the jobs it receives; it ends on \<open>nil\<close>.\<close>

fun p2_job_loop ::
  "(f64 \<Rightarrow> u64) \<Rightarrow> Config \<Rightarrow> string \<Rightarrow> (MultiClientJob option \<times> bool) list \<Rightarrow> p2_session \<Rightarrow> (reply list \<times> p2_session) go" where
  "p2_job_loop conv cfg firstTarget [] s = Ret ([], s)"
| "p2_job_loop conv cfg firstTarget ((None, writeOk) # js) s = Ret ([], s)"
| "p2_job_loop conv cfg firstTarget ((Some j, writeOk) # js) s =
     go_bind (p2_next_job conv cfg firstTarget writeOk j s) (\<lambda>(continue, sent, s').
       if continue then go_map (\<lambda>(sent', s''). (sent @ sent', s'')) (p2_job_loop conv cfg firstTarget js s')
       else Ret (sent, s'))"

section \<open>The client gives up\<close>

text \<open>When no attempt delivers a job and a check comes more than \<open>TOTAL_TIMEOUT\<close> after the last one,
  \<open>Start\<close> returns without having forwarded a job.\<close>

lemma Start_gives_up:
  assumes "\<forall>a \<in> set as. attempt_jobs a = []" and "\<exists>a \<in> set as. time_Sub (paCheck a) t > TOTAL_TIMEOUT"
  shows "Start_loop t as = ([], True)"
  using assms by (induction as) (auto simp: last_received_def)

text \<open>A failed submission changes nothing: the client stays alive, although the comment of
  \<open>SubmitWork\<close> says that it is closed.\<close>

lemma SubmitWork_keeps_client: "snd (SubmitWork wr resp cl) = cl"
  by (auto simp: SubmitWork_def submitRequest_def split: option.splits)

section \<open>The difficulty of later jobs\<close>

lemma p2_first_job_accepted:
  assumes "p2_first_job cfg reqID (Some j) s = Ret (True, rs, s')"
  shows "\<exists>d. target_diff (pjTarget j) = Ret (Some d) \<and> d \<noteq> 0 \<and> psJobDiff s' = d \<and> cjDiff (CurrentJob (psConn s')) \<le> d"
  using assms
  by (cases "target_diff (pjTarget j)")
    (auto simp: p2_first_job_def Let_def not_less split: option.splits if_splits)

lemma p2_finish_job_frozen:
  assumes "target_diff ft = Ret (Some d)" "d \<noteq> 0"
    and "p2_finish_job cfg ft writeOk j c s = Ret (k, sent, s')"
  shows "psJobDiff s' = d \<and> (\<forall>r \<in> set sent. \<exists>diff \<le> d. r = JobNotification (p2_job (AlgoName cfg) j diff))"
proof -
  let ?diff = "if d < cjDiff (CurrentJob c) then d else cjDiff (CurrentJob c)"
  have "sent = (if writeOk then [JobNotification (p2_job (AlgoName cfg) j ?diff)] else [])" "psJobDiff s' = d"
    using assms by (auto simp: p2_finish_job_def Let_def Send_def SendBytes_def)
  moreover have "?diff \<le> d" by (simp add: not_less)
  ultimately show ?thesis by auto
qed

lemma p2_next_job_frozen:
  assumes "target_diff ft = Ret (Some d)" "d \<noteq> 0" "psJobDiff s = d"
    and "p2_next_job conv cfg ft writeOk j s = Ret (k, sent, s')"
  shows "psJobDiff s' = d \<and> (\<forall>r \<in> set sent. \<exists>diff \<le> d. r = JobNotification (p2_job (AlgoName cfg) j diff))"
proof (cases "hex_DecodeString (pjBlob j)")
  case None
  then show ?thesis using assms(3,4) by (auto simp: p2_next_job_def Let_def)
next
  case (Some blob)
  then obtain c where "p2_finish_job cfg ft writeOk j c s = Ret (k, sent, s')"
    using assms(4) by (auto simp: p2_next_job_def Let_def go_bind_eq_Ret)
  from p2_finish_job_frozen [OF assms(1,2) this] show ?thesis .
qed

lemma p2_job_loop_frozen:
  assumes "target_diff ft = Ret (Some d)" "d \<noteq> 0" "psJobDiff s = d"
    and "p2_job_loop conv cfg ft js s = Ret (sent, s')"
  shows "psJobDiff s' = d \<and> (\<forall>r \<in> set sent. \<exists>j. \<exists>diff \<le> d. r = JobNotification (p2_job (AlgoName cfg) j diff))"
  using assms
proof (induction conv cfg ft js s arbitrary: sent s' rule: p2_job_loop.induct)
  case (3 conv cfg ft j writeOk js s)
  obtain k sent1 s1 where one: "p2_next_job conv cfg ft writeOk j s = Ret (k, sent1, s1)"
    using "3.prems"(4) by (cases "p2_next_job conv cfg ft writeOk j s") auto
  note f = p2_next_job_frozen [OF "3.prems"(1-3) one]
  show ?case
  proof (cases k)
    case True
    then obtain sent2 where two: "p2_job_loop conv cfg ft js s1 = Ret (sent2, s')" "sent = sent1 @ sent2"
      using "3.prems"(4) one by (cases "p2_job_loop conv cfg ft js s1") auto
    from "3.IH" [OF True "3.prems"(1,2) conjunct1 [OF f] two(1)] f two(2)
    show ?thesis unfolding two(2) set_append by blast
  next
    case False
    then have "sent = sent1" "s' = s1" using "3.prems"(4) one by auto
    then show ?thesis using f by blast
  qed
qed auto

text \<open>The cap that P2Pool puts on a miner's difficulty is frozen at the login. Every later job
  decodes the target of the first job again instead of its own, so whatever targets P2Pool sends,
  the difficulty above which a share is passed on to P2Pool stays that of the first job, and no
  job ever asks the miner for more.\<close>

theorem p2pool_target_frozen:
  assumes "p2_first_job cfg reqID (Some j0) s0 = Ret (True, rs, s1)"
    and "p2_job_loop conv cfg (pjTarget j0) js s1 = Ret (sent, s2)"
  shows "\<exists>d. target_diff (pjTarget j0) = Ret (Some d) \<and> d \<noteq> 0 \<and> psJobDiff s1 = d \<and> psJobDiff s2 = d \<and>
    (\<forall>r \<in> set sent. \<exists>j. \<exists>diff \<le> d. r = JobNotification (p2_job (AlgoName cfg) j diff))"
proof -
  obtain d where d: "target_diff (pjTarget j0) = Ret (Some d)" "d \<noteq> 0" "psJobDiff s1 = d"
    using p2_first_job_accepted [OF assms(1)] by blast
  from p2_job_loop_frozen [OF this assms(2)] d show ?thesis by blast
qed

definition sample_p2_job :: "byte list \<Rightarrow> MultiClientJob" where
  "sample_p2_job t =
     \<lparr>pjBlob = hex_EncodeToString (replicate 43 0), pjJobID = ''1'', pjTarget = hex_EncodeToString t, pjAlgo = ''rx/0'',
      pjHeight = 5, pjSeedHash = ''ab'', pjNetworkDifficulty = 0, pjReward = 0, pjConnNonce = 0\<rparr>"

text \<open>The second job's target is easier by a factor of two, but the session keeps the first one's.\<close>

lemma p2pool_target_frozen_witness:
  "\<exists>rs s1 sent s2. p2_first_job sample_Config 1 (Some (sample_p2_job [0, 0, 1, 0])) \<lparr>psConn = accept_conn True 3, psJobDiff = 0\<rparr> = Ret (True, rs, s1) \<and>
     p2_job_loop (\<lambda>_. 0) sample_Config (pjTarget (sample_p2_job [0, 0, 1, 0])) [(Some (sample_p2_job [0, 0, 2, 0]), True)] s1 = Ret (sent, s2) \<and>
     psJobDiff s2 = 65535"
proof -
  let ?s0 = "\<lparr>psConn = accept_conn True 3, psJobDiff = 0\<rparr>"
  have t: "target_diff (pjTarget (sample_p2_job [0, 0, 1, 0])) = Ret (Some 65535)"
    by (simp add: target_diff_def sample_p2_job_def hex_roundtrip ShortDiffToDiff_value)
  obtain rs s1 where one: "p2_first_job sample_Config 1 (Some (sample_p2_job [0, 0, 1, 0])) ?s0 = Ret (True, rs, s1)"
    using t by (simp add: p2_first_job_def Let_def sample_p2_job_def hex_roundtrip accept_conn_def)
  have n: "Nicehash (psConn s1) = False"
    using one t by (auto simp: p2_first_job_def Let_def sample_p2_job_def hex_roundtrip accept_conn_def)
  have bl: "hex_DecodeString (pjBlob (sample_p2_job [0, 0, 2, 0])) = Some (replicate 43 0)"
    by (simp add: sample_p2_job_def hex_roundtrip)
  obtain sent s2 where two: "p2_job_loop (\<lambda>_. 0) sample_Config (pjTarget (sample_p2_job [0, 0, 1, 0]))
      [(Some (sample_p2_job [0, 0, 2, 0]), True)] s1 = Ret (sent, s2)"
    using n by (simp add: p2_next_job_def p2_start_job_def p2_finish_job_def Let_def bl t)
  from p2pool_target_frozen [OF one two] t one two show ?thesis by auto
qed

end
