(* ===== verification/P2pool_Session.thy ===== *)
theory P2pool_Session
  imports P2pool
begin

text \<open>
  A miner's session in P2Pool mode as the interleaving of its four goroutines: \<open>HandleConnection\<close>
  (\<^verbatim>\<open>src/cmd/slave/conn.go\<close>), the job goroutine it starts (lines 332 to 421), \<open>P2PoolClient.Start\<close>
  (\<^verbatim>\<open>src/p2pool/p2client.go\<close>) and \<open>dispatchJobs\<close> (\<^verbatim>\<open>src/p2pool/client.go\<close>). They meet on unbuffered
  channels, where a send waits for a receiver; on the lock of the connection; and in \<open>Kick\<close>
  (\<^verbatim>\<open>src/stratum/server.go\<close>), which stops the P2Pool client of a connection that is still listed.

  One action is one step of one goroutine, or one meeting of two. What the sockets and the clock do
  is part of the action, so that the interleavings and the behaviours of P2Pool are sequences of
  actions. Two things are simpler than in the code. A goroutine in \<open>Kick\<close> whose \<open>nil\<close> job is received
  takes the connection off the list in the same step (\<open>sent_nil\<close>), although others could run between
  the two. And when \<open>Start\<close> connects again while a share is being written to P2Pool, the code
  replaces the client and with it the mutex that \<open>submitRequest\<close> holds, so that its unlock would end
  the program; here that submission counts as finished before.
\<close>

section \<open>The state of the four goroutines\<close>

text \<open>\<open>HandleConnection\<close>: waiting for the first job; in \<open>Kick\<close>, before and while \<open>Stop\<close> sends its \<open>nil\<close>
  (the flag says that line 257 follows); in the \<open>Stop\<close> of line 257, likewise; reading requests;
  working on a request with the lock held; waiting for P2Pool's answer to a share, on the response
  channel of the given connection, or on one that no goroutine serves; returned.\<close>

datatype handler_pc =
    HFirst | HKick bool | HKickSend bool | HStop | HStopSend | HLoop | HLocked | HSubmit nat | HStuck | HReturned

text \<open>The job goroutine: not started, waiting for a job, holding a job and waiting for the lock, in \<open>Kick\<close>
  with the lock held, ended.\<close>

datatype job_pc = JNone | JWait | JLock MultiClientJob | JKick | JKickSend | JEnded

text \<open>\<open>Start\<close> and the call of \<open>Kick\<close> that follows it in line 250.\<close>

datatype start_pc = SDial | SRecv | SSend MultiClientJob | SRedo | SKick | SKickSend | SDone

text \<open>\<open>dispatchJobs\<close>: not started, sending a job, reading, sending a response, ended with its channels
  closed, or not started although \<open>Connect\<close> has made the response channel (lines 194 to 200 of
  \<^verbatim>\<open>src/p2pool/client.go\<close>).\<close>

datatype dispatch_pc = DNone | DJob MultiClientJob | DRead | DResp | DEnd | DSilent

text \<open>\<open>pcLink\<close> is the field \<open>conn\<close> of the client: \<open>None\<close> for \<open>nil\<close>, otherwise whether it is open. \<open>pcGen\<close>
  counts the connections to P2Pool, that is the response channels.\<close>

record p2_proc =
  pcSession :: p2_session
  pcFirstTarget :: string
  pcLocked :: bool
  pcListed :: bool
  pcLink :: "bool option"
  pcGen :: nat
  pcLast :: instant
  pcHandler :: handler_pc
  pcJobs :: job_pc
  pcStart :: start_pc
  pcDispatch :: dispatch_pc

text \<open>Line 248: the goroutine that runs \<open>Start\<close> has just been started.\<close>

definition p2_begin :: "instant \<Rightarrow> Connection \<Rightarrow> p2_proc" where
  "p2_begin now c =
     \<lparr>pcSession = \<lparr>psConn = c, psJobDiff = 0\<rparr>, pcFirstTarget = '''', pcLocked = False, pcListed = True,
      pcLink = None, pcGen = 0, pcLast = now, pcHandler = HFirst, pcJobs = JNone, pcStart = SDial,
      pcDispatch = DNone\<rparr>"

section \<open>Stopping\<close>

text \<open>\<open>Stop\<close> up to the send: closing a connection that was never made is a call on a nil interface. The
  error of closing a closed one is only printed.\<close>

definition Stop_close :: "p2_proc \<Rightarrow> p2_proc go" where
  "Stop_close s = (case pcLink s of None \<Rightarrow> Panic NilDereference | Some b \<Rightarrow> Ret (s\<lparr>pcLink := Some False\<rparr>))"

text \<open>\<open>Kick\<close> on the connection of the session, with P2Pool: a listed one is stopped before the list is
  replaced (\<open>waits\<close> puts the caller where \<open>Stop\<close> sends), otherwise \<open>Kick\<close> does nothing.\<close>

definition Kick_begin :: "(p2_proc \<Rightarrow> p2_proc) \<Rightarrow> (p2_proc \<Rightarrow> p2_proc) \<Rightarrow> p2_proc \<Rightarrow> p2_proc go" where
  "Kick_begin waits done s = (if pcListed s then go_map waits (Stop_close s) else Ret (done s))"

definition after_kick :: "bool \<Rightarrow> handler_pc" where
  "after_kick explicitStop = (if explicitStop then HStop else HReturned)"

definition end_jobs :: "p2_proc \<Rightarrow> p2_proc" where
  "end_jobs s = s\<lparr>pcLocked := False, pcJobs := JEnded\<rparr>"

section \<open>Receiving from \<open>Jobs\<close>\<close>

text \<open>\<open>HandleConnection\<close> receives its first job (\<open>None\<close> is \<open>nil\<close>).\<close>

definition take_first :: "Config \<Rightarrow> u64 \<Rightarrow> MultiClientJob option \<Rightarrow> p2_proc \<Rightarrow> p2_proc go" where
  "take_first cfg reqID m s =
     go_map (\<lambda>(accepted, sent, ses).
         let s = s\<lparr>pcSession := ses\<rparr> in
         case m of
           None \<Rightarrow> s\<lparr>pcHandler := HKick True\<rparr>
         | Some j \<Rightarrow>
             if accepted then s\<lparr>pcFirstTarget := pjTarget j, pcHandler := HLoop, pcJobs := JWait\<rparr>
             else s\<lparr>pcHandler := HKick False\<rparr>)
       (p2_first_job cfg reqID m (pcSession s))"

text \<open>A send on \<open>Jobs\<close>: \<open>None\<close> while nobody receives.\<close>

definition send_job :: "Config \<Rightarrow> u64 \<Rightarrow> MultiClientJob option \<Rightarrow> p2_proc \<Rightarrow> p2_proc go option" where
  "send_job cfg reqID m s =
     (if pcHandler s = HFirst then Some (take_first cfg reqID m s)
      else if pcJobs s = JWait then
        Some (Ret (s\<lparr>pcJobs := (case m of None \<Rightarrow> JEnded | Some j \<Rightarrow> JLock j)\<rparr>))
      else None)"

text \<open>The job goroutine works on a job, with the lock.\<close>

definition work_on_job :: "(f64 \<Rightarrow> u64) \<Rightarrow> Config \<Rightarrow> bool \<Rightarrow> MultiClientJob \<Rightarrow> p2_proc \<Rightarrow> p2_proc go" where
  "work_on_job conv cfg writeOk j s =
     go_map (\<lambda>(continue, sent, ses).
         if continue then s\<lparr>pcSession := ses, pcJobs := JWait\<rparr>
         else s\<lparr>pcSession := ses, pcLocked := True, pcJobs := JKick\<rparr>)
       (p2_next_job conv cfg (pcFirstTarget s) writeOk j (pcSession s))"

text \<open>\<open>dispatchJobs\<close> on one message.\<close>

definition dispatch_one :: "string + p2_Response \<Rightarrow> dispatch_pc" where
  "dispatch_one m =
     (case m of
        Inl e \<Rightarrow> DEnd
      | Inr r \<Rightarrow>
          if prMethod r \<noteq> ''job'' then (if prID r = SUBMIT_WORK_JSONRPC_ID then DResp else DRead)
          else (case prJob r of None \<Rightarrow> DEnd | Some j \<Rightarrow> DJob j))"

section \<open>Actions\<close>

text \<open>Of \<open>Start\<close>: the dial fails; \<open>Connect\<close> fails after it; it fails because the login response has
  no job, with the client alive; it succeeds with a first job; a job arrives
  at the given time; the closed channel is noticed; a job is forwarded; the check at the given time
  ends the loop, or starts the next attempt; \<open>Kick\<close>; its \<open>nil\<close> is received.

  Of \<open>dispatchJobs\<close>: it reads a message or an error; a response is received.

  Of \<open>HandleConnection\<close>: a read fails; it takes the lock; it gives it back, the connection updated; it
  submits a share to P2Pool; the response channel turns out to be closed; it ends the session
  without giving the lock back (lines 657 and 698); \<open>Kick\<close>, \<open>Stop\<close> and the sends of \<open>nil\<close>.

  Of the job goroutine: it takes the lock and works on its job; \<open>Kick\<close> and its send.\<close>

datatype p2_action =
    StDialFails | StLoginFails | StNoJob | StConnected MultiClientJob | StTakesJob instant | StSeesClosed | StForwards
  | StReturns instant | StRetries instant | StKicks | StNilSent
  | DiReads "string + p2_Response" | DiAnswers
  | HaReadFails | HaLocks | HaUnlocks Connection | HaSubmits | HaAnswerLost | HaEndsLocked
  | HaKicks | HaNilSent | HaStops | HaStopSent
  | JoLocks bool | JoKicks | JoNilSent

definition when_ok :: "bool \<Rightarrow> p2_proc \<Rightarrow> p2_proc go option" where
  "when_ok b s = (if b then Some (Ret s) else None)"

definition sent_nil :: "Config \<Rightarrow> u64 \<Rightarrow> (p2_proc \<Rightarrow> p2_proc) \<Rightarrow> p2_proc \<Rightarrow> p2_proc go option" where
  "sent_nil cfg reqID goesOn s = map_option (go_map goesOn) (send_job cfg reqID None s)"

text \<open>The result of an action: \<open>None\<close> when its goroutine is elsewhere or has to wait, a panic, which ends
  the process, or the next state.\<close>

fun start_act :: "Config \<Rightarrow> u64 \<Rightarrow> p2_action \<Rightarrow> p2_proc \<Rightarrow> p2_proc go option" where
  "start_act cfg reqID StDialFails s = when_ok (pcStart s = SDial) (s\<lparr>pcLink := None, pcStart := SRedo\<rparr>)"
| "start_act cfg reqID StLoginFails s = when_ok (pcStart s = SDial) (s\<lparr>pcLink := Some True, pcStart := SRedo\<rparr>)"
| "start_act cfg reqID StNoJob s =
     when_ok (pcStart s = SDial)
       (s\<lparr>pcLink := Some True, pcGen := Suc (pcGen s), pcStart := SRedo, pcDispatch := DSilent\<rparr>)"
| "start_act cfg reqID (StConnected j) s =
     when_ok (pcStart s = SDial)
       (s\<lparr>pcLink := Some True, pcGen := Suc (pcGen s), pcStart := SRecv, pcDispatch := DJob j\<rparr>)"
| "start_act cfg reqID (StTakesJob now) s =
     (case pcDispatch s of
        DJob j \<Rightarrow> when_ok (pcStart s = SRecv) (s\<lparr>pcLast := now, pcStart := SSend j, pcDispatch := DRead\<rparr>)
      | _ \<Rightarrow> None)"
| "start_act cfg reqID StSeesClosed s =
     when_ok (pcStart s = SRecv \<and> pcDispatch s = DEnd) (s\<lparr>pcStart := SRedo\<rparr>)"
| "start_act cfg reqID StForwards s =
     (case pcStart s of
        SSend j \<Rightarrow> map_option (go_map (\<lambda>s. s\<lparr>pcStart := SRecv\<rparr>)) (send_job cfg reqID (Some j) s)
      | _ \<Rightarrow> None)"
| "start_act cfg reqID (StReturns now) s =
     when_ok (pcStart s = SRedo \<and> time_Sub now (pcLast s) > TOTAL_TIMEOUT) (s\<lparr>pcStart := SKick\<rparr>)"
| "start_act cfg reqID (StRetries now) s =
     when_ok (pcStart s = SRedo \<and> \<not> time_Sub now (pcLast s) > TOTAL_TIMEOUT)
       (s\<lparr>pcLink := None, pcStart := SDial, pcDispatch := DNone\<rparr>)"
| "start_act cfg reqID StKicks s =
     (if pcStart s = SKick
      then Some (Kick_begin (\<lambda>s. s\<lparr>pcStart := SKickSend\<rparr>) (\<lambda>s. s\<lparr>pcStart := SDone\<rparr>) s) else None)"
| "start_act cfg reqID StNilSent s =
     (if pcStart s = SKickSend
      then sent_nil cfg reqID (\<lambda>s. s\<lparr>pcListed := False, pcStart := SDone\<rparr>) s else None)"
| "start_act cfg reqID a s = None"

fun dispatch_act :: "p2_action \<Rightarrow> p2_proc \<Rightarrow> p2_proc go option" where
  "dispatch_act (DiReads m) s = when_ok (pcDispatch s = DRead) (s\<lparr>pcDispatch := dispatch_one m\<rparr>)"
| "dispatch_act DiAnswers s =
     when_ok (pcDispatch s = DResp \<and> pcHandler s = HSubmit (pcGen s))
       (s\<lparr>pcHandler := HLocked, pcDispatch := DRead\<rparr>)"
| "dispatch_act a s = None"

fun handler_act :: "Config \<Rightarrow> u64 \<Rightarrow> p2_action \<Rightarrow> p2_proc \<Rightarrow> p2_proc go option" where
  "handler_act cfg reqID HaReadFails s = when_ok (pcHandler s = HLoop) (s\<lparr>pcHandler := HKick False\<rparr>)"
| "handler_act cfg reqID HaLocks s =
     when_ok (pcHandler s = HLoop \<and> \<not> pcLocked s) (s\<lparr>pcLocked := True, pcHandler := HLocked\<rparr>)"
| "handler_act cfg reqID (HaUnlocks c) s =
     when_ok (pcHandler s = HLocked)
       (s\<lparr>pcLocked := False, pcHandler := HLoop, pcSession := (pcSession s)\<lparr>psConn := c\<rparr>\<rparr>)"
| "handler_act cfg reqID HaSubmits s =
     when_ok (pcHandler s = HLocked \<and> pcDispatch s \<noteq> DNone)
       (s\<lparr>pcHandler := (if pcDispatch s = DSilent then HStuck else HSubmit (pcGen s))\<rparr>)"
| "handler_act cfg reqID HaAnswerLost s =
     (case pcHandler s of
        HSubmit g \<Rightarrow> when_ok (g \<noteq> pcGen s \<or> pcDispatch s = DEnd \<or> pcDispatch s = DNone) (s\<lparr>pcHandler := HLocked\<rparr>)
      | _ \<Rightarrow> None)"
| "handler_act cfg reqID HaEndsLocked s = when_ok (pcHandler s = HLocked) (s\<lparr>pcHandler := HKick False\<rparr>)"
| "handler_act cfg reqID HaKicks s =
     (case pcHandler s of
        HKick b \<Rightarrow> Some (Kick_begin (\<lambda>s. s\<lparr>pcHandler := HKickSend b\<rparr>) (\<lambda>s. s\<lparr>pcHandler := after_kick b\<rparr>) s)
      | _ \<Rightarrow> None)"
| "handler_act cfg reqID HaNilSent s =
     (case pcHandler s of
        HKickSend b \<Rightarrow> sent_nil cfg reqID (\<lambda>s. s\<lparr>pcListed := False, pcHandler := after_kick b\<rparr>) s
      | _ \<Rightarrow> None)"
| "handler_act cfg reqID HaStops s =
     (if pcHandler s = HStop then Some (go_map (\<lambda>s. s\<lparr>pcHandler := HStopSend\<rparr>) (Stop_close s)) else None)"
| "handler_act cfg reqID HaStopSent s =
     (if pcHandler s = HStopSend then sent_nil cfg reqID (\<lambda>s. s\<lparr>pcHandler := HReturned\<rparr>) s else None)"
| "handler_act cfg reqID a s = None"

fun job_act :: "(f64 \<Rightarrow> u64) \<Rightarrow> Config \<Rightarrow> u64 \<Rightarrow> p2_action \<Rightarrow> p2_proc \<Rightarrow> p2_proc go option" where
  "job_act conv cfg reqID (JoLocks writeOk) s =
     (case pcJobs s of JLock j \<Rightarrow> if pcLocked s then None else Some (work_on_job conv cfg writeOk j s) | _ \<Rightarrow> None)"
| "job_act conv cfg reqID JoKicks s =
     (if pcJobs s = JKick then Some (Kick_begin (\<lambda>s. s\<lparr>pcJobs := JKickSend\<rparr>) end_jobs s) else None)"
| "job_act conv cfg reqID JoNilSent s =
     (if pcJobs s = JKickSend then sent_nil cfg reqID (\<lambda>s. end_jobs (s\<lparr>pcListed := False\<rparr>)) s else None)"
| "job_act conv cfg reqID a s = None"

definition p2_act :: "(f64 \<Rightarrow> u64) \<Rightarrow> Config \<Rightarrow> u64 \<Rightarrow> p2_action \<Rightarrow> p2_proc \<Rightarrow> p2_proc go option" where
  "p2_act conv cfg reqID a s =
     (case start_act cfg reqID a s of
        Some r \<Rightarrow> Some r
      | None \<Rightarrow>
        (case dispatch_act a s of
           Some r \<Rightarrow> Some r
         | None \<Rightarrow>
           (case handler_act cfg reqID a s of Some r \<Rightarrow> Some r | None \<Rightarrow> job_act conv cfg reqID a s)))"

text \<open>A run: the actions happen one after another. \<open>None\<close> is a sequence that cannot happen; a panic of
  one goroutine ends the whole process.\<close>

fun p2_run :: "(f64 \<Rightarrow> u64) \<Rightarrow> Config \<Rightarrow> u64 \<Rightarrow> p2_action list \<Rightarrow> p2_proc \<Rightarrow> p2_proc go option" where
  "p2_run conv cfg reqID [] s = Some (Ret s)"
| "p2_run conv cfg reqID (a # as) s =
     (case p2_act conv cfg reqID a s of
        None \<Rightarrow> None
      | Some (Panic p) \<Rightarrow> if as = [] then Some (Panic p) else None
      | Some (Ret s') \<Rightarrow> p2_run conv cfg reqID as s')"

inductive p2_step :: "(f64 \<Rightarrow> u64) \<Rightarrow> Config \<Rightarrow> u64 \<Rightarrow> p2_proc \<Rightarrow> p2_proc \<Rightarrow> bool"
  for conv :: "f64 \<Rightarrow> u64" and cfg :: Config and reqID :: u64 where
  "p2_act conv cfg reqID a s = Some (Ret s') \<Longrightarrow> p2_step conv cfg reqID s s'"

inductive p2_reach :: "(f64 \<Rightarrow> u64) \<Rightarrow> Config \<Rightarrow> u64 \<Rightarrow> p2_proc \<Rightarrow> p2_proc \<Rightarrow> bool"
  for conv :: "f64 \<Rightarrow> u64" and cfg :: Config and reqID :: u64 and s0 :: p2_proc where
  p2_start: "p2_reach conv cfg reqID s0 s0"
| p2_more: "p2_reach conv cfg reqID s0 s \<Longrightarrow> p2_step conv cfg reqID s s' \<Longrightarrow> p2_reach conv cfg reqID s0 s'"

inductive_cases p2_stepE: "p2_step conv cfg reqID s s'"

section \<open>Invariants by the actions\<close>

lemma when_ok_Some [simp]: "when_ok b s = Some r \<longleftrightarrow> b \<and> r = Ret s"
  by (auto simp: when_ok_def)

lemma Kick_begin_Ret:
  "Kick_begin f g s = Ret s' \<longleftrightarrow>
     (if pcListed s then \<exists>b. pcLink s = Some b \<and> s' = f (s\<lparr>pcLink := Some False\<rparr>) else s' = g s)"
  by (auto simp: Kick_begin_def Stop_close_def split: option.splits)


text \<open>What a successful send does.\<close>

lemma send_job_cases:
  assumes "send_job cfg reqID m s = Some (Ret s')"
  obtains (first_nil) ses where "pcHandler s = HFirst" "m = None" "s' = s\<lparr>pcSession := ses, pcHandler := HKick True\<rparr>"
    | (accepted) ses j where "pcHandler s = HFirst" "m = Some j"
        "s' = s\<lparr>pcSession := ses, pcFirstTarget := pjTarget j, pcHandler := HLoop, pcJobs := JWait\<rparr>"
    | (rejected) ses j where "pcHandler s = HFirst" "m = Some j" "s' = s\<lparr>pcSession := ses, pcHandler := HKick False\<rparr>"
    | (later_nil) "pcHandler s \<noteq> HFirst" "pcJobs s = JWait" "m = None" "s' = s\<lparr>pcJobs := JEnded\<rparr>"
    | (later) j where "pcHandler s \<noteq> HFirst" "pcJobs s = JWait" "m = Some j" "s' = s\<lparr>pcJobs := JLock j\<rparr>"
proof (cases "pcHandler s = HFirst")
  case True
  then obtain acc sent ses where "p2_first_job cfg reqID m (pcSession s) = Ret (acc, sent, ses)"
    using assms by (cases "p2_first_job cfg reqID m (pcSession s)") (auto simp: send_job_def take_first_def)
  with True assms show ?thesis
    by (cases m; cases acc) (auto simp: send_job_def take_first_def intro: first_nil accepted rejected)
next
  case False
  with assms show ?thesis
    by (cases m) (auto simp: send_job_def split: if_split_asm intro: later_nil later)
qed

lemma sent_nil_cases:
  assumes "sent_nil cfg reqID f s = Some (Ret s')"
  obtains (first_nil) ses where "pcHandler s = HFirst" "s' = f (s\<lparr>pcSession := ses, pcHandler := HKick True\<rparr>)"
    | (later_nil) "pcHandler s \<noteq> HFirst" "pcJobs s = JWait" "s' = f (s\<lparr>pcJobs := JEnded\<rparr>)"
proof -
  from assms obtain s1 where "send_job cfg reqID None s = Some (Ret s1)" "s' = f s1"
    by (auto simp: sent_nil_def go_map_bind go_bind_eq_Ret)
  then show ?thesis by (cases rule: send_job_cases) (auto intro: first_nil later_nil)
qed

lemma forwarded_cases:
  assumes "map_option (go_map f) (send_job cfg reqID (Some j) s) = Some (Ret s')"
  obtains (accepted) ses where "pcHandler s = HFirst"
        "s' = f (s\<lparr>pcSession := ses, pcFirstTarget := pjTarget j, pcHandler := HLoop, pcJobs := JWait\<rparr>)"
    | (rejected) ses where "pcHandler s = HFirst" "s' = f (s\<lparr>pcSession := ses, pcHandler := HKick False\<rparr>)"
    | (later) "pcHandler s \<noteq> HFirst" "pcJobs s = JWait" "s' = f (s\<lparr>pcJobs := JLock j\<rparr>)"
proof -
  from assms obtain s1 where "send_job cfg reqID (Some j) s = Some (Ret s1)" "s' = f s1"
    by (auto simp: go_map_bind go_bind_eq_Ret)
  then show ?thesis by (cases rule: send_job_cases) (auto intro: accepted rejected later)
qed

lemma Kick_begin_cases:
  assumes "Kick_begin f g s = Ret s'"
  obtains (stops) b where "pcListed s" "pcLink s = Some b" "s' = f (s\<lparr>pcLink := Some False\<rparr>)"
    | (unlisted) "\<not> pcListed s" "s' = g s"
  using assms by (auto simp: Kick_begin_Ret split: if_split_asm)

lemma work_on_job_cases:
  assumes "work_on_job conv cfg w j s = Ret s'"
  obtains (goes_on) ses where "s' = s\<lparr>pcSession := ses, pcJobs := JWait\<rparr>"
    | (fails) ses where "s' = s\<lparr>pcSession := ses, pcLocked := True, pcJobs := JKick\<rparr>"
proof -
  from assms obtain c sent ses where "p2_next_job conv cfg (pcFirstTarget s) w j (pcSession s) = Ret (c, sent, ses)"
    by (cases "p2_next_job conv cfg (pcFirstTarget s) w j (pcSession s)") (auto simp: work_on_job_def)
  with assms show ?thesis by (cases c) (auto simp: work_on_job_def intro: goes_on fails)
qed

text \<open>What P2Pool announces, what the session starts to work on, and what is under way: held by the job
  goroutine, by \<open>Start\<close>, by \<open>dispatchJobs\<close>.\<close>

fun announced :: "p2_action \<Rightarrow> MultiClientJob list" where
  "announced (StConnected j) = [j]"
| "announced (DiReads m) = (case dispatch_one m of DJob j \<Rightarrow> [j] | _ \<Rightarrow> [])"
| "announced a = []"

fun handled :: "p2_action \<Rightarrow> p2_proc \<Rightarrow> MultiClientJob list" where
  "handled StForwards s =
     (case pcStart s of SSend j \<Rightarrow> if pcHandler s = HFirst then [j] else [] | _ \<Rightarrow> [])"
| "handled (JoLocks w) s = (case pcJobs s of JLock j \<Rightarrow> [j] | _ \<Rightarrow> [])"
| "handled a s = []"

definition under_way :: "p2_proc \<Rightarrow> MultiClientJob list" where
  "under_way s =
     (case pcJobs s of JLock j \<Rightarrow> [j] | _ \<Rightarrow> []) @ (case pcStart s of SSend j \<Rightarrow> [j] | _ \<Rightarrow> []) @
     (case pcDispatch s of DJob j \<Rightarrow> [j] | _ \<Rightarrow> [])"

text \<open>The successful actions, one case per way in which one can happen, with the jobs they announce and
  handle.\<close>

inductive p2_move :: "MultiClientJob list \<Rightarrow> MultiClientJob list \<Rightarrow> p2_proc \<Rightarrow> p2_proc \<Rightarrow> bool" where
  dial_fails: "pcStart s = SDial \<Longrightarrow> p2_move [] [] s (s\<lparr>pcLink := None, pcStart := SRedo\<rparr>)"
| login_fails: "pcStart s = SDial \<Longrightarrow> p2_move [] [] s (s\<lparr>pcLink := Some True, pcStart := SRedo\<rparr>)"
| no_job: "pcStart s = SDial \<Longrightarrow>
    p2_move [] [] s (s\<lparr>pcLink := Some True, pcGen := Suc (pcGen s), pcStart := SRedo, pcDispatch := DSilent\<rparr>)"
| connects: "pcStart s = SDial \<Longrightarrow> p2_move [j] [] s (s\<lparr>pcLink := Some True, pcGen := Suc (pcGen s), pcStart := SRecv, pcDispatch := DJob j\<rparr>)"
| takes: "pcStart s = SRecv \<Longrightarrow> pcDispatch s = DJob j \<Longrightarrow> p2_move [] [] s (s\<lparr>pcLast := now, pcStart := SSend j, pcDispatch := DRead\<rparr>)"
| sees_closed: "pcStart s = SRecv \<Longrightarrow> pcDispatch s = DEnd \<Longrightarrow> p2_move [] [] s (s\<lparr>pcStart := SRedo\<rparr>)"
| forwards_first: "pcStart s = SSend j \<Longrightarrow> pcHandler s = HFirst \<Longrightarrow>
    p2_move [] [j] s (s\<lparr>pcSession := ses, pcFirstTarget := t, pcHandler := HLoop, pcJobs := JWait, pcStart := SRecv\<rparr>)"
| forwards_bad: "pcStart s = SSend j \<Longrightarrow> pcHandler s = HFirst \<Longrightarrow>
    p2_move [] [j] s (s\<lparr>pcSession := ses, pcHandler := HKick False, pcStart := SRecv\<rparr>)"
| forwards: "pcStart s = SSend j \<Longrightarrow> pcHandler s \<noteq> HFirst \<Longrightarrow> pcJobs s = JWait \<Longrightarrow>
    p2_move [] [] s (s\<lparr>pcJobs := JLock j, pcStart := SRecv\<rparr>)"
| gives_up: "pcStart s = SRedo \<Longrightarrow> p2_move [] [] s (s\<lparr>pcStart := SKick\<rparr>)"
| retries: "pcStart s = SRedo \<Longrightarrow> p2_move [] [] s (s\<lparr>pcLink := None, pcStart := SDial, pcDispatch := DNone\<rparr>)"
| start_kicks: "pcStart s = SKick \<Longrightarrow> pcListed s \<Longrightarrow> pcLink s = Some b \<Longrightarrow>
    p2_move [] [] s (s\<lparr>pcLink := Some False, pcStart := SKickSend\<rparr>)"
| start_unlisted: "pcStart s = SKick \<Longrightarrow> \<not> pcListed s \<Longrightarrow> p2_move [] [] s (s\<lparr>pcStart := SDone\<rparr>)"
| start_nil_first: "pcStart s = SKickSend \<Longrightarrow> pcHandler s = HFirst \<Longrightarrow>
    p2_move [] [] s (s\<lparr>pcSession := ses, pcHandler := HKick True, pcListed := False, pcStart := SDone\<rparr>)"
| start_nil: "pcStart s = SKickSend \<Longrightarrow> pcHandler s \<noteq> HFirst \<Longrightarrow> pcJobs s = JWait \<Longrightarrow>
    p2_move [] [] s (s\<lparr>pcJobs := JEnded, pcListed := False, pcStart := SDone\<rparr>)"
| reads: "pcDispatch s = DRead \<Longrightarrow> p2_move (announced (DiReads m)) [] s (s\<lparr>pcDispatch := dispatch_one m\<rparr>)"
| answers: "pcDispatch s = DResp \<Longrightarrow> pcHandler s = HSubmit g \<Longrightarrow> p2_move [] [] s (s\<lparr>pcHandler := HLocked, pcDispatch := DRead\<rparr>)"
| read_fails: "pcHandler s = HLoop \<Longrightarrow> p2_move [] [] s (s\<lparr>pcHandler := HKick False\<rparr>)"
| locks: "pcHandler s = HLoop \<Longrightarrow> \<not> pcLocked s \<Longrightarrow> p2_move [] [] s (s\<lparr>pcLocked := True, pcHandler := HLocked\<rparr>)"
| unlocks: "pcHandler s = HLocked \<Longrightarrow> p2_move [] [] s (s\<lparr>pcLocked := False, pcHandler := HLoop, pcSession := ses\<rparr>)"
| submits: "pcHandler s = HLocked \<Longrightarrow> p2_move [] [] s (s\<lparr>pcHandler := HSubmit g\<rparr>)"
| submits_stuck: "pcHandler s = HLocked \<Longrightarrow> p2_move [] [] s (s\<lparr>pcHandler := HStuck\<rparr>)"
| answer_lost: "pcHandler s = HSubmit g \<Longrightarrow> g \<noteq> pcGen s \<or> pcDispatch s = DEnd \<or> pcDispatch s = DNone \<Longrightarrow>
    p2_move [] [] s (s\<lparr>pcHandler := HLocked\<rparr>)"
| ends_locked: "pcHandler s = HLocked \<Longrightarrow> p2_move [] [] s (s\<lparr>pcHandler := HKick False\<rparr>)"
| kicks: "pcHandler s = HKick b \<Longrightarrow> pcListed s \<Longrightarrow> pcLink s = Some l \<Longrightarrow>
    p2_move [] [] s (s\<lparr>pcLink := Some False, pcHandler := HKickSend b\<rparr>)"
| kicks_unlisted: "pcHandler s = HKick b \<Longrightarrow> \<not> pcListed s \<Longrightarrow> p2_move [] [] s (s\<lparr>pcHandler := after_kick b\<rparr>)"
| kick_sent: "pcHandler s = HKickSend b \<Longrightarrow> pcJobs s = JWait \<Longrightarrow>
    p2_move [] [] s (s\<lparr>pcJobs := JEnded, pcListed := False, pcHandler := after_kick b\<rparr>)"
| stops: "pcHandler s = HStop \<Longrightarrow> pcLink s = Some l \<Longrightarrow> p2_move [] [] s (s\<lparr>pcLink := Some False, pcHandler := HStopSend\<rparr>)"
| stop_sent: "pcHandler s = HStopSend \<Longrightarrow> pcJobs s = JWait \<Longrightarrow> p2_move [] [] s (s\<lparr>pcJobs := JEnded, pcHandler := HReturned\<rparr>)"
| works: "pcJobs s = JLock j \<Longrightarrow> \<not> pcLocked s \<Longrightarrow> p2_move [] [j] s (s\<lparr>pcSession := ses, pcJobs := JWait\<rparr>)"
| work_fails: "pcJobs s = JLock j \<Longrightarrow> \<not> pcLocked s \<Longrightarrow> p2_move [] [j] s (s\<lparr>pcSession := ses, pcLocked := True, pcJobs := JKick\<rparr>)"
| job_kicks: "pcJobs s = JKick \<Longrightarrow> pcListed s \<Longrightarrow> pcLink s = Some l \<Longrightarrow>
    p2_move [] [] s (s\<lparr>pcLink := Some False, pcJobs := JKickSend\<rparr>)"
| job_unlisted: "pcJobs s = JKick \<Longrightarrow> \<not> pcListed s \<Longrightarrow> p2_move [] [] s (end_jobs s)"
| job_nil_first: "pcJobs s = JKickSend \<Longrightarrow> pcHandler s = HFirst \<Longrightarrow>
    p2_move [] [] s (end_jobs (s\<lparr>pcSession := ses, pcHandler := HKick True, pcListed := False\<rparr>))"


lemma start_act_move: "start_act cfg reqID a s = Some (Ret s') \<Longrightarrow> p2_move (announced a) (handled a s) s s'"
proof (induction cfg reqID a s rule: start_act.induct)
  case (5 cfg reqID now s)
  then show ?case by (auto split: dispatch_pc.split_asm intro: takes)
next
  case (7 cfg reqID s)
  obtain j where st: "pcStart s = SSend j"
    and f: "map_option (go_map (\<lambda>s. s\<lparr>pcStart := SRecv\<rparr>)) (send_job cfg reqID (Some j) s) = Some (Ret s')"
    using 7 by (simp split: start_pc.split_asm)
  from f show ?case
    by (cases rule: forwarded_cases) (use st in \<open>auto intro: forwards_first forwards_bad forwards\<close>)
next
  case (10 cfg reqID s)
  then have st: "pcStart s = SKick"
    and k: "Kick_begin (\<lambda>s. s\<lparr>pcStart := SKickSend\<rparr>) (\<lambda>s. s\<lparr>pcStart := SDone\<rparr>) s = Ret s'"
    by (simp_all split: if_split_asm)
  from k show ?case by (cases rule: Kick_begin_cases) (use st in \<open>auto intro: start_kicks start_unlisted\<close>)
next
  case (11 cfg reqID s)
  then have st: "pcStart s = SKickSend"
    and n: "sent_nil cfg reqID (\<lambda>s. s\<lparr>pcListed := False, pcStart := SDone\<rparr>) s = Some (Ret s')"
    by (simp_all split: if_split_asm)
  from n show ?case by (cases rule: sent_nil_cases) (use st in \<open>auto intro: start_nil_first start_nil\<close>)
qed (auto intro: p2_move.intros)

lemma dispatch_act_move: "dispatch_act a s = Some (Ret s') \<Longrightarrow> p2_move (announced a) (handled a s) s s'"
  by (induction a s rule: dispatch_act.induct) (auto intro: reads [simplified] answers)

lemma handler_act_move: "handler_act cfg reqID a s = Some (Ret s') \<Longrightarrow> p2_move (announced a) (handled a s) s s'"
proof (induction cfg reqID a s rule: handler_act.induct)
  case (5 cfg reqID s)
  then show ?case by (auto split: handler_pc.split_asm intro: answer_lost)
next
  case (7 cfg reqID s)
  obtain b where h: "pcHandler s = HKick b"
    and k: "Kick_begin (\<lambda>s. s\<lparr>pcHandler := HKickSend b\<rparr>) (\<lambda>s. s\<lparr>pcHandler := after_kick b\<rparr>) s = Ret s'"
    using 7 by (simp split: handler_pc.split_asm)
  from k show ?case by (cases rule: Kick_begin_cases) (use h in \<open>auto intro: kicks kicks_unlisted\<close>)
next
  case (8 cfg reqID s)
  obtain b where h: "pcHandler s = HKickSend b"
    and n: "sent_nil cfg reqID (\<lambda>s. s\<lparr>pcListed := False, pcHandler := after_kick b\<rparr>) s = Some (Ret s')"
    using 8 by (simp split: handler_pc.split_asm)
  from n show ?case by (cases rule: sent_nil_cases) (use h in \<open>auto intro: kick_sent\<close>)
next
  case (9 cfg reqID s)
  then show ?case
    by (auto simp: Stop_close_def split: if_split_asm option.split_asm intro: stops)
next
  case (10 cfg reqID s)
  then have h: "pcHandler s = HStopSend"
    and n: "sent_nil cfg reqID (\<lambda>s. s\<lparr>pcHandler := HReturned\<rparr>) s = Some (Ret s')"
    by (simp_all split: if_split_asm)
  from n show ?case by (cases rule: sent_nil_cases) (use h in \<open>auto intro: stop_sent\<close>)
qed (auto intro: p2_move.intros)

lemma job_act_move: "job_act conv cfg reqID a s = Some (Ret s') \<Longrightarrow> p2_move (announced a) (handled a s) s s'"
proof (induction conv cfg reqID a s rule: job_act.induct)
  case (1 conv cfg reqID writeOk s)
  obtain j where j: "pcJobs s = JLock j" "\<not> pcLocked s" and w: "work_on_job conv cfg writeOk j s = Ret s'"
    using 1 by (simp split: job_pc.split_asm if_split_asm)
  from w show ?case by (cases rule: work_on_job_cases) (use j in \<open>auto intro: works work_fails\<close>)
next
  case (2 conv cfg reqID s)
  then have j: "pcJobs s = JKick" and k: "Kick_begin (\<lambda>s. s\<lparr>pcJobs := JKickSend\<rparr>) end_jobs s = Ret s'"
    by (simp_all split: if_split_asm)
  from k show ?case by (cases rule: Kick_begin_cases) (use j in \<open>auto intro: job_kicks job_unlisted\<close>)
next
  case (3 conv cfg reqID s)
  then have j: "pcJobs s = JKickSend"
    and n: "sent_nil cfg reqID (\<lambda>s. end_jobs (s\<lparr>pcListed := False\<rparr>)) s = Some (Ret s')"
    by (simp_all split: if_split_asm)
  from n show ?case by (cases rule: sent_nil_cases) (use j in \<open>auto intro: job_nil_first\<close>)
qed auto

lemma p2_act_move: "p2_act conv cfg reqID a s = Some (Ret s') \<Longrightarrow> p2_move (announced a) (handled a s) s s'"
  by (auto simp: p2_act_def split: option.split_asm
      intro: start_act_move dispatch_act_move handler_act_move job_act_move)

lemma p2_step_move: "p2_step conv cfg reqID s s' \<Longrightarrow> \<exists>ann hnd. p2_move ann hnd s s'"
  by (auto elim!: p2_stepE dest: p2_act_move)

text \<open>A property that every move keeps holds in every reachable state.\<close>

lemma p2_reach_invariant:
  assumes "p2_reach conv cfg reqID s0 s" "P s0" "\<And>ann hnd s s'. P s \<Longrightarrow> p2_move ann hnd s s' \<Longrightarrow> P s'"
  shows "P s"
  using assms(1) by (induction rule: p2_reach.induct) (use assms(2,3) p2_step_move in blast)+

section \<open>Invariants\<close>

text \<open>Before the first job is accepted, \<open>HandleConnection\<close> is in its first receive or on its way out,
  which ends in a send that nobody receives.\<close>

fun leaving :: "bool \<Rightarrow> handler_pc \<Rightarrow> bool" where
  "leaving listed HFirst = listed"
| "leaving listed (HKick b) = (b \<or> listed)"
| "leaving listed (HKickSend b) = True"
| "leaving listed HStop = True"
| "leaving listed HStopSend = True"
| "leaving listed h = False"

definition before_login :: "p2_proc \<Rightarrow> bool" where
  "before_login s = ((pcHandler s = HFirst \<longrightarrow> pcJobs s = JNone) \<and>
                     (pcJobs s = JNone \<longrightarrow> leaving (pcListed s) (pcHandler s)))"

lemma before_login_move:
  assumes "p2_move ann hnd s s'" "before_login s"
  shows "before_login s'"
  using assms by (cases rule: p2_move.cases) (auto simp: before_login_def end_jobs_def after_kick_def split: if_splits)


text \<open>The lock of the connection: whoever is working under it has it, and only one of the two is.\<close>

definition one_holder :: "p2_proc \<Rightarrow> bool" where
  "one_holder s = (((\<exists>g. pcHandler s = HSubmit g) \<or> pcHandler s \<in> {HLocked, HStuck} \<longrightarrow>
                      pcLocked s \<and> pcJobs s \<noteq> JKick \<and> pcJobs s \<noteq> JKickSend) \<and>
                   (pcJobs s = JKick \<or> pcJobs s = JKickSend \<longrightarrow> pcLocked s))"

lemma one_holder_move: "p2_move ann hnd s s' \<Longrightarrow> one_holder s \<Longrightarrow> one_holder s'"
  by (cases rule: p2_move.cases, assumption)
    (auto simp: one_holder_def end_jobs_def after_kick_def split: if_splits)

text \<open>\<open>HandleConnection\<close> stops the client a second time only when it never got a job, and a session that has
  ended is no longer listed.\<close>

definition ends_unlisted :: "p2_proc \<Rightarrow> bool" where
  "ends_unlisted s = ((pcHandler s \<in> {HKick True, HKickSend True, HStop, HStopSend} \<longrightarrow> pcJobs s = JNone) \<and>
                      (pcHandler s = HFirst \<longrightarrow> pcJobs s = JNone) \<and> (pcHandler s = HReturned \<longrightarrow> \<not> pcListed s))"

lemma ends_unlisted_move: "p2_move ann hnd s s' \<Longrightarrow> ends_unlisted s \<Longrightarrow> ends_unlisted s'"
  by (cases rule: p2_move.cases, assumption)
    (auto simp: ends_unlisted_def end_jobs_def after_kick_def split: if_splits)

definition p2_inv :: "p2_proc \<Rightarrow> bool" where
  "p2_inv s = (before_login s \<and> one_holder s \<and> ends_unlisted s)"

lemma p2_inv_reach:
  assumes "p2_reach conv cfg reqID (p2_begin now c) s"
  shows "p2_inv s"
  using assms
proof (rule p2_reach_invariant)
  show "p2_inv (p2_begin now c)"
    by (simp add: p2_inv_def p2_begin_def before_login_def one_holder_def ends_unlisted_def)
qed (auto simp: p2_inv_def intro: before_login_move one_holder_move ends_unlisted_move)

lemma p2_run_reach: "p2_run conv cfg reqID as s = Some (Ret s') \<Longrightarrow> p2_reach conv cfg reqID s s'"
proof (induction as arbitrary: s' rule: rev_induct)
  case Nil
  then show ?case by (simp add: p2_start)
next
  case (snoc a as)
  have split: "p2_run conv cfg reqID (as @ [a]) s = Some (Ret s') \<Longrightarrow>
      \<exists>s1. p2_run conv cfg reqID as s = Some (Ret s1) \<and> p2_act conv cfg reqID a s1 = Some (Ret s')" for s
    by (induction as arbitrary: s) (auto split: option.split_asm go.split_asm if_split_asm)
  from split [OF snoc.prems] snoc.IH show ?case
    by (auto intro: p2_more p2_step.intros)
qed

section \<open>Properties\<close>

text \<open>
  C17: A login that fails in P2Pool mode never ends. Once \<open>HandleConnection\<close> has received a first job
  that it rejects, or \<open>nil\<close>, it neither returns nor serves the miner in any later state: \<open>Kick\<close> or
  \<open>Stop\<close> sends a \<open>nil\<close> job, and nobody but \<open>HandleConnection\<close> itself would receive it, because the job
  goroutine was not started. The deferred clean-up of the session never runs.
\<close>

theorem p2pool_failed_login_hangs:
  assumes "p2_reach conv cfg reqID (p2_begin now c) s" "pcHandler s \<noteq> HFirst" "pcJobs s = JNone"
    and "p2_reach conv cfg reqID s s'"
  shows "pcJobs s' = JNone \<and> pcHandler s' \<notin> {HFirst, HLoop, HReturned}"
proof -
  let ?P = "\<lambda>s. pcHandler s \<noteq> HFirst \<and> pcJobs s = JNone \<and> before_login s"
  have "before_login s" using p2_inv_reach [OF assms(1)] by (simp add: p2_inv_def)
  then have "?P s" using assms(2,3) by simp
  moreover have "?P t'" if "?P t" "p2_move ann hnd t t'" for ann hnd t t'
    using that(2,1) before_login_move [OF that(2)]
    by (cases rule: p2_move.cases) (auto simp: after_kick_def split: if_splits)
  ultimately have "?P s'" using p2_reach_invariant [OF assms(4), of ?P] by blast
  then show ?thesis by (auto simp: before_login_def)
qed


text \<open>A later job that the job goroutine rejects freezes the session: the goroutine kicks the connection
  with the lock held and waits in \<open>Stop\<close> for a receiver, which only it could be.\<close>

theorem p2pool_bad_job_freezes:
  assumes "p2_reach conv cfg reqID (p2_begin now c) s" "pcJobs s = JKick" "pcListed s"
    and "p2_reach conv cfg reqID s s'"
  shows "pcListed s' \<and> pcLocked s' \<and> pcJobs s' \<in> {JKick, JKickSend} \<and> pcHandler s' \<in> {HLoop, HKick False, HKickSend False}"
proof -
  let ?P = "\<lambda>s. pcListed s \<and> pcLocked s \<and> pcJobs s \<in> {JKick, JKickSend} \<and>
    pcHandler s \<in> {HLoop, HKick False, HKickSend False}"
  have inv: "p2_inv s" by (rule p2_inv_reach [OF assms(1)])
  then have "?P s"
    using assms(2,3) by (cases "pcHandler s") (auto simp: p2_inv_def one_holder_def ends_unlisted_def)
  moreover have "?P t'" if "?P t" "p2_move ann hnd t t'" for ann hnd t t'
    using that(2,1) by (cases rule: p2_move.cases) (auto simp: after_kick_def)
  ultimately show ?thesis using p2_reach_invariant [OF assms(4), of ?P] by blast
qed

lemma no_move_when_waiting:
  assumes "pcHandler s = HSubmit (pcGen s)" "pcLocked s" "pcJobs s = JLock j1" "pcStart s = SSend j2" "pcDispatch s = DJob j3"
  shows "\<not> p2_move ann hnd s s'"
  using assms by (auto elim!: p2_move.cases)

definition job_message :: "MultiClientJob \<Rightarrow> string + p2_Response" where
  "job_message j = Inr \<lparr>prID = 0, prMethod = ''job'', prJob = Some j, prResult = None, prError = None\<rparr>"

lemma dispatch_job_message [simp]: "dispatch_one (job_message j) = DJob j"
  by (simp add: dispatch_one_def job_message_def)

text \<open>
  C16: A submitted share can stop the whole session. \<open>HandleConnection\<close> holds the lock of the
  connection while it waits for P2Pool's answer. When P2Pool sends three jobs ahead of the answer,
  the job goroutine waits for the lock with the first, \<open>Start\<close> for the job goroutine with the second
  and \<open>dispatchJobs\<close> for \<open>Start\<close> with the third, so that the answer is never read: no goroutine of the
  session can ever take another step.
\<close>

theorem p2pool_submit_deadlock:
  assumes "pcHandler s = HSubmit (pcGen s)" "pcLocked s" "pcJobs s = JWait" "pcStart s = SRecv" "pcDispatch s = DRead"
  shows "\<exists>s'. p2_run conv cfg reqID
      [DiReads (job_message j1), StTakesJob t1, StForwards, DiReads (job_message j2), StTakesJob t2, DiReads (job_message j3)] s
        = Some (Ret s') \<and> (\<forall>s''. \<not> p2_step conv cfg reqID s' s'')"
proof -
  let ?s = "s\<lparr>pcLast := t2, pcJobs := JLock j1, pcStart := SSend j2, pcDispatch := DJob j3\<rparr>"
  have "p2_run conv cfg reqID
      [DiReads (job_message j1), StTakesJob t1, StForwards, DiReads (job_message j2), StTakesJob t2, DiReads (job_message j3)] s
      = Some (Ret ?s)"
    using assms by (simp add: p2_act_def when_ok_def send_job_def)
  moreover have "\<not> p2_step conv cfg reqID ?s s''" for s''
    using no_move_when_waiting [of ?s j1 j2 j3 _ _ s''] assms p2_step_move by fastforce
  ultimately show ?thesis by blast
qed

text \<open>
  C18: The connection to P2Pool outlives the session. When a miner disconnects, \<open>Kick\<close> stops the
  client and \<open>HandleConnection\<close> returns; but \<open>Start\<close>, which is documented to return when the client is
  stopped, takes the closed connection for a failure, connects again within the time-out, and is left
  with an open connection and a job that nobody will ever receive, in every later state.
\<close>

theorem p2pool_link_outlives_session:
  assumes "pcHandler s = HLoop" "pcJobs s = JWait" "pcStart s = SRecv" "pcDispatch s = DRead" "pcListed s" "pcLink s = Some True"
    and "\<not> time_Sub now (pcLast s) > TOTAL_TIMEOUT"
  shows "\<exists>s1 s'. p2_run conv cfg reqID [HaReadFails, HaKicks, HaNilSent] s = Some (Ret s1) \<and>
      pcHandler s1 = HReturned \<and> \<not> pcListed s1 \<and> pcLink s1 = Some False \<and>
      p2_run conv cfg reqID [DiReads (Inl e), StSeesClosed, StRetries now, StConnected j, StTakesJob t] s1 = Some (Ret s') \<and>
      pcLink s' = Some True \<and>
      (\<forall>s''. p2_reach conv cfg reqID s' s'' \<longrightarrow> pcLink s'' = Some True \<and> pcStart s'' = SSend j)"
proof -
  let ?s1 = "s\<lparr>pcListed := False, pcLink := Some False, pcHandler := HReturned, pcJobs := JEnded\<rparr>"
  let ?s' = "?s1\<lparr>pcLink := Some True, pcGen := Suc (pcGen s), pcLast := t, pcStart := SSend j, pcDispatch := DRead\<rparr>"
  have one: "p2_run conv cfg reqID [HaReadFails, HaKicks, HaNilSent] s = Some (Ret ?s1)"
    using assms(1-6)
    by (simp add: p2_act_def when_ok_def send_job_def sent_nil_def Kick_begin_def Stop_close_def after_kick_def)
  have two: "p2_run conv cfg reqID [DiReads (Inl e), StSeesClosed, StRetries now, StConnected j, StTakesJob t] ?s1 = Some (Ret ?s')"
    using assms(1-6) assms(7) by (simp add: p2_act_def when_ok_def dispatch_one_def)
  let ?P = "\<lambda>s. pcLink s = Some True \<and> pcStart s = SSend j \<and> pcHandler s = HReturned \<and> pcJobs s = JEnded"
  have keep: "?P s''" if "p2_reach conv cfg reqID ?s' s''" for s''
  proof (rule p2_reach_invariant [OF that, of ?P])
    show "?P t'" if "?P t" "p2_move ann hnd t t'" for ann hnd t t'
      using that(2,1) by (cases rule: p2_move.cases) auto
  qed simp
  show ?thesis
    by (intro exI [of _ ?s1] exI [of _ ?s'] conjI allI impI one two) (use keep in auto)
qed

text \<open>The actions without a connection to P2Pool.\<close>

fun no_dial_succeeds :: "p2_action \<Rightarrow> bool" where
  "no_dial_succeeds StLoginFails = False"
| "no_dial_succeeds StNoJob = False"
| "no_dial_succeeds (StConnected j) = False"
| "no_dial_succeeds a = True"

definition unreachable :: "instant \<Rightarrow> p2_proc \<Rightarrow> bool" where
  "unreachable now s =
     (pcHandler s = HFirst \<and> pcJobs s = JNone \<and> pcStart s \<in> {SDial, SRedo, SKick} \<and> pcDispatch s = DNone \<and>
      pcLink s = None \<and> pcListed s \<and> pcLast s = now)"

lemma unreachable_act:
  assumes "unreachable now s" "no_dial_succeeds a" "p2_act conv cfg reqID a s = Some r"
  shows "(\<exists>s'. r = Ret s' \<and> unreachable now s') \<or> r = Panic NilDereference"
  using assms
  by (cases a) (auto simp: unreachable_def p2_act_def when_ok_def Kick_begin_def Stop_close_def split: if_splits)

lemma unreachable_run:
  assumes "unreachable now s" "\<forall>a \<in> set as. no_dial_succeeds a" "p2_run conv cfg reqID as s = Some r"
  shows "(\<exists>s'. r = Ret s' \<and> unreachable now s') \<or> r = Panic NilDereference"
  using assms
proof (induction as arbitrary: s)
  case (Cons a as)
  obtain r1 where a: "p2_act conv cfg reqID a s = Some r1" using Cons.prems(3) by (auto split: option.split_asm)
  show ?case
    using unreachable_act [OF Cons.prems(1) _ a] Cons.prems Cons.IH a by (auto split: go.split_asm if_split_asm)
qed auto

lemma p2_run_append:
  "p2_run conv cfg reqID as s = Some (Ret s') \<Longrightarrow> p2_run conv cfg reqID (as @ bs) s = p2_run conv cfg reqID bs s'"
  by (induction as arbitrary: s) (auto split: option.split_asm go.split_asm if_split_asm)

text \<open>
  C15: Without P2Pool the slave crashes. As long as no dial to P2Pool succeeds, a session stays in its
  first receive; when the attempts have failed for longer than the time-out, \<open>Start\<close> returns and the
  session is kicked, whereupon \<open>Stop\<close> calls \<open>Close\<close> on the connection that was never made: a nil
  dereference that ends the process for all miners. From the moment \<open>Start\<close> has returned no action of
  this session leads anywhere else.
\<close>

theorem p2pool_unreachable_crashes:
  assumes "\<forall>a \<in> set as. no_dial_succeeds a" "p2_run conv cfg reqID as (p2_begin now c) = Some (Ret s)"
  shows "pcHandler s = HFirst \<and>
    (pcStart s = SRedo \<and> time_Sub t now > TOTAL_TIMEOUT \<longrightarrow>
       p2_run conv cfg reqID (as @ [StReturns t, StKicks]) (p2_begin now c) = Some (Panic NilDereference)) \<and>
    (pcStart s = SKick \<longrightarrow> (\<forall>a r. p2_act conv cfg reqID a s = Some r \<longrightarrow> r = Panic NilDereference))"
proof -
  have u: "unreachable now s"
    using unreachable_run [OF _ assms] by (auto simp: unreachable_def p2_begin_def)
  have "r = Panic NilDereference" if "pcStart s = SKick" "p2_act conv cfg reqID a s = Some r" for a r
    using that u by (cases a) (auto simp: unreachable_def p2_act_def when_ok_def Kick_begin_def Stop_close_def split: if_splits)
  then show ?thesis
    using u p2_run_append [OF assms(2)]
    by (auto simp: unreachable_def p2_act_def when_ok_def Kick_begin_def Stop_close_def)
qed

section \<open>The way of the jobs\<close>

text \<open>A message is under way from P2Pool only while \<open>Start\<close> is receiving or forwarding.\<close>

definition link_state :: "p2_proc \<Rightarrow> bool" where
  "link_state s = (case pcStart s of
     SDial \<Rightarrow> pcDispatch s = DNone
   | SRecv \<Rightarrow> pcDispatch s \<noteq> DNone
   | SSend j \<Rightarrow> pcDispatch s \<noteq> DNone
   | _ \<Rightarrow> pcDispatch s \<in> {DNone, DEnd, DSilent})"

fun handled_run :: "(f64 \<Rightarrow> u64) \<Rightarrow> Config \<Rightarrow> u64 \<Rightarrow> p2_action list \<Rightarrow> p2_proc \<Rightarrow> MultiClientJob list" where
  "handled_run conv cfg reqID [] s = []"
| "handled_run conv cfg reqID (a # as) s =
     (case p2_act conv cfg reqID a s of
        Some (Ret s') \<Rightarrow> handled a s @ handled_run conv cfg reqID as s'
      | _ \<Rightarrow> [])"

definition flow_inv :: "p2_proc \<Rightarrow> bool" where
  "flow_inv s = (link_state s \<and> (pcHandler s = HFirst \<longrightarrow> pcJobs s = JNone))"

lemma p2_move_flows:
  assumes "p2_move ann hnd s s'" "flow_inv s"
  shows "under_way s @ ann = hnd @ under_way s' \<and> flow_inv s'"
  using assms
  by (cases rule: p2_move.cases)
    (auto simp: flow_inv_def link_state_def under_way_def end_jobs_def after_kick_def dispatch_one_def
      split: start_pc.splits dispatch_pc.splits option.splits sum.splits if_splits)

lemma p2_run_flows:
  assumes "p2_run conv cfg reqID as s = Some (Ret s')" "flow_inv s"
  shows "under_way s @ concat (map announced as) = handled_run conv cfg reqID as s @ under_way s'"
  using assms
proof (induction as arbitrary: s)
  case (Cons a as)
  obtain s1 where a: "p2_act conv cfg reqID a s = Some (Ret s1)" and r: "p2_run conv cfg reqID as s1 = Some (Ret s')"
    using Cons.prems(1) by (auto split: option.split_asm go.split_asm if_split_asm)
  have f: "under_way s @ announced a = handled a s @ under_way s1" "flow_inv s1"
    using p2_move_flows [OF p2_act_move [OF a] Cons.prems(2)] by auto
  have "under_way s @ announced a @ concat (map announced as) = handled a s @ under_way s1 @ concat (map announced as)"
    using f(1) by (metis append.assoc)
  with Cons.IH [OF r f(2)] a show ?case by simp
qed simp

text \<open>
  C14: P2Pool's jobs reach the miner in order. In every run of the four goroutines, what the session
  has worked on, followed by what is under way in the hands of a goroutine, is the sequence of jobs
  P2Pool has announced, over all its connections: no job is lost, repeated or overtaken, and at most
  three are under way.
\<close>

theorem p2pool_jobs_in_order:
  assumes "p2_run conv cfg reqID as (p2_begin now c) = Some (Ret s)"
  shows "handled_run conv cfg reqID as (p2_begin now c) @ under_way s = concat (map announced as) \<and> length (under_way s) \<le> 3"
proof -
  have "flow_inv (p2_begin now c)" "under_way (p2_begin now c) = []"
    by (simp_all add: flow_inv_def link_state_def under_way_def p2_begin_def)
  then have "handled_run conv cfg reqID as (p2_begin now c) @ under_way s = concat (map announced as)"
    using p2_run_flows [OF assms] by simp
  moreover have "length (under_way s) \<le> 3"
    by (auto simp: under_way_def split: job_pc.split start_pc.split dispatch_pc.split)
  ultimately show ?thesis ..
qed


section \<open>Witnesses\<close>

definition sample_begin :: p2_proc where
  "sample_begin = p2_begin 0 (accept_conn True 3)"

abbreviation good_job :: MultiClientJob where
  "good_job \<equiv> sample_p2_job [0, 0, 1, 0]"

definition bad_job :: MultiClientJob where
  "bad_job = good_job\<lparr>pjBlob := ''zz''\<rparr>"

text \<open>A session that has got its first job.\<close>

definition sample_login :: "p2_action list" where
  "sample_login = [StConnected good_job, StTakesJob 1, StForwards]"

lemma sample_first_job:
  "\<exists>sent ses. p2_first_job sample_Config 1 (Some good_job) (pcSession sample_begin) = Ret (True, sent, ses) \<and> Nicehash (psConn ses) = False"
proof -
  have "target_diff (pjTarget good_job) = Ret (Some 65535)"
    by (simp add: target_diff_def sample_p2_job_def hex_roundtrip ShortDiffToDiff_value)
  then show ?thesis
    by (simp add: p2_first_job_def Let_def sample_p2_job_def hex_roundtrip accept_conn_def sample_begin_def p2_begin_def)
qed

lemma sample_logged_in:
  obtains s where "p2_run conv sample_Config 1 sample_login sample_begin = Some (Ret s)"
    "pcHandler s = HLoop" "pcJobs s = JWait" "pcStart s = SRecv" "pcDispatch s = DRead" "pcListed s" "pcLink s = Some True"
    "\<not> pcLocked s" "pcLast s = 1" "pcGen s = 1" "Nicehash (psConn (pcSession s)) = False"
proof -
  obtain sent ses where f: "p2_first_job sample_Config 1 (Some good_job) (pcSession sample_begin) = Ret (True, sent, ses)"
    "Nicehash (psConn ses) = False" using sample_first_job by blast
  have p: "pcSession sample_begin = pcSession (p2_begin 0 (accept_conn True 3))" by (simp add: sample_begin_def)
  show ?thesis
    using f
    by (intro that [of "sample_begin\<lparr>pcSession := ses, pcFirstTarget := pjTarget good_job, pcLink := Some True, pcGen := 1,
        pcLast := 1, pcHandler := HLoop, pcJobs := JWait, pcStart := SRecv, pcDispatch := DRead\<rparr>"])
      (simp_all add: sample_login_def p2_act_def when_ok_def send_job_def take_first_def sample_begin_def p2_begin_def)
qed

lemma p2pool_failed_login_hangs_witness:
  "\<exists>s s'. p2_run (\<lambda>_. 0) sample_Config 1 [StConnected bad_job, StTakesJob 1, StForwards] sample_begin = Some (Ret s) \<and>
     p2_run (\<lambda>_. 0) sample_Config 1 [HaKicks] s = Some (Ret s') \<and> pcHandler s' \<noteq> HReturned"
proof -
  let ?run = "p2_run (\<lambda>_. 0) sample_Config 1"
  have z: "hex_DecodeString ''zz'' = None" by (simp add: hex_val_def Let_def)
  obtain s where s: "?run [StConnected bad_job, StTakesJob 1, StForwards] sample_begin = Some (Ret s)"
      "pcHandler s = HKick False" "pcJobs s = JNone" "pcListed s" "pcLink s = Some True"
    using z by (simp add: p2_act_def when_ok_def send_job_def take_first_def sample_begin_def p2_begin_def p2_first_job_def
        Let_def bad_job_def)
  obtain s' where s': "?run [HaKicks] s = Some (Ret s')"
    using s(2-) by (simp add: p2_act_def Kick_begin_def Stop_close_def)
  from p2pool_failed_login_hangs [OF p2_run_reach [OF s(1) [unfolded sample_begin_def]] _ s(3) p2_run_reach [OF s']] s s'
  show ?thesis by auto
qed

lemma p2pool_bad_job_freezes_witness:
  "\<exists>s s'. p2_run (\<lambda>_. 0) sample_Config 1 (sample_login @ [DiReads (job_message bad_job), StTakesJob 2, StForwards, JoLocks True])
       sample_begin = Some (Ret s) \<and> p2_run (\<lambda>_. 0) sample_Config 1 [JoKicks] s = Some (Ret s') \<and> pcLocked s' \<and> pcListed s'"
proof -
  let ?run = "p2_run (\<lambda>_. 0) sample_Config 1" and ?as = "[DiReads (job_message bad_job), StTakesJob 2, StForwards, JoLocks True]"
  have z: "hex_DecodeString ''zz'' = None" by (simp add: hex_val_def Let_def)
  obtain s0 where s0: "?run sample_login sample_begin = Some (Ret s0)" "pcHandler s0 = HLoop" "pcJobs s0 = JWait"
      "pcStart s0 = SRecv" "pcDispatch s0 = DRead" "pcListed s0" "pcLink s0 = Some True" "\<not> pcLocked s0"
    using sample_logged_in by metis
  obtain s where s: "?run ?as s0 = Some (Ret s)" "pcJobs s = JKick" "pcListed s" "pcLink s = Some True"
    using s0(2-) z by (simp add: p2_act_def when_ok_def send_job_def work_on_job_def p2_next_job_def Let_def bad_job_def)
  have r: "?run (sample_login @ ?as) sample_begin = Some (Ret s)" using p2_run_append [OF s0(1)] s(1) by simp
  obtain s' where s': "?run [JoKicks] s = Some (Ret s')"
    using s(2-) by (simp add: p2_act_def Kick_begin_def Stop_close_def)
  from p2pool_bad_job_freezes [OF p2_run_reach [OF r [unfolded sample_begin_def]] s(2,3) p2_run_reach [OF s']] r s'
  show ?thesis by auto
qed

lemma p2pool_submit_deadlock_witness:
  "\<exists>s s'. p2_run (\<lambda>_. 0) sample_Config 1 (sample_login @ [HaLocks, HaSubmits]) sample_begin = Some (Ret s) \<and>
     p2_run (\<lambda>_. 0) sample_Config 1 [DiReads (job_message good_job), StTakesJob 2, StForwards, DiReads (job_message good_job),
       StTakesJob 3, DiReads (job_message good_job)] s = Some (Ret s') \<and>
     (\<forall>s''. \<not> p2_step (\<lambda>_. 0) sample_Config 1 s' s'')"
proof -
  let ?run = "p2_run (\<lambda>_. 0) sample_Config 1"
  obtain s0 where s0: "?run sample_login sample_begin = Some (Ret s0)" "pcHandler s0 = HLoop" "pcJobs s0 = JWait"
      "pcStart s0 = SRecv" "pcDispatch s0 = DRead" "\<not> pcLocked s0"
    using sample_logged_in by metis
  obtain s where s: "?run [HaLocks, HaSubmits] s0 = Some (Ret s)" "pcHandler s = HSubmit (pcGen s)" "pcLocked s"
      "pcJobs s = JWait" "pcStart s = SRecv" "pcDispatch s = DRead"
    using s0(2-) by (simp add: p2_act_def when_ok_def)
  from p2pool_submit_deadlock [OF s(2-), of "\<lambda>_. 0" sample_Config 1 good_job 2 good_job 3 good_job]
    p2_run_append [OF s0(1), of "[HaLocks, HaSubmits]"] s(1)
  show ?thesis by auto
qed

lemma p2pool_link_outlives_session_witness:
  "\<exists>s s1 s'. p2_run (\<lambda>_. 0) sample_Config 1 sample_login sample_begin = Some (Ret s) \<and>
     p2_run (\<lambda>_. 0) sample_Config 1 [HaReadFails, HaKicks, HaNilSent] s = Some (Ret s1) \<and> pcHandler s1 = HReturned \<and>
     p2_run (\<lambda>_. 0) sample_Config 1 [DiReads (Inl ''closed''), StSeesClosed, StRetries 2, StConnected good_job, StTakesJob 3] s1
       = Some (Ret s') \<and> pcLink s' = Some True"
proof -
  let ?run = "p2_run (\<lambda>_. 0) sample_Config 1"
  obtain s where s: "?run sample_login sample_begin = Some (Ret s)" "pcHandler s = HLoop" "pcJobs s = JWait"
      "pcStart s = SRecv" "pcDispatch s = DRead" "pcListed s" "pcLink s = Some True" "pcLast s = 1"
    using sample_logged_in by metis
  have "\<not> time_Sub 2 (pcLast s) > TOTAL_TIMEOUT" using s(8) by (simp add: time_Sub_def TOTAL_TIMEOUT_def Second_def)
  from p2pool_link_outlives_session [OF s(2-7) this, of "\<lambda>_. 0" sample_Config 1 "''closed''" good_job 3] s(1)
  show ?thesis by blast
qed

lemma p2pool_unreachable_crashes_witness:
  "p2_run (\<lambda>_. 0) sample_Config 1 [StDialFails, StReturns (26 * Second), StKicks] (p2_begin 0 (accept_conn True 3))
     = Some (Panic NilDereference)"
proof -
  obtain s where s: "p2_run (\<lambda>_. 0) sample_Config 1 [StDialFails] (p2_begin 0 (accept_conn True 3)) = Some (Ret s)"
      "pcStart s = SRedo" by (simp add: p2_act_def when_ok_def p2_begin_def)
  have "time_Sub (26 * Second) 0 > TOTAL_TIMEOUT" by (simp add: time_Sub_def TOTAL_TIMEOUT_def Second_def)
  with p2pool_unreachable_crashes [OF _ s(1), of "26 * Second"] s(2) show ?thesis by simp
qed

lemma p2pool_jobs_in_order_witness:
  "\<exists>s. p2_run (\<lambda>_. 0) sample_Config 1 (sample_login @ [DiReads (job_message bad_job)]) sample_begin = Some (Ret s) \<and>
     handled_run (\<lambda>_. 0) sample_Config 1 (sample_login @ [DiReads (job_message bad_job)]) sample_begin @ under_way s
       = [good_job, bad_job]"
proof -
  let ?run = "p2_run (\<lambda>_. 0) sample_Config 1"
  obtain s0 where s0: "?run sample_login sample_begin = Some (Ret s0)" "pcDispatch s0 = DRead"
    using sample_logged_in by metis
  obtain s where s: "?run [DiReads (job_message bad_job)] s0 = Some (Ret s)"
    using s0(2) by (simp add: p2_act_def when_ok_def)
  have r: "?run (sample_login @ [DiReads (job_message bad_job)]) sample_begin = Some (Ret s)"
    using p2_run_append [OF s0(1)] s by simp
  from p2pool_jobs_in_order [OF r [unfolded sample_begin_def]] r show ?thesis
    by (simp add: sample_login_def sample_begin_def)
qed

end
