(* ===== verification/P2pool_Reader.thy ===== *)
theory P2pool_Reader
  imports P2pool Requests
begin

text \<open>
  How the P2Pool client reads: \<open>readJSON\<close> and the loop of \<open>dispatchJobs\<close> in \<^verbatim>\<open>src/p2pool/client.go\<close>,
  over the segments a socket delivers. Unlike the stratum server, \<open>dispatchJobs\<close> keeps one buffered
  reader for all messages; \<open>Connect\<close> uses another one for the login response.
\<close>

section \<open>One reader for many lines\<close>

text \<open>\<open>ReadLine\<close> as in \<open>read_line\<close>, with what the buffer holds afterwards.\<close>

function read_line_buf :: "nat \<Rightarrow> string \<Rightarrow> string list \<Rightarrow> (read_error + string) \<times> string \<times> string list" where
  "read_line_buf sz buf segs =
     (if newline \<in> set buf
      then (Inr (chop (takeWhile (\<lambda>c. c \<noteq> newline) buf)), tl (dropWhile (\<lambda>c. c \<noteq> newline) buf), segs)
      else if sz \<le> length buf then (Inl OversizeRequest, [], segs)
      else case segs of
             [] \<Rightarrow> (if buf = [] then Inl ReadFailed else Inr buf, [], [])
           | s # ss \<Rightarrow> read_line_buf sz (buf @ take (sz - length buf) s) (next_segs (sz - length buf) s ss))"
  by pat_completeness auto
termination
  by (relation "measure (\<lambda>(sz, buf, segs). \<Sum>s \<leftarrow> segs. Suc (length s))") (auto simp: next_segs_def)

declare read_line_buf.simps [simp del]

text \<open>The one-shot reader of the stratum server reads the same line.\<close>

lemma read_line_buf_line: "fst (read_line_buf sz buf segs) = fst (read_line sz buf segs)"
proof (induction sz buf segs rule: read_line_buf.induct)
  case (1 sz buf segs)
  show ?case
  proof (cases "newline \<in> set buf \<or> sz \<le> length buf \<or> segs = []")
    case True
    then show ?thesis by (subst read_line_buf.simps, subst read_line.simps) auto
  next
    case False
    then obtain s ss where segs: "segs = s # ss" by (cases segs) auto
    from "1" [OF _ _ segs] False show ?thesis
      by (subst read_line_buf.simps, subst read_line.simps) (simp add: segs)
  qed
qed

definition pending :: "string \<Rightarrow> string list \<Rightarrow> nat" where
  "pending buf segs = length buf + left segs"

lemma left_simps [simp]: "left [] = 0" "left (s # ss) = Suc (length s) + left ss"
  by (simp_all add: left_def)

lemma pending_next:
  "length buf < sz \<Longrightarrow> pending (buf @ take (sz - length buf) s) (next_segs (sz - length buf) s ss) \<le> pending buf (s # ss)"
  by (auto simp: pending_def next_segs_def)

lemma read_line_buf_pending:
  "read_line_buf sz buf segs = (Inr d, buf', segs') \<Longrightarrow> pending buf' segs' < pending buf segs"
proof (induction sz buf segs rule: read_line_buf.induct)
  case (1 sz buf segs)
  show ?case
  proof (cases "newline \<in> set buf")
    case True
    then have "dropWhile (\<lambda>c. c \<noteq> newline) buf \<noteq> []" by (auto simp: dropWhile_eq_Nil_conv)
    moreover have "length (dropWhile (\<lambda>c. c \<noteq> newline) buf) \<le> length buf" by (rule length_dropWhile_le)
    ultimately have "length (tl (dropWhile (\<lambda>c. c \<noteq> newline) buf)) < length buf"
      by (metis One_nat_def diff_less length_greater_0_conv length_tl lessI less_le_trans)
    with True "1.prems" show ?thesis by (subst (asm) read_line_buf.simps) (auto simp: pending_def)
  next
    case nl: False
    show ?thesis
    proof (cases "sz \<le> length buf \<or> segs = []")
      case True
      with nl "1.prems" show ?thesis by (subst (asm) read_line_buf.simps) (auto simp: pending_def split: if_split_asm)
    next
      case False
      then obtain s ss where segs: "segs = s # ss" by (cases segs) auto
      have eq: "read_line_buf sz (buf @ take (sz - length buf) s) (next_segs (sz - length buf) s ss) = (Inr d, buf', segs')"
        using "1.prems" nl False by (subst (asm) read_line_buf.simps) (simp add: segs)
      have "pending buf' segs' < pending (buf @ take (sz - length buf) s) (next_segs (sz - length buf) s ss)"
        using False by (intro "1.IH" [OF nl _ segs eq]) simp
      also have "\<dots> \<le> pending buf segs" unfolding segs by (rule pending_next) (use False in simp)
      finally show ?thesis .
    qed
  qed
qed

section \<open>Messages\<close>

text \<open>\<open>readJSON\<close> on a line, with the texts of its errors, and the messages that \<open>dispatchJobs\<close> reads until
  the first error.\<close>

definition readJSON :: "(string \<Rightarrow> p2_Response option) \<Rightarrow> read_error + string \<Rightarrow> string + p2_Response" where
  "readJSON unmarshal r =
     (case r of
        Inl OversizeRequest \<Rightarrow> Inl ''oversize request''
      | Inl ReadFailed \<Rightarrow> Inl ''EOF''
      | Inr data \<Rightarrow> (case unmarshal data of None \<Rightarrow> Inl ''json'' | Some m \<Rightarrow> Inr m))"

function read_lines :: "nat \<Rightarrow> string \<Rightarrow> string list \<Rightarrow> (read_error + string) list" where
  "read_lines sz buf segs =
     (case read_line_buf sz buf segs of
        (Inl e, _) \<Rightarrow> [Inl e]
      | (Inr d, buf', segs') \<Rightarrow> Inr d # read_lines sz buf' segs')"
  by pat_completeness auto
termination
  by (relation "measure (\<lambda>(sz, buf, segs). pending buf segs)") (auto dest: read_line_buf_pending [OF sym])

declare read_lines.simps [simp del]

definition dispatch_stream ::
  "(string \<Rightarrow> p2_Response option) \<Rightarrow> MultiClientJob \<Rightarrow> string list \<Rightarrow> dispatched list \<times> bool" where
  "dispatch_stream unmarshal firstJob segs =
     dispatchJobs firstJob (map (readJSON unmarshal) (read_lines MAX_REQUEST_SIZE [] segs))"

text \<open>The reader of the login response.\<close>

definition Connect_reads :: "(string \<Rightarrow> p2_loginResponse option) \<Rightarrow> string list \<Rightarrow> p2_loginResponse option \<times> string list" where
  "Connect_reads unmarshal segs = ReadJSON unmarshal segs"

section \<open>The segmentation does not matter\<close>

lemma first_newline:
  "a @ newline # r = b @ newline # r' \<Longrightarrow> newline \<notin> set a \<Longrightarrow> newline \<notin> set b \<Longrightarrow> a = b \<and> r = r'"
proof (induction a arbitrary: b)
  case Nil
  then show ?case by (cases b) auto
next
  case (Cons c a)
  then show ?case by (cases b) auto
qed

lemma read_line_buf_step:
  assumes "buf @ concat segs = l @ newline # rest" "newline \<notin> set l" "length l < sz" "length buf \<le> sz"
  shows "\<exists>buf' segs'. read_line_buf sz buf segs = (Inr (chop l), buf', segs') \<and> buf' @ concat segs' = rest \<and> length buf' \<le> sz"
  using assms
proof (induction sz buf segs rule: read_line_buf.induct)
  case (1 sz buf segs)
  show ?case
  proof (cases "newline \<in> set buf")
    case True
    then obtain b r where b: "buf = b @ newline # r" "newline \<notin> set b" by (meson split_list_first)
    then have "b @ newline # (r @ concat segs) = l @ newline # rest" using "1.prems"(1) by simp
    then have "b = l" using b(2) "1.prems"(2) first_newline by blast
    then have buf: "buf = l @ newline # r" by (simp add: b(1))
    have "takeWhile (\<lambda>c. c \<noteq> newline) (l @ newline # r) = l"
      "dropWhile (\<lambda>c. c \<noteq> newline) (l @ newline # r) = newline # r"
      using "1.prems"(2) by (induction l) auto
    then show ?thesis using True "1.prems"(1,4) buf by (subst read_line_buf.simps) auto
  next
    case nl: False
    have short: "length buf \<le> length l"
    proof (rule ccontr)
      assume "\<not> length buf \<le> length l"
      then have "buf ! length l = newline" using "1.prems"(1) by (metis nth_append nth_append_length not_le)
      with nl \<open>\<not> length buf \<le> length l\<close> show False by (metis not_le nth_mem)
    qed
    then have lt: "\<not> sz \<le> length buf" using "1.prems"(3) by simp
    have "segs \<noteq> []"
    proof
      assume "segs = []"
      with "1.prems"(1) nl show False by auto
    qed
    then obtain s ss where segs: "segs = s # ss" by (cases segs) auto
    let ?b = "buf @ take (sz - length buf) s" and ?s = "next_segs (sz - length buf) s ss"
    have "?b @ concat ?s = l @ newline # rest"
    proof -
      have "take n s @ concat (next_segs n s ss) = concat (s # ss)" for n
        by (simp add: next_segs_def append_assoc [symmetric] del: append_assoc)
      then show ?thesis using "1.prems"(1) by (simp add: segs)
    qed
    moreover have "length ?b \<le> sz" using lt by simp
    ultimately obtain buf' segs' where "read_line_buf sz ?b ?s = (Inr (chop l), buf', segs')" "buf' @ concat segs' = rest" "length buf' \<le> sz"
      using "1.IH" [OF nl lt segs] "1.prems"(2,3) by blast
    then show ?thesis using nl lt by (subst read_line_buf.simps) (simp add: segs)
  qed
qed

lemma read_line_buf_end: "concat segs = [] \<Longrightarrow> 0 < sz \<Longrightarrow> fst (read_line_buf sz [] segs) = Inl ReadFailed"
proof (induction segs)
  case Nil
  then show ?case by (subst read_line_buf.simps) simp
next
  case (Cons s ss)
  then show ?case by (subst read_line_buf.simps) (simp add: next_segs_def)
qed

lemma read_lines_all:
  assumes "buf @ concat segs = concat (map (\<lambda>l. l @ [newline]) ls)" "\<forall>l \<in> set ls. newline \<notin> set l \<and> length l < sz"
    and "length buf \<le> sz" "0 < sz"
  shows "read_lines sz buf segs = map (\<lambda>l. Inr (chop l)) ls @ [Inl ReadFailed]"
  using assms
proof (induction ls arbitrary: buf segs)
  case Nil
  then have "fst (read_line_buf sz buf segs) = Inl ReadFailed" using read_line_buf_end by simp
  then obtain x where "read_line_buf sz buf segs = (Inl ReadFailed, x)" by (metis prod.collapse)
  then show ?case by (subst read_lines.simps) simp
next
  case (Cons l ls)
  have "buf @ concat segs = l @ newline # concat (map (\<lambda>l. l @ [newline]) ls)" using Cons.prems(1) by simp
  then obtain buf' segs' where s: "read_line_buf sz buf segs = (Inr (chop l), buf', segs')"
    "buf' @ concat segs' = concat (map (\<lambda>l. l @ [newline]) ls)" "length buf' \<le> sz"
    using read_line_buf_step [of buf segs l _ sz] Cons.prems by (metis list.set_intros(1))
  from Cons.IH [OF s(2) _ s(3) assms(4)] Cons.prems(2) s(1) show ?case
    by (subst read_lines.simps) simp
qed

lemma read_lines_dispatched:
  assumes "concat segs = concat (map (\<lambda>l. l @ [newline]) ls)" "\<forall>l \<in> set ls. newline \<notin> set l \<and> length l < MAX_REQUEST_SIZE"
  shows "dispatch_stream unmarshal firstJob segs =
    dispatchJobs firstJob (map (\<lambda>l. readJSON unmarshal (Inr (chop l))) ls @ [Inl ''EOF''])"
proof -
  have "read_lines MAX_REQUEST_SIZE [] segs = map (\<lambda>l. Inr (chop l)) ls @ [Inl ReadFailed]"
    using assms by (intro read_lines_all) (simp_all add: MAX_REQUEST_SIZE_def)
  then show ?thesis by (simp add: dispatch_stream_def readJSON_def comp_def)
qed

section \<open>Behind the login response\<close>

text \<open>The reader of the login response takes its line from the segments it comes in, and with it what
  the last of these segments has behind the line.\<close>

lemma read_line_ahead:
  assumes "newline \<notin> set (buf @ concat ps @ p)" "length buf + length (concat ps) + length p + length rest < sz"
  shows "read_line sz buf (ps @ (p @ newline # rest) # ss) = (Inr (chop (buf @ concat ps @ p)), ss)"
  using assms
proof (induction ps arbitrary: buf)
  case Nil
  let ?b = "buf @ p @ newline # rest"
  have "takeWhile (\<lambda>c. c \<noteq> newline) ((buf @ p) @ newline # rest) = buf @ p"
    using Nil.prems(1) by (subst takeWhile_append2) auto
  then have "read_line sz ?b ss = (Inr (chop (buf @ p)), ss)" by (subst read_line.simps) simp
  moreover have fits: "Suc (length p + length rest) \<le> sz - length buf" using Nil.prems(2) by simp
  then have "read_line sz buf ((p @ newline # rest) # ss) = read_line sz ?b ss"
    using Nil.prems fits by (subst read_line.simps) (simp add: next_segs_def)
  ultimately show ?case by simp
next
  case (Cons s ps)
  have fits: "length s \<le> sz - length buf" using Cons.prems(2) by simp
  have "read_line sz buf ((s # ps) @ (p @ newline # rest) # ss) = read_line sz (buf @ s) (ps @ (p @ newline # rest) # ss)"
    using Cons.prems fits by (subst read_line.simps) (simp add: next_segs_def)
  with Cons.IH [of "buf @ s"] Cons.prems show ?case by simp
qed

text \<open>
  C27: which of P2Pool's messages are read. \<open>Connect\<close> reads the login response, in however many
  segments it comes, with a buffered reader of its own and drops that reader: what the last of these
  segments holds behind the response is lost. \<open>dispatchJobs\<close> keeps one buffered reader for the rest of
  the connection: of the lines in all later segments that are shorter than the buffer none is lost or
  split, however the socket cuts them up; it handles them in order, as if each came alone, and then
  the end of the stream.
\<close>

theorem p2pool_messages_all_read:
  assumes "newline \<notin> set (concat ps @ p)" "length (concat ps) + length p + length rest < MAX_REQUEST_SIZE"
    and "concat segs = concat (map (\<lambda>l. l @ [newline]) ls)" "\<forall>l \<in> set ls. newline \<notin> set l \<and> length l < MAX_REQUEST_SIZE"
  shows "fst (Connect_reads unmarshalLogin (ps @ (p @ newline # rest) # segs)) = unmarshalLogin (chop (concat ps @ p)) \<and>
    dispatch_stream unmarshal firstJob (snd (Connect_reads unmarshalLogin (ps @ (p @ newline # rest) # segs))) =
    dispatchJobs firstJob (map (\<lambda>l. readJSON unmarshal (Inr (chop l))) ls @ [Inl ''EOF''])"
proof -
  have "read_line MAX_REQUEST_SIZE [] (ps @ (p @ newline # rest) # segs) = (Inr (chop (concat ps @ p)), segs)"
    using read_line_ahead [of "[]" ps p rest MAX_REQUEST_SIZE segs] assms(1,2) by simp
  then have "Connect_reads unmarshalLogin (ps @ (p @ newline # rest) # segs) = (unmarshalLogin (chop (concat ps @ p)), segs)"
    by (simp add: Connect_reads_def ReadJSON_def)
  with read_lines_dispatched [OF assms(3,4)] show ?thesis by simp
qed

text \<open>The login response in two segments, a message behind it that is lost, and two more in two segments.\<close>

lemma p2pool_messages_all_read_witness:
  "dispatch_stream (\<lambda>_. None) (sample_p2_job [0, 0, 1, 0])
      (snd (Connect_reads (\<lambda>_. None) [''lo'', ''gin'' @ newline # ''lost'' @ [newline], ''ab'' @ [newline] @ ''c'', ''d'' @ [newline]]))
     = dispatchJobs (sample_p2_job [0, 0, 1, 0]) [Inl ''json'', Inl ''json'', Inl ''EOF'']"
proof -
  have c: "newline \<notin> set (concat [''lo''] @ ''gin'')"
    "length (concat [''lo'']) + length ''gin'' + length (''lost'' @ [newline]) < MAX_REQUEST_SIZE"
    "concat [''ab'' @ [newline] @ ''c'', ''d'' @ [newline]] = concat (map (\<lambda>l. l @ [newline]) [''ab'', ''cd''])"
    "\<forall>l \<in> set [''ab'', ''cd'']. newline \<notin> set l \<and> length l < MAX_REQUEST_SIZE"
    by (simp_all add: MAX_REQUEST_SIZE_def)
  from p2pool_messages_all_read [OF c, of "\<lambda>_. None" "\<lambda>_. None" "sample_p2_job [0, 0, 1, 0]"]
  show ?thesis by (simp add: readJSON_def)
qed

end
