(* ===== verification/Legacy_Database.thy ===== *)
theory Legacy_Database
  imports Serializer Go_Float
begin

text \<open>
  \<^verbatim>\<open>src/database/database.go\<close>: the records the BoltDB store keeps (read and written by the
  tools under \<^verbatim>\<open>src/tools\<close>) and their binary formats. A Go map is iterated in an unspecified
  order, so \<open>UnconfTx_Serialize\<close> takes the order the iteration happens to use: a list of the
  map's entries.
\<close>

definition VERSION :: byte where
  "VERSION = 0"

section \<open>Records\<close>

record db_share =
  dsWallet :: string
  dsWorkerID :: string
  dsDiff :: u64
  dsTime :: u64

record worker_info =
  wiAddress :: string
  wiWorkerID :: string
  wiLastActive :: u64
  wiHashrate5m :: f64

record unconf_tx =
  utUnlockHeight :: u64
  utTxnHash :: "byte list"
  utBals :: "string \<rightharpoonup> u64"
  utBalancesAdded :: bool

record pending_bals =
  pbLastHeight :: u64
  pbUnconfirmedTxs :: "unconf_tx list"

record addr_info =
  aiBalance :: u64
  aiBalancePending :: u64
  aiPaid :: u64

section \<open>Writing\<close>

definition db_share_Serialize :: "db_share \<Rightarrow> byte list" where
  "db_share_Serialize x =
     (let s = AddUint8 \<lparr>sData = []\<rparr> VERSION;
          s = AddString s (dsWallet x);
          s = AddString s (dsWorkerID x);
          s = AddUint64 s (dsDiff x);
          s = AddUint64 s (dsTime x)
      in sData s)"

definition worker_info_Serialize :: "worker_info \<Rightarrow> byte list" where
  "worker_info_Serialize x =
     (let s = AddUint8 \<lparr>sData = []\<rparr> VERSION;
          s = AddString s (wiAddress x);
          s = AddString s (wiWorkerID x);
          s = AddUvarint s (wiLastActive x)
      in sData s)"

fun add_bals :: "Serializer \<Rightarrow> (string \<times> u64) list \<Rightarrow> Serializer" where
  "add_bals s [] = s"
| "add_bals s ((i, v) # rest) = add_bals (AddUvarint (AddString s i) v) rest"

definition UnconfTx_Serialize :: "(string \<times> u64) list \<Rightarrow> unconf_tx \<Rightarrow> byte list go" where
  "UnconfTx_Serialize order x =
     (let s = AddUint8 \<lparr>sData = []\<rparr> VERSION;
          s = AddUvarint s (utUnlockHeight x)
      in go_bind (AddFixedByteArray s (utTxnHash x) 32) (\<lambda>s.
         let s = AddUvarint s (of_nat (length order));
             s = add_bals s order;
             s = AddBool s (utBalancesAdded x)
         in Ret (sData s)))"

text \<open>The transactions come with the iteration order of each one's map.\<close>

fun append_txs :: "Serializer \<Rightarrow> ((string \<times> u64) list \<times> unconf_tx) list \<Rightarrow> Serializer go" where
  "append_txs s [] = Ret s"
| "append_txs s ((order, v) # rest) =
     go_bind (UnconfTx_Serialize order v) (\<lambda>b. append_txs (s\<lparr>sData := sData s @ b\<rparr>) rest)"

definition PendingBals_Serialize :: "(string \<times> u64) list list \<Rightarrow> pending_bals \<Rightarrow> byte list go" where
  "PendingBals_Serialize orders x =
     (let s = AddUint8 \<lparr>sData = []\<rparr> VERSION;
          s = AddUvarint s (pbLastHeight x);
          s = AddUvarint s (of_nat (length (pbUnconfirmedTxs x)))
      in go_map sData (append_txs s (zip orders (pbUnconfirmedTxs x))))"

definition AddrInfo_Serialize :: "addr_info \<Rightarrow> byte list" where
  "AddrInfo_Serialize x =
     (let s = AddUint8 \<lparr>sData = []\<rparr> VERSION;
          s = AddUvarint s (aiBalance x);
          s = AddUvarint s (aiBalancePending x);
          s = AddUvarint s (aiPaid x)
      in sData s)"

section \<open>Reading\<close>

definition db_share_Deserialize :: "byte list \<Rightarrow> (db_share \<times> deser_error option) go" where
  "db_share_Deserialize data =
     (let (_, d) = ReadUint8 \<lparr>Data = data, Error = None\<rparr>
      in go_bind (ReadString d) (\<lambda>(w, d). go_bind (ReadString d) (\<lambda>(wid, d).
         let (df, d) = ReadUint64 d; (t, d) = ReadUint64 d
         in Ret (\<lparr>dsWallet = w, dsWorkerID = wid, dsDiff = df, dsTime = t\<rparr>, Error d))))"

text \<open>\<open>Hashrate5m\<close> is not stored: the receiver keeps what it had.\<close>

definition worker_info_Deserialize :: "worker_info \<Rightarrow> byte list \<Rightarrow> (worker_info \<times> deser_error option) go" where
  "worker_info_Deserialize x data =
     (let (_, d) = ReadUint8 \<lparr>Data = data, Error = None\<rparr>
      in go_bind (ReadString d) (\<lambda>(a, d). go_bind (ReadString d) (\<lambda>(wid, d).
         let (la, d) = ReadUvarint d
         in Ret (x\<lparr>wiAddress := a, wiWorkerID := wid, wiLastActive := la\<rparr>, Error d))))"

fun read_bals :: "nat \<Rightarrow> (string \<rightharpoonup> u64) \<Rightarrow> Deserializer \<Rightarrow> ((string \<rightharpoonup> u64) \<times> Deserializer) go" where
  "read_bals 0 m d = Ret (m, d)"
| "read_bals (Suc n) m d =
     go_bind (ReadString d) (\<lambda>(k, d). let (v, d) = ReadUvarint d in read_bals n (m(k \<mapsto> v)) d)"

text \<open>
  The conversion \<open>[32]byte(d.ReadFixedByteArray(32))\<close> panics on the empty slice that an
  earlier error produces; \<open>int(d.ReadUvarint())\<close> is negative from \<open>2 ^ 63\<close> on, and the loop
  then does not run.
\<close>

definition UnconfTx_Deserialize :: "byte list \<Rightarrow> (unconf_tx \<times> byte list \<times> deser_error option) go" where
  "UnconfTx_Deserialize data =
     (let (_, d) = ReadUint8 \<lparr>Data = data, Error = None\<rparr>;
          (uh, d) = ReadUvarint d;
          (h, d) = ReadFixedByteArray d 32
      in if length h < 32 then Panic SliceToArrayLength
         else
           let (n, d) = ReadUvarint d
           in go_bind (read_bals (nat (sint n)) Map.empty d) (\<lambda>(bals, d).
              let (added, d) = ReadBool d
              in Ret (\<lparr>utUnlockHeight = uh, utTxnHash = h, utBals = bals, utBalancesAdded = added\<rparr>,
                      Data d, Error d)))"

fun read_txs :: "nat \<Rightarrow> unconf_tx list \<Rightarrow> Deserializer \<Rightarrow> (unconf_tx list \<times> deser_error option) go" where
  "read_txs 0 acc d = Ret (acc, Error d)"
| "read_txs (Suc n) acc d =
     go_bind (UnconfTx_Deserialize (Data d)) (\<lambda>(utx, rest, err).
       let d = d\<lparr>Data := rest\<rparr>
       in if err \<noteq> None then Ret (acc, err) else read_txs n (acc @ [utx]) d)"

text \<open>
  \<open>make([]UnconfTx, 0, numUnconf)\<close> panics on a negative capacity and on one whose 56-byte
  elements exceed the address space of the allocator (\<open>2 ^ 48\<close> bytes on 64-bit Linux).
\<close>

definition make_ok :: "nat \<Rightarrow> int \<Rightarrow> bool" where
  "make_ok elem n = (0 \<le> n \<and> n * int elem \<le> 2 ^ 48)"

definition PendingBals_Deserialize :: "byte list \<Rightarrow> (pending_bals \<times> deser_error option) go" where
  "PendingBals_Deserialize data =
     (let (_, d) = ReadUint8 \<lparr>Data = data, Error = None\<rparr>;
          (lh, d) = ReadUvarint d;
          (n, d) = ReadUvarint d
      in if \<not> make_ok 56 (sint n) then Panic MakeSliceRange
         else go_map (\<lambda>(txs, err). (\<lparr>pbLastHeight = lh, pbUnconfirmedTxs = txs\<rparr>, err))
                (read_txs (nat (sint n)) [] d))"

definition AddrInfo_Deserialize :: "byte list \<Rightarrow> addr_info \<times> deser_error option" where
  "AddrInfo_Deserialize data =
     (let (_, d) = ReadUint8 \<lparr>Data = data, Error = None\<rparr>;
          (b, d) = ReadUvarint d;
          (p, d) = ReadUvarint d;
          (q, d) = ReadUvarint d
      in (\<lparr>aiBalance = b, aiBalancePending = p, aiPaid = q\<rparr>, Error d))"

section \<open>Round trips\<close>

text \<open>Strings the formats can carry: their length fits Go's \<open>int\<close>, as every Go string's does.\<close>

abbreviation go_string :: "string \<Rightarrow> bool" where
  "go_string s \<equiv> length s < 9223372036854775808"

lemma add_bals_data:
  "sData (add_bals s order) = sData s @ concat (map (\<lambda>(i, v). put_string i @ put_uvarint v) order)"
  by (induction s order rule: add_bals.induct) (auto simp: codec_simps)

lemma read_bals_put:
  assumes "\<forall>(i, v) \<in> set order. go_string i"
  shows "read_bals (length order) m
      \<lparr>Data = concat (map (\<lambda>(i, v). put_string i @ put_uvarint v) order) @ rest, Error = None\<rparr>
    = Ret (m ++ map_of (rev order), \<lparr>Data = rest, Error = None\<rparr>)"
  using assms by (induction order arbitrary: m) (auto simp: codec_simps)

lemma map_of_rev_distinct: "distinct (map fst xs) \<Longrightarrow> map_of (rev xs) = map_of xs"
proof (induction xs)
  case (Cons x xs)
  then have "map_of xs (fst x) = None" by (simp add: map_of_eq_None_iff)
  with Cons show ?case by (cases x) (auto simp: map_add_def fun_eq_iff split: option.splits)
qed simp

text \<open>What a transaction record must satisfy, and the order its map is written in.\<close>

definition tx_ok :: "(string \<times> u64) list \<Rightarrow> unconf_tx \<Rightarrow> bool" where
  "tx_ok order x \<longleftrightarrow>
     length (utTxnHash x) = 32 \<and> utBals x = map_of order \<and> distinct (map fst order) \<and>
     length order < 9223372036854775808 \<and> list_all (\<lambda>(i, v). go_string i) order"

lemma UnconfTx_roundtrip_rest:
  assumes "tx_ok order x"
  shows "\<exists>bs. UnconfTx_Serialize order x = Ret bs \<and>
    UnconfTx_Deserialize (bs @ rest) = Ret (x, rest, None)"
  using assms
  by (simp add: tx_ok_def UnconfTx_Serialize_def UnconfTx_Deserialize_def AddFixedByteArray_def
      codec_simps add_bals_data sint_of_nat_u64 read_bals_put list_all_iff map_of_rev_distinct)

lemma append_txs_read:
  assumes "list_all (\<lambda>(order, x). tx_ok order x) txs"
  shows "\<exists>bs. append_txs s txs = Ret (s\<lparr>sData := sData s @ bs\<rparr>) \<and>
    (\<forall>acc rest. read_txs (length txs) acc \<lparr>Data = bs @ rest, Error = None\<rparr> = Ret (acc @ map snd txs, None))"
  using assms
proof (induction txs arbitrary: s)
  case (Cons tx txs)
  obtain order x where tx: "tx = (order, x)" by (cases tx)
  with Cons.prems have ok: "tx_ok order x" by simp
  obtain b where b: "UnconfTx_Serialize order x = Ret b"
    using UnconfTx_roundtrip_rest [OF ok] by blast
  have dec: "UnconfTx_Deserialize (b @ r) = Ret (x, r, None)" for r
    using UnconfTx_roundtrip_rest [OF ok, of r] b by auto
  obtain bs where bs: "append_txs (s\<lparr>sData := sData s @ b\<rparr>) txs = Ret (s\<lparr>sData := (sData s @ b) @ bs\<rparr>)"
    and rd: "\<forall>acc rest. read_txs (length txs) acc \<lparr>Data = bs @ rest, Error = None\<rparr>
      = Ret (acc @ map snd txs, None)"
    using Cons.IH [of "s\<lparr>sData := sData s @ b\<rparr>"] Cons.prems by auto
  show ?case
    by (rule exI [of _ "b @ bs"]) (use b bs dec rd in \<open>simp add: tx\<close>)
next
  case Nil
  show ?case by (rule exI [of _ "[]"]) simp
qed

section \<open>Properties\<close>

text \<open>every share record survives being written and read back, without an error.\<close>

theorem db_share_roundtrip:
  assumes "go_string (dsWallet x)" "go_string (dsWorkerID x)"
  shows "db_share_Deserialize (db_share_Serialize x) = Ret (x, None)"
  using assms by (simp add: db_share_Serialize_def db_share_Deserialize_def codec_simps)

theorem db_share_roundtrip_witness:
  "db_share_Deserialize
     (db_share_Serialize \<lparr>dsWallet = ''SaLv1'', dsWorkerID = ''rig'', dsDiff = 5000, dsTime = 1700000000\<rparr>)
   = Ret (\<lparr>dsWallet = ''SaLv1'', dsWorkerID = ''rig'', dsDiff = 5000, dsTime = 1700000000\<rparr>, None)"
  by (rule db_share_roundtrip) simp_all

text \<open>the pending-balances record, a counted sequence of transactions each holding a
  counted map of balances, survives being written and read back, whatever order the maps
  are iterated in.\<close>

theorem pending_bals_roundtrip:
  assumes "length orders = length (pbUnconfirmedTxs x)"
    and "list_all (\<lambda>(order, tx). tx_ok order tx) (zip orders (pbUnconfirmedTxs x))"
    and "length (pbUnconfirmedTxs x) * 56 \<le> 2 ^ 48"
  shows "\<exists>bs. PendingBals_Serialize orders x = Ret bs \<and> PendingBals_Deserialize bs = Ret (x, None)"
proof -
  let ?s = "\<lparr>sData = VERSION # put_uvarint (pbLastHeight x)
      @ put_uvarint (of_nat (length (pbUnconfirmedTxs x)))\<rparr>"
  obtain bs where ser: "append_txs ?s (zip orders (pbUnconfirmedTxs x)) = Ret (?s\<lparr>sData := sData ?s @ bs\<rparr>)"
    and rd: "read_txs (length (zip orders (pbUnconfirmedTxs x))) [] \<lparr>Data = bs @ [], Error = None\<rparr>
      = Ret ([] @ map snd (zip orders (pbUnconfirmedTxs x)), None)"
    using append_txs_read [OF assms(2)] by blast
  have n: "length (pbUnconfirmedTxs x) < 9223372036854775808" using assms(3) by simp
  have mk: "make_ok 56 (int (length (pbUnconfirmedTxs x)))" using assms(3) by (simp add: make_ok_def)
  show ?thesis
    using ser rd assms(1) mk
    by (simp add: PendingBals_Serialize_def PendingBals_Deserialize_def codec_simps
        sint_of_nat_u64 [OF n])
qed

theorem pending_bals_roundtrip_witness:
  "\<exists>bs. PendingBals_Serialize [[(''a'', 7)]]
      \<lparr>pbLastHeight = 10, pbUnconfirmedTxs = [\<lparr>utUnlockHeight = 70, utTxnHash = replicate 32 1,
        utBals = map_of [(''a'', 7)], utBalancesAdded = True\<rparr>]\<rparr> = Ret bs \<and>
    PendingBals_Deserialize bs = Ret (\<lparr>pbLastHeight = 10, pbUnconfirmedTxs =
      [\<lparr>utUnlockHeight = 70, utTxnHash = replicate 32 1, utBals = map_of [(''a'', 7)],
        utBalancesAdded = True\<rparr>]\<rparr>, None)"
  by (rule pending_bals_roundtrip) (simp_all add: tx_ok_def)


lemma AddrInfo_roundtrip: "AddrInfo_Deserialize (AddrInfo_Serialize x) = (x, None)"
  by (simp add: AddrInfo_Serialize_def AddrInfo_Deserialize_def codec_simps)

lemma worker_info_roundtrip:
  assumes "go_string (wiAddress x)" "go_string (wiWorkerID x)"
  shows "worker_info_Deserialize y (worker_info_Serialize x) = Ret (x\<lparr>wiHashrate5m := wiHashrate5m y\<rparr>, None)"
  using assms by (simp add: worker_info_Serialize_def worker_info_Deserialize_def codec_simps)

lemma ReadFixedByteArray_short:
  "length (Data d) < n \<Longrightarrow> fst (ReadFixedByteArray d n) = []"
  by (simp add: ReadFixedByteArray_def)

lemma ReadUvarint_remaining:
  assumes "length (Data d) \<le> 32"
  shows "Error (snd (ReadUvarint d)) \<noteq> None \<or> length (Data (snd (ReadUvarint d))) < 32"
proof (cases "Error d = None \<and> Data d \<noteq> []")
  case True
  obtain v n where u: "Uvarint (Data d) = (v, n)" by (cases "Uvarint (Data d)")
  with True assms Uvarint_count [OF u] show ?thesis
    by (auto simp: ReadUvarint_def Suc_le_eq)
next
  case False
  then show ?thesis using assms by (auto simp: ReadUvarint_def)
qed

text \<open>a transaction record shorter than its fixed part (version byte, height, 32-byte hash:
  34 bytes at least) never reaches the error return: the conversion of the empty slice to
  an array panics.\<close>

theorem UnconfTx_short_panics:
  assumes "length data < 34"
  shows "UnconfTx_Deserialize data = Panic SliceToArrayLength"
proof -
  let ?d1 = "snd (ReadUint8 \<lparr>Data = data, Error = None\<rparr>)"
  let ?d2 = "snd (ReadUvarint ?d1)"
  have "length (Data ?d1) \<le> 32" using assms by (cases data) (auto simp: ReadUint8_def)
  then have "fst (ReadFixedByteArray ?d2 32) = []"
    using ReadUvarint_remaining [of ?d1] by (auto simp: ReadFixedByteArray_short)
  then show ?thesis by (simp add: UnconfTx_Deserialize_def case_prod_beta)
qed

theorem UnconfTx_short_panics_witness:
  "UnconfTx_Deserialize [0, 70] = Panic SliceToArrayLength"
  by (rule UnconfTx_short_panics) simp

end
