(* ===== verification/Bolt_Tools.thy ===== *)
theory Bolt_Tools
  imports Legacy_Database "HOL-Library.DAList"
begin

text \<open>
  The maintenance tools under \<^verbatim>\<open>src/tools\<close>, each a program of its own on the BoltDB store whose
  record formats \<open>Legacy_Database\<close> models. The store, \<^verbatim>\<open>go.etcd.io/bbolt\<close>, is a parameter: the
  operations on a bucket are the fields of a \<open>bolt\<close>, and \<open>bolt_ok\<close> is what its documentation promises.
  What a tool prints is a list of values, one per line, without the formats of \<^verbatim>\<open>fmt\<close>.
\<close>

section \<open>The store\<close>

type_synonym bkey = "byte list"
type_synonym bval = "byte list"

datatype tool_error = BucketMissing bkey | PutFailed string | BadRecord deser_error | OpenFailed string

record 'b bolt =
  bGet :: "'b \<Rightarrow> bkey \<Rightarrow> bval option"
  bPut :: "bkey \<Rightarrow> bval \<Rightarrow> 'b \<Rightarrow> string + 'b"
  bEntries :: "'b \<Rightarrow> (bkey \<times> bval) list"

text \<open>\<open>Put\<close> sets the value of one key when it succeeds; \<open>ForEach\<close> and a cursor visit every key once.\<close>

definition bolt_ok :: "'b bolt \<Rightarrow> bool" where
  "bolt_ok B \<longleftrightarrow>
     (\<forall>b k v b'. bPut B k v b = Inr b' \<longrightarrow> bGet B b' = (bGet B b)(k \<mapsto> v)) \<and>
     (\<forall>b. distinct (map fst (bEntries B b)) \<and> map_of (bEntries B b) = bGet B b)"

definition ADDRESS_INFO :: bkey where "ADDRESS_INFO = bytes_of_string ''a''"
definition SHARES :: bkey where "SHARES = bytes_of_string ''s''"
definition PENDING :: bkey where "PENDING = bytes_of_string ''p''"
definition WORKERS :: bkey where "WORKERS = bytes_of_string ''w''"

text \<open>The top-level buckets by name, and \<open>db.Update\<close> on one of them: an error rolls the transaction back.\<close>

type_synonym 'b store = "bkey \<rightharpoonup> 'b"

definition Update :: "bkey \<Rightarrow> ('b \<Rightarrow> tool_error + 'b) \<Rightarrow> 'b store \<Rightarrow> tool_error option \<times> 'b store" where
  "Update name f st =
     (case st name of
        None \<Rightarrow> (Some (BucketMissing name), st)
      | Some b \<Rightarrow> (case f b of Inl e \<Rightarrow> (Some e, st) | Inr b' \<Rightarrow> (None, st(name \<mapsto> b'))))"

text \<open>How a tool ends: it did its work, it only explained what it would do, or \<open>log.Fatal\<close>.\<close>

datatype tool_end = Finished | DryRun | NoAddress | ToolFatal tool_error

definition put_record :: "'b bolt \<Rightarrow> bkey \<Rightarrow> bval \<Rightarrow> 'b \<Rightarrow> tool_error + 'b" where
  "put_record B k v b = (case bPut B k v b of Inl e \<Rightarrow> Inl (PutFailed e) | Inr b' \<Rightarrow> Inr b')"

definition run_update :: "bool \<Rightarrow> string option \<Rightarrow> ('b store \<Rightarrow> tool_error option \<times> 'b store) \<Rightarrow> 'b store \<Rightarrow> tool_end \<times> 'b store" where
  "run_update confirm openErr upd st =
     (if \<not> confirm then (DryRun, st)
      else case openErr of
        Some e \<Rightarrow> (ToolFatal (OpenFailed e), st)
      | None \<Rightarrow> (case upd st of (Some e, st') \<Rightarrow> (ToolFatal e, st') | (None, st') \<Rightarrow> (Finished, st')))"

section \<open>db-reset-balances\<close>

text \<open>The function that \<open>ForEach\<close> calls on each entry it visits, and the iteration, which stops at the
  first error.\<close>

definition reset_entry :: "'b bolt \<Rightarrow> bkey \<times> bval \<Rightarrow> 'b \<Rightarrow> tool_error + 'b" where
  "reset_entry B e b =
     (case AddrInfo_Deserialize (snd e) of
        (_, Some err) \<Rightarrow> Inl (BadRecord err)
      | (info, None) \<Rightarrow> put_record B (fst e) (AddrInfo_Serialize (info\<lparr>aiBalance := 0\<rparr>)) b)"

fun for_each :: "('e \<Rightarrow> 'b \<Rightarrow> tool_error + 'b) \<Rightarrow> 'e list \<Rightarrow> 'b \<Rightarrow> tool_error + 'b" where
  "for_each f [] b = Inr b"
| "for_each f (e # es) b = (case f e b of Inl err \<Rightarrow> Inl err | Inr b' \<Rightarrow> for_each f es b')"

text \<open>The function changes the bucket that is being iterated, so the entries that are visited are left
  open by the documentation of \<open>ForEach\<close>: \<open>visits\<close> gives them for a bucket.\<close>

definition db_reset_balances :: "'b bolt \<Rightarrow> ('b \<Rightarrow> (bkey \<times> bval) list) \<Rightarrow> bool \<Rightarrow> string option \<Rightarrow> 'b store \<Rightarrow> tool_end \<times> 'b store" where
  "db_reset_balances B visits confirm openErr =
     run_update confirm openErr
       (Update ADDRESS_INFO (\<lambda>b. for_each (reset_entry B) (visits b) b))"

section \<open>db-set-balance\<close>

definition set_entry :: "'b bolt \<Rightarrow> bkey \<Rightarrow> u64 \<Rightarrow> 'b \<Rightarrow> tool_error + 'b" where
  "set_entry B address balance b =
     (let put = (\<lambda>info. put_record B address (AddrInfo_Serialize (info\<lparr>aiBalance := balance\<rparr>)) b) in
      case bGet B b address of
        None \<Rightarrow> put \<lparr>aiBalance = 0, aiBalancePending = 0, aiPaid = 0\<rparr>
      | Some v \<Rightarrow>
          (case AddrInfo_Deserialize v of
             (_, Some err) \<Rightarrow> Inl (BadRecord err)
           | (info, None) \<Rightarrow> put info))"

definition db_set_balance :: "'b bolt \<Rightarrow> string \<Rightarrow> u64 \<Rightarrow> bool \<Rightarrow> string option \<Rightarrow> 'b store \<Rightarrow> tool_end \<times> 'b store" where
  "db_set_balance B address balance confirm openErr st =
     (if address = '''' then (NoAddress, st)
      else run_update confirm openErr
             (Update ADDRESS_INFO (set_entry B (bytes_of_string address) balance)) st)"

section \<open>db-clear-pending\<close>

definition cleared_pending :: pending_bals where
  "cleared_pending = \<lparr>pbLastHeight = 284800, pbUnconfirmedTxs = []\<rparr>"

definition clear_entry :: "'b bolt \<Rightarrow> bval \<Rightarrow> 'b \<Rightarrow> tool_error + 'b" where
  "clear_entry B v b = put_record B (bytes_of_string ''pending'') v b"

definition db_clear_pending :: "'b bolt \<Rightarrow> bool \<Rightarrow> string option \<Rightarrow> 'b store \<Rightarrow> (tool_end \<times> 'b store) go" where
  "db_clear_pending B confirm openErr st =
     go_map (\<lambda>v. run_update confirm openErr (Update PENDING (clear_entry B v)) st)
       (PendingBals_Serialize [] cleared_pending)"

section \<open>db-inspect\<close>

datatype out_line =
    LAddress bkey | LBalance u64 f64 | LPaid u64 "f64 option" | LRaw nat
  | LPending | LLastHeight u64 | LUnconfirmed nat | LTx nat u64 nat bool
  | LKey bkey nat | LMore int | LBucket bkey | LNotFound bkey | LAddressInfo | LCursor | LDeserError | LBlank

text \<open>An amount as the tools print it, divided by 100000000.\<close>

definition sal :: "u64 \<Rightarrow> f64" where
  "sal n = f64_of_u64 n div Fin 100000000"

definition info_lines :: "bval \<Rightarrow> out_line list" where
  "info_lines v =
     (case AddrInfo_Deserialize v of
        (info, None) \<Rightarrow> [LBalance (aiBalance info) (sal (aiBalance info)), LPaid (aiPaid info) (Some (sal (aiPaid info)))]
      | (_, Some err) \<Rightarrow> [LRaw (length v)])"

text \<open>\<open>len(tx.Bals)\<close>, the number of keys of the map.\<close>

definition num_bals :: "unconf_tx \<Rightarrow> nat" where
  "num_bals tx = card (dom (utBals tx))"

definition pending_lines :: "bval \<Rightarrow> out_line list go" where
  "pending_lines v =
     go_map (\<lambda>(p, err). if err \<noteq> None then [] else
         [LLastHeight (pbLastHeight p), LUnconfirmed (length (pbUnconfirmedTxs p))] @
         map (\<lambda>(i, tx). LTx i (utUnlockHeight tx) (num_bals tx) (utBalancesAdded tx))
           (zip [0..<length (pbUnconfirmedTxs p)] (pbUnconfirmedTxs p)))
       (PendingBals_Deserialize v)"

text \<open>The function \<open>showBucket\<close> calls on the entry number \<open>n\<close>, from 1.\<close>

definition show_entry :: "nat \<Rightarrow> bkey \<times> bval \<Rightarrow> out_line list go" where
  "show_entry n e =
     (if 50 < length (fst e) \<and> n \<le> 5 then Ret (LAddress (fst e) # info_lines (snd e))
      else if fst e = bytes_of_string ''pending'' then go_map (\<lambda>ls. LPending # ls) (pending_lines (snd e))
      else if n \<le> 3 then Ret [LKey (fst e) (length (snd e))]
      else Ret [])"

fun show_entries :: "nat \<Rightarrow> (bkey \<times> bval) list \<Rightarrow> out_line list go" where
  "show_entries n [] = Ret []"
| "show_entries n (e # es) =
     go_bind (show_entry (Suc n) e) (\<lambda>ls. go_map (\<lambda>ls'. ls @ ls') (show_entries (Suc n) es))"

definition showBucket :: "'b bolt \<Rightarrow> 'b \<Rightarrow> out_line list go" where
  "showBucket B b = show_entries 0 (bEntries B b)"

fun show_buckets :: "'b bolt \<Rightarrow> (bkey \<times> 'b) list \<Rightarrow> out_line list go" where
  "show_buckets B [] = Ret []"
| "show_buckets B ((name, b) # bs) =
     go_bind (showBucket B b) (\<lambda>ls. go_map (\<lambda>ls'. LBucket name # ls @ ls') (show_buckets B bs))"

text \<open>\<open>names\<close> is the order in which \<open>tx.ForEach\<close> visits the buckets; a bucket name of \<open>''''\<close> asks for all.\<close>

definition db_inspect :: "'b bolt \<Rightarrow> bkey list \<Rightarrow> bkey \<Rightarrow> 'b store \<Rightarrow> out_line list go" where
  "db_inspect B names bucket st =
     (if bucket \<noteq> [] then
        (case st bucket of
           None \<Rightarrow> Ret [LNotFound bucket]
         | Some b \<Rightarrow> go_map (\<lambda>ls. LBucket bucket # ls) (showBucket B b))
      else show_buckets B (map (\<lambda>n. (n, the (st n))) (filter (\<lambda>n. st n \<noteq> None) names)))"

section \<open>debug_db, debug_withdraw_cursor, debug_deserialize, debug_config\<close>

definition debug_info_lines :: "bval \<Rightarrow> out_line list" where
  "debug_info_lines v =
     (case AddrInfo_Deserialize v of
        (info, None) \<Rightarrow> [LBalance (aiBalance info) (sal (aiBalance info)), LPaid (aiPaid info) None]
      | (_, Some err) \<Rightarrow> [LDeserError])"

definition address_lines :: "bkey \<times> bval \<Rightarrow> out_line list" where
  "address_lines e = LAddress (fst e) # debug_info_lines (snd e) @ [LBlank]"

fun key_lines :: "nat \<Rightarrow> (bkey \<times> bval) list \<Rightarrow> out_line list" where
  "key_lines n [] = (if 3 < n then [LMore (int n - 3)] else [])"
| "key_lines n (e # es) = (if Suc n \<le> 3 then LKey (fst e) (length (snd e)) # key_lines (Suc n) es else key_lines (Suc n) es)"

definition other_bucket :: "'b bolt \<Rightarrow> bkey \<times> 'b \<Rightarrow> out_line list" where
  "other_bucket B nb =
     (if fst nb \<noteq> bytes_of_string ''ADDRESS_INFO'' then LBucket (fst nb) # key_lines 0 (bEntries B (snd nb)) else [])"

definition debug_db :: "'b bolt \<Rightarrow> bkey list \<Rightarrow> 'b store \<Rightarrow> out_line list" where
  "debug_db B names st =
     (case st ADDRESS_INFO of
        None \<Rightarrow> []
      | Some b \<Rightarrow> LAddressInfo # concat (map address_lines (bEntries B b))) @
     concat (map (other_bucket B) (map (\<lambda>n. (n, the (st n))) (filter (\<lambda>n. st n \<noteq> None) names)))"

definition debug_withdraw_cursor :: "'b bolt \<Rightarrow> 'b \<Rightarrow> out_line list" where
  "debug_withdraw_cursor B b = LCursor # concat (map address_lines (bEntries B b))"

text \<open>The length of the value (0 for a missing one), the error, and what was deserialized.\<close>

definition debug_deserialize :: "'b bolt \<Rightarrow> bkey \<Rightarrow> 'b \<Rightarrow> nat \<times> bool \<times> u64 \<times> u64" where
  "debug_deserialize B testAddr b =
     (let val = (case bGet B b testAddr of None \<Rightarrow> [] | Some v \<Rightarrow> v);
          (info, err) = AddrInfo_Deserialize val
      in (length val, err \<noteq> None, aiBalance info, aiPaid info))"

text \<open>The comparison that \<open>debug_config\<close> tries out: the atomic minimum and whether the balance exceeds it.\<close>

definition debug_config :: "(f64 \<Rightarrow> u64) \<Rightarrow> int \<Rightarrow> f64 \<Rightarrow> u64 \<Rightarrow> u64 \<times> bool" where
  "debug_config conv atomic minWithdrawal balance =
     (let minWithdrawalAtomic = u64_of_f64 conv (minWithdrawal * math_Pow10 atomic)
      in (minWithdrawalAtomic, minWithdrawalAtomic < balance))"


section \<open>What the tools do to the store\<close>

text \<open>An error leaves the store as it was.\<close>

lemma failed_update_rolls_back:
  assumes "run_update confirm openErr (Update name f) st = (e, st')" "e \<noteq> Finished"
  shows "st' = st"
  using assms by (auto simp: run_update_def Update_def split: if_split_asm option.split_asm sum.split_asm)

lemma put_record_get:
  assumes "bolt_ok B" "put_record B k v b = Inr b'"
  shows "bGet B b' = (bGet B b)(k \<mapsto> v)"
  using assms by (auto simp: put_record_def bolt_ok_def split: sum.split_asm)

text \<open>A record with another balance.\<close>

definition with_balance :: "u64 \<Rightarrow> bval \<Rightarrow> bval" where
  "with_balance n v = AddrInfo_Serialize ((fst (AddrInfo_Deserialize v))\<lparr>aiBalance := n\<rparr>)"

lemma with_balance_reads:
  "AddrInfo_Deserialize (with_balance n v) = ((fst (AddrInfo_Deserialize v))\<lparr>aiBalance := n\<rparr>, None)"
  by (simp add: with_balance_def AddrInfo_roundtrip)

definition readable :: "bval \<Rightarrow> bool" where
  "readable v = (snd (AddrInfo_Deserialize v) = None)"

lemma reset_entry_readable:
  "readable (snd e) \<Longrightarrow> reset_entry B e b = put_record B (fst e) (with_balance 0 (snd e)) b"
  by (cases "AddrInfo_Deserialize (snd e)") (simp add: reset_entry_def readable_def with_balance_def)

lemma reset_entry_unreadable:
  "\<not> readable (snd e) \<Longrightarrow> \<exists>err. reset_entry B e b = Inl err"
  by (cases "AddrInfo_Deserialize (snd e)") (auto simp: reset_entry_def readable_def)

text \<open>An iteration that ends well has read every entry it visited; a key visited twice has the record of
  its last visit.\<close>

lemma for_each_reset:
  assumes "bolt_ok B" "for_each (reset_entry B) es b = Inr b'"
  shows "(\<forall>e \<in> set es. readable (snd e)) \<and>
    bGet B b' = bGet B b ++ (map_option (with_balance 0) \<circ> map_of (rev es))"
  using assms(2)
proof (induction es arbitrary: b)
  case Nil
  then show ?case by (simp add: map_add_def comp_def)
next
  case (Cons e es)
  obtain b1 where b1: "reset_entry B e b = Inr b1" "for_each (reset_entry B) es b1 = Inr b'"
    using Cons.prems by (auto split: sum.split_asm)
  have r: "readable (snd e)"
  proof (rule ccontr)
    assume "\<not> readable (snd e)"
    from reset_entry_unreadable [OF this, of B b] b1(1) show False by auto
  qed
  have "bGet B b1 = (bGet B b)(fst e \<mapsto> with_balance 0 (snd e))"
    using put_record_get [OF assms(1)] b1(1) unfolding reset_entry_readable [OF r] .
  moreover have "m(k \<mapsto> f v) ++ (map_option f \<circ> map_of xs) = m ++ (map_option f \<circ> map_of (xs @ [(k, v)]))"
    for m :: "bkey \<rightharpoonup> bval" and f k v xs
    by (auto simp: fun_eq_iff map_add_def map_of_append split: option.split)
  from this [of "bGet B b" "fst e" "with_balance 0" "snd e" "rev es"]
  have "(bGet B b)(fst e \<mapsto> with_balance 0 (snd e)) ++ (map_option (with_balance 0) \<circ> map_of (rev es))
    = bGet B b ++ (map_option (with_balance 0) \<circ> map_of (rev (e # es)))" by (simp only: prod.collapse rev.simps)
  ultimately have "bGet B b' = bGet B b ++ (map_option (with_balance 0) \<circ> map_of (rev (e # es)))"
    using Cons.IH [OF b1(2)] by (elim conjE) (erule trans, simp only:)
  moreover have "\<forall>e' \<in> set (e # es). readable (snd e')" using Cons.IH [OF b1(2)] r by simp
  ultimately show ?case by blast
qed

text \<open>
  Resetting the balances is all or nothing, whatever entries \<open>ForEach\<close> visits while the bucket changes.
  Unless \<open>db-reset-balances\<close> reports success the store is what it was, the records it had reset already
  included. If it does, it has read every record it visited, each of these has the balance 0 and its
  other fields as in the last visit, and all other keys are as before.
\<close>

theorem reset_balances_all_or_nothing:
  assumes "bolt_ok B" "db_reset_balances B visits confirm openErr st = (e, st')"
  shows "e \<noteq> Finished \<and> st' = st \<or>
    e = Finished \<and> (\<exists>b b'. st ADDRESS_INFO = Some b \<and> st' = st(ADDRESS_INFO \<mapsto> b') \<and>
      (\<forall>x \<in> set (visits b). readable (snd x)) \<and>
      bGet B b' = bGet B b ++ (map_option (with_balance 0) \<circ> map_of (rev (visits b))))"
proof (cases "e = Finished")
  case True
  obtain b b' where b: "st ADDRESS_INFO = Some b" "for_each (reset_entry B) (visits b) b = Inr b'" "st' = st(ADDRESS_INFO \<mapsto> b')"
    using assms(2) True
    by (auto simp: db_reset_balances_def run_update_def Update_def split: if_split_asm option.split_asm sum.split_asm)
  from for_each_reset [OF assms(1) b(2)] b(1,3) True show ?thesis by blast
next
  case False
  have "st' = st" using failed_update_rolls_back [OF assms(2) [unfolded db_reset_balances_def] False] .
  with False show ?thesis by simp
qed


text \<open>Setting a balance touches one field of one record.\<close>

theorem set_balance_changes_one_field:
  assumes "bolt_ok B" "db_set_balance B address n True None st = (Finished, st')"
  shows "\<exists>b b'. st ADDRESS_INFO = Some b \<and> st' = st(ADDRESS_INFO \<mapsto> b') \<and>
    (\<forall>k. k \<noteq> bytes_of_string address \<longrightarrow> bGet B b' k = bGet B b k) \<and>
    (\<exists>v'. bGet B b' (bytes_of_string address) = Some v' \<and>
       AddrInfo_Deserialize v' =
         ((case bGet B b (bytes_of_string address) of
             None \<Rightarrow> \<lparr>aiBalance = n, aiBalancePending = 0, aiPaid = 0\<rparr>
           | Some v \<Rightarrow> (fst (AddrInfo_Deserialize v))\<lparr>aiBalance := n\<rparr>), None))"
proof -
  let ?a = "bytes_of_string address"
  obtain b b' where b: "st ADDRESS_INFO = Some b" "set_entry B ?a n b = Inr b'" "st' = st(ADDRESS_INFO \<mapsto> b')"
    using assms(2) by (auto simp: db_set_balance_def run_update_def Update_def split: if_split_asm option.split_asm sum.split_asm)
  let ?info = "(case bGet B b ?a of None \<Rightarrow> \<lparr>aiBalance = n, aiBalancePending = 0, aiPaid = 0\<rparr>
      | Some v \<Rightarrow> (fst (AddrInfo_Deserialize v))\<lparr>aiBalance := n\<rparr>)"
  have "put_record B ?a (AddrInfo_Serialize ?info) b = Inr b'"
    using b(2) by (auto simp: set_entry_def split: option.splits prod.splits)
  then have "bGet B b' = (bGet B b)(?a \<mapsto> AddrInfo_Serialize ?info)" by (rule put_record_get [OF assms(1)])
  with b show ?thesis by (auto simp: AddrInfo_roundtrip split: option.split)
qed

text \<open>Clearing the pending transactions writes one fixed height, although its comment says that the
  current height is kept.\<close>

lemma clear_pending_fixed_height:
  assumes "bolt_ok B" "db_clear_pending B True None st = Ret (Finished, st')"
  shows "\<exists>b b' v. st PENDING = Some b \<and> st' = st(PENDING \<mapsto> b') \<and>
    bGet B b' = (bGet B b)(bytes_of_string ''pending'' \<mapsto> v) \<and>
    PendingBals_Deserialize v = Ret (\<lparr>pbLastHeight = 284800, pbUnconfirmedTxs = []\<rparr>, None)"
proof -
  obtain v where v: "PendingBals_Serialize [] cleared_pending = Ret v" "PendingBals_Deserialize v = Ret (cleared_pending, None)"
    using pending_bals_roundtrip [of "[]" cleared_pending] by (auto simp: cleared_pending_def)
  then obtain b b' where b: "st PENDING = Some b" "clear_entry B v b = Inr b'" "st' = st(PENDING \<mapsto> b')"
    using assms(2)
    by (auto simp: db_clear_pending_def run_update_def Update_def split: if_split_asm option.split_asm sum.split_asm)
  from put_record_get [OF assms(1) b(2) [unfolded clear_entry_def]] b v show ?thesis
    by (auto simp: cleared_pending_def)
qed

section \<open>What the tools show\<close>

text \<open>\<open>debug_db\<close> means to skip the addresses among the other buckets, but compares the name with the
  name of the Go variable: the bucket is listed a second time.\<close>

lemma debug_db_lists_addresses_again:
  assumes "st ADDRESS_INFO = Some b" "ADDRESS_INFO \<in> set names"
  shows "LBucket ADDRESS_INFO \<in> set (tl (debug_db B names st))"
proof -
  have ne: "ADDRESS_INFO \<noteq> bytes_of_string ''ADDRESS_INFO''"
    by (simp add: ADDRESS_INFO_def bytes_of_string_def)
  have "LBucket ADDRESS_INFO \<in> set (other_bucket B (ADDRESS_INFO, b))" using ne by (simp add: other_bucket_def)
  moreover have "(ADDRESS_INFO, b) \<in> set (map (\<lambda>n. (n, the (st n))) (filter (\<lambda>n. st n \<noteq> None) names))"
    using assms by force
  ultimately have "LBucket ADDRESS_INFO \<in> set (concat (map (other_bucket B)
      (map (\<lambda>n. (n, the (st n))) (filter (\<lambda>n. st n \<noteq> None) names))))"
    unfolding set_concat set_map [of "other_bucket B"] by blast
  then show ?thesis using assms(1) unfolding debug_db_def by (simp del: set_concat map_map)
qed

text \<open>\<open>db-inspect\<close> does not survive a pending record that is cut off within its first transaction.\<close>

lemma read_txs_short_panics:
  assumes "length (Data d) < 34"
  shows "read_txs (Suc n) acc d = Panic SliceToArrayLength"
  using UnconfTx_short_panics [OF assms] by simp

text \<open>Every bucket shows at most five addresses and three other keys.\<close>

lemma show_entries_bound:
  assumes "show_entries n es = Ret ls" "\<forall>e \<in> set es. fst e \<noteq> bytes_of_string ''pending''"
  shows "length ls \<le> 3 * (5 - n)"
  using assms
proof (induction n es arbitrary: ls rule: show_entries.induct)
  case (2 n e es)
  obtain l1 l2 where l: "show_entry (Suc n) e = Ret l1" "show_entries (Suc n) es = Ret l2" "ls = l1 @ l2"
    using "2.prems"(1) by (cases "show_entry (Suc n) e"; cases "show_entries (Suc n) es") auto
  have "length l1 \<le> (if Suc n \<le> 5 then 3 else 0)"
    using l(1) "2.prems"(2)
    by (auto simp: show_entry_def info_lines_def split: if_split_asm prod.split option.split)
  moreover have "length l2 \<le> 3 * (5 - Suc n)"
    using "2.IH" [OF l(2)] "2.prems"(2) by simp
  ultimately show ?case using l(3) by (auto split: if_split_asm)
qed simp

section \<open>Witnesses\<close>

definition list_bolt :: "(bkey, bval) alist bolt" where
  "list_bolt = \<lparr>bGet = DAList.lookup, bPut = \<lambda>k v b. Inr (DAList.update k v b), bEntries = DAList.impl_of\<rparr>"

lemma list_bolt_ok: "bolt_ok list_bolt"
proof -
  show "bolt_ok list_bolt"
    unfolding bolt_ok_def list_bolt_def by (auto simp: lookup_update) (simp_all add: DAList.lookup_def)
qed

definition sample_store :: "(bkey, bval) alist store" where
  "sample_store = [ADDRESS_INFO \<mapsto> DAList.update (bytes_of_string ''SaLv1'')
     (AddrInfo_Serialize \<lparr>aiBalance = 700, aiBalancePending = 5, aiPaid = 90\<rparr>) DAList.empty]"

lemma reset_balances_all_or_nothing_witness:
  "\<exists>b'. db_reset_balances list_bolt DAList.impl_of True None sample_store = (Finished, sample_store(ADDRESS_INFO \<mapsto> b')) \<and>
     map_option AddrInfo_Deserialize (DAList.lookup b' (bytes_of_string ''SaLv1''))
       = Some (\<lparr>aiBalance = 0, aiBalancePending = 5, aiPaid = 90\<rparr>, None)"
proof -
  let ?v = "AddrInfo_Serialize \<lparr>aiBalance = 700, aiBalancePending = 5, aiPaid = 90\<rparr>"
  let ?b = "DAList.update (bytes_of_string ''SaLv1'') ?v DAList.empty"
  have g: "bGet list_bolt ?b = [bytes_of_string ''SaLv1'' \<mapsto> ?v]"
    by (auto simp: list_bolt_def lookup_update lookup_empty)
  have st: "sample_store ADDRESS_INFO = Some ?b" by (simp add: sample_store_def)
  have r: "readable ?v" by (simp add: readable_def AddrInfo_roundtrip)
  have e: "DAList.impl_of ?b = [(bytes_of_string ''SaLv1'', ?v)]" by (simp add: DAList.update.rep_eq empty.rep_eq)
  obtain b' where run: "db_reset_balances list_bolt DAList.impl_of True None sample_store = (Finished, sample_store(ADDRESS_INFO \<mapsto> b'))"
    using st r by (simp add: db_reset_balances_def run_update_def Update_def e reset_entry_readable put_record_def list_bolt_def)
  from reset_balances_all_or_nothing [OF list_bolt_ok run] st
  have "bGet list_bolt b' = bGet list_bolt ?b ++ (map_option (with_balance 0) \<circ> map_of (rev (DAList.impl_of ?b)))"
    by (auto simp: fun_upd_eqD dest: fun_cong [of _ _ ADDRESS_INFO])
  then have "DAList.lookup b' (bytes_of_string ''SaLv1'') = Some (with_balance 0 ?v)"
    unfolding e by (simp add: list_bolt_def map_add_def)
  with run show ?thesis by (intro exI [of _ b']) (simp add: with_balance_reads AddrInfo_roundtrip)
qed

lemma set_balance_changes_one_field_witness:
  "\<exists>st'. db_set_balance list_bolt ''SaLv1'' 4 True None sample_store = (Finished, st') \<and>
     (\<exists>b' v'. st' ADDRESS_INFO = Some b' \<and> DAList.lookup b' (bytes_of_string ''SaLv1'') = Some v' \<and>
        AddrInfo_Deserialize v' = (\<lparr>aiBalance = 4, aiBalancePending = 5, aiPaid = 90\<rparr>, None))"
proof -
  let ?v = "AddrInfo_Serialize \<lparr>aiBalance = 700, aiBalancePending = 5, aiPaid = 90\<rparr>"
  let ?b = "DAList.update (bytes_of_string ''SaLv1'') ?v DAList.empty"
  have g: "bGet list_bolt ?b (bytes_of_string ''SaLv1'') = Some ?v" "sample_store ADDRESS_INFO = Some ?b"
    by (simp_all add: list_bolt_def lookup_update sample_store_def)
  obtain st' where r: "db_set_balance list_bolt ''SaLv1'' 4 True None sample_store = (Finished, st')"
    using g by (simp add: db_set_balance_def run_update_def Update_def set_entry_def AddrInfo_roundtrip put_record_def)
      (simp add: list_bolt_def)
  from set_balance_changes_one_field [OF list_bolt_ok(1) r] r g show ?thesis
    by (auto simp: list_bolt_def AddrInfo_roundtrip)
qed

end
