(* ===== verification/Logger.thy ===== *)
theory Logger
  imports Go_Text Serializer
begin

text \<open>
  The logger, \<^verbatim>\<open>src/logger/logger.go\<close>: what each function prints and what it appends to the log file.
  The text of the arguments, \<open>fmt.Sprintln(a...)\<close>, the readings of the clock and the position of the
  caller are arguments; \<open>Print\<close> ignores errors of the standard output, an error of the file panics.
\<close>

section \<open>Numbers and colours\<close>

definition FormatInt :: "int \<Rightarrow> string" where
  "FormatInt n = (if n < 0 then CHR ''-'' # format_nat (nat (- n)) else format_nat (nat n))"

definition IntToString :: "int \<Rightarrow> string" where
  "IntToString nmr = FormatInt nmr"

text \<open>\<open>int(nmr)\<close> reads the word as a signed number.\<close>

definition Uint64ToString :: "u64 \<Rightarrow> string" where
  "Uint64ToString nmr = FormatInt (sint nmr)"

abbreviation esc :: char where "esc \<equiv> CHR 0x1B"

definition Reset :: string where "Reset = esc # ''[0m''"
definition Red :: string where "Red = esc # ''[31m''"
definition Yellow :: string where "Yellow = esc # ''[33m''"
definition Purple :: string where "Purple = esc # ''[35m''"
definition Cyan :: string where "Cyan = esc # ''[36m''"
definition Bold :: string where "Bold = esc # ''[1m''"
definition net_color :: string where "net_color = esc # ''[38;5;75m''"
definition netdev_color :: string where "netdev_color = esc # ''[38;5;104m''"

section \<open>The prefix of a line\<close>

definition two_digits :: "string \<Rightarrow> string" where
  "two_digits s = (if length s = 1 then CHR ''0'' # s else s)"

text \<open>Hour, minute and second come from three readings of the clock.\<close>

definition getTime :: "int \<Rightarrow> int \<Rightarrow> int \<Rightarrow> string" where
  "getTime h m s = two_digits (FormatInt h) @ '':'' @ two_digits (FormatInt m) @ '':'' @ two_digits (FormatInt s)"

function pad_to :: "nat \<Rightarrow> string \<Rightarrow> string" where
  "pad_to n s = (if length s < n then pad_to n (s @ '' '') else s)"
  by pat_completeness auto
termination
  by (relation "measure (\<lambda>(n, s). n - length s)") auto

declare pad_to.simps [simp del]

definition debug_infos :: "string \<Rightarrow> int \<Rightarrow> string" where
  "debug_infos file line =
     pad_to 17 (hd (strings_Split (last (strings_Split file ''/'')) ''.'') @ '':'' @ FormatInt line)"

definition getLogPrefix :: "int \<times> int \<times> int \<Rightarrow> int \<times> int \<times> int \<Rightarrow> string \<times> int \<Rightarrow> string" where
  "getLogPrefix date clock caller =
     (case (date, clock, caller) of
        ((y, mo, d), (h, m, s), (file, line)) \<Rightarrow>
          FormatInt y @ ''-'' @ FormatInt mo @ ''-'' @ FormatInt d @ '' '' @ getTime h m s @ '' '' @
          debug_infos file line @ '' '')"

section \<open>Writing a line\<close>

record log_out =
  loStdout :: string
  loFile :: string

text \<open>The prefixes of the two sinks, which are computed one after the other, and the error of the
  write to the file.\<close>

record log_env =
  loPrefix1 :: string
  loPrefix2 :: string
  loWriteError :: "string option"

definition writeToFile :: "log_env \<Rightarrow> string \<Rightarrow> log_out \<Rightarrow> log_out go" where
  "writeToFile env t out =
     (case loWriteError env of Some e \<Rightarrow> Panic (Explicit e) | None \<Rightarrow> Ret (out\<lparr>loFile := loFile out @ t\<rparr>))"

definition print :: "string \<Rightarrow> log_out \<Rightarrow> log_out" where
  "print t out = out\<lparr>loStdout := loStdout out @ t\<rparr>"

datatype log_fun = FDEBUG | FDebug | FNet | FDev | FNetDev | FInfo | FTitle | FWarn | FError

fun log_call :: "log_fun \<Rightarrow> byte \<Rightarrow> log_env \<Rightarrow> string \<Rightarrow> log_out \<Rightarrow> log_out go" where
  "log_call FDEBUG LogLevel env a out =
     writeToFile env (loPrefix2 env @ ''DEBUG  '' @ a)
       (print (loPrefix1 env @ Red @ Bold @ ''DEBUG  '' @ a @ Reset) out)"
| "log_call FDebug LogLevel env a out =
     (if LogLevel < 1 then Ret out
      else writeToFile env (loPrefix2 env @ ''DEBUG  '' @ a)
             (print (loPrefix1 env @ Purple @ ''DEBUG  '' @ a @ Reset) out))"
| "log_call FNet LogLevel env a out =
     (if LogLevel < 1 then Ret out
      else writeToFile env (loPrefix2 env @ ''NET    '' @ a)
             (print (loPrefix1 env @ ''NET    '' @ net_color @ a @ Reset) out))"
| "log_call FDev LogLevel env a out =
     (if LogLevel < 2 then Ret out else Ret (print (loPrefix1 env @ ''DEV    '' @ Purple @ a @ Reset) out))"
| "log_call FNetDev LogLevel env a out =
     (if LogLevel < 2 then Ret out else Ret (print (loPrefix1 env @ ''NETDEV '' @ netdev_color @ a @ Reset) out))"
| "log_call FInfo LogLevel env a out =
     writeToFile env (loPrefix2 env @ ''INFO   '' @ a) (print (loPrefix1 env @ ''INFO   '' @ Cyan @ a @ Reset) out)"
| "log_call FTitle LogLevel env a out =
     writeToFile env (''       '' @ a) (print (''       '' @ Bold @ a @ Reset) out)"
| "log_call FWarn LogLevel env a out =
     writeToFile env (loPrefix2 env @ ''WARN   '' @ a) (print (loPrefix1 env @ ''WARN   '' @ Yellow @ a @ Reset) out)"
| "log_call FError LogLevel env a out =
     writeToFile env (loPrefix2 env @ ''ERROR  '' @ a) (print (loPrefix1 env @ ''ERROR  '' @ Red @ a @ Reset) out)"

definition Assert :: "bool \<Rightarrow> unit go" where
  "Assert shouldBeTrue = (if \<not> shouldBeTrue then Panic (Explicit ''assertion failed'') else Ret ())"

text \<open>\<open>Fatal\<close> on the texts of its arguments: how the process ends, and what has been written.\<close>

definition log_Fatal :: "log_env \<Rightarrow> string list \<Rightarrow> string \<Rightarrow> log_out \<Rightarrow> go_panic \<times> log_out" where
  "log_Fatal env vals a out =
     (let out = print (loPrefix1 env @ ''FATAL  '' @ Red) out;
          out = fold (\<lambda>v. print (v @ '' '')) vals out
      in case writeToFile env (loPrefix2 env @ ''FATAL  '' @ a) out of
           Panic p \<Rightarrow> (p, out)
         | Ret out \<Rightarrow> (Fatal a, print Reset out))"

section \<open>The terminal's view\<close>

text \<open>What a terminal shows: the text without the colour sequences.\<close>

function shown :: "string \<Rightarrow> string" where
  "shown [] = []"
| "shown (c # cs) = (if c = esc then shown (tl (dropWhile (\<lambda>x. x \<noteq> CHR ''m'') cs)) else c # shown cs)"
  by pat_completeness auto
termination
proof (relation "measure length")
  fix c :: char and cs
  have "length (dropWhile (\<lambda>x. x \<noteq> CHR ''m'') cs) \<le> length cs" by (rule length_dropWhile_le)
  then show "(tl (dropWhile (\<lambda>x. x \<noteq> CHR ''m'') cs), c # cs) \<in> measure length" by simp
qed simp_all

lemma shown_plain: "esc \<notin> set s \<Longrightarrow> shown (s @ t) = s @ shown t"
  by (induction s) auto

lemma shown_color [simp]:
  "shown (Reset @ t) = shown t" "shown (Red @ t) = shown t" "shown (Yellow @ t) = shown t" "shown (Purple @ t) = shown t"
  "shown (Cyan @ t) = shown t" "shown (Bold @ t) = shown t" "shown (net_color @ t) = shown t" "shown (netdev_color @ t) = shown t"
  by (simp_all add: Reset_def Red_def Yellow_def Purple_def Cyan_def Bold_def net_color_def netdev_color_def)

lemma shown_Reset [simp]: "shown Reset = []"
  using shown_color(1) [of "[]"] by simp

section \<open>Lines\<close>

definition to_file :: "log_fun \<Rightarrow> bool" where
  "to_file f = (f \<noteq> FDev \<and> f \<noteq> FNetDev)"

definition threshold :: "log_fun \<Rightarrow> byte" where
  "threshold f = (case f of FDebug \<Rightarrow> 1 | FNet \<Rightarrow> 1 | FDev \<Rightarrow> 2 | FNetDev \<Rightarrow> 2 | _ \<Rightarrow> 0)"

text \<open>The file gets the line that the terminal shows.\<close>

theorem log_file_matches_terminal:
  assumes "esc \<notin> set (loPrefix1 env)" "esc \<notin> set a" "loPrefix2 env = loPrefix1 env" "loWriteError env = None"
    and "esc \<notin> set (loStdout out)"
  shows "\<exists>out' line. log_call f LogLevel env a out = Ret out' \<and>
    shown (loStdout out') = loStdout out @ line \<and>
    loFile out' = (if to_file f then loFile out @ line else loFile out) \<and>
    (line = [] \<longleftrightarrow> LogLevel < threshold f)"
proof -
  note s = shown_plain [OF assms(5)] shown_plain [OF assms(1)] shown_plain [OF assms(2)]
  have n: "shown (loStdout out) = loStdout out" using shown_plain [OF assms(5), of "[]"] by simp
  show ?thesis
    using assms(3,4)
    by (cases f) (auto simp: writeToFile_def print_def to_file_def threshold_def s n)
qed

text \<open>A full disk stops the program at the next line it logs.\<close>

lemma log_write_error_panics:
  assumes "loWriteError env = Some e" "to_file f" "threshold f \<le> LogLevel"
  shows "log_call f LogLevel env a out = Panic (Explicit e)"
  using assms by (cases f) (auto simp: writeToFile_def to_file_def threshold_def)

section \<open>Times\<close>

lemma format_nat_short: "n < 10 \<Longrightarrow> format_nat n = [char_of (48 + n)]"
  by (simp add: format_nat.simps [of n])

lemma format_nat_two: "10 \<le> n \<Longrightarrow> n < 100 \<Longrightarrow> format_nat n = [char_of (48 + n div 10), char_of (48 + n mod 10)]"
  by (simp add: format_nat.simps [of n] format_nat_short)

lemma two_digits_FormatInt:
  assumes "0 \<le> n" "n < 100"
  shows "length (two_digits (FormatInt n)) = 2" "parse_digits 0 (two_digits (FormatInt n)) = Some (nat n)"
proof -
  have "length (two_digits (FormatInt n)) = 2 \<and> parse_digits 0 (two_digits (FormatInt n)) = Some (nat n)"
  proof (cases "nat n < 10")
    case True
    have "digit_val (CHR ''0'') = Some 0" by (simp add: digit_val_def)
    then show ?thesis using True assms parse_format_nat [of "nat n"]
      by (simp add: FormatInt_def two_digits_def format_nat_short)
  next
    case False
    then show ?thesis using assms parse_format_nat [of "nat n"]
      by (simp add: FormatInt_def two_digits_def format_nat_two)
  qed
  then show "length (two_digits (FormatInt n)) = 2" "parse_digits 0 (two_digits (FormatInt n)) = Some (nat n)" by auto
qed

text \<open>The time of day has a fixed width and can be read back.\<close>

theorem getTime_roundtrip:
  assumes "0 \<le> h" "h < 24" "0 \<le> m" "m < 60" "0 \<le> s" "s < 60"
  shows "length (getTime h m s) = 8 \<and> getTime h m s ! 2 = CHR '':'' \<and> getTime h m s ! 5 = CHR '':'' \<and>
    parse_digits 0 (take 2 (getTime h m s)) = Some (nat h) \<and>
    parse_digits 0 (take 2 (drop 3 (getTime h m s))) = Some (nat m) \<and>
    parse_digits 0 (drop 6 (getTime h m s)) = Some (nat s)"
proof -
  obtain h1 h2 where h: "two_digits (FormatInt h) = [h1, h2]" "parse_digits 0 [h1, h2] = Some (nat h)"
    using two_digits_FormatInt [of h] assms(1,2) by (auto simp: length_Suc_conv numeral_2_eq_2)
  obtain m1 m2 where m: "two_digits (FormatInt m) = [m1, m2]" "parse_digits 0 [m1, m2] = Some (nat m)"
    using two_digits_FormatInt [of m] assms(3,4) by (auto simp: length_Suc_conv numeral_2_eq_2)
  obtain s1 s2 where s: "two_digits (FormatInt s) = [s1, s2]" "parse_digits 0 [s1, s2] = Some (nat s)"
    using two_digits_FormatInt [of s] assms(5,6) by (auto simp: length_Suc_conv numeral_2_eq_2)
  show ?thesis using h(2) m(2) s(2) by (simp add: getTime_def h(1) m(1) s(1))
qed

section \<open>Numbers\<close>

lemma pad_to_eq: "pad_to n s = s @ replicate (n - length s) CHR '' ''"
proof (induction n s rule: pad_to.induct)
  case (1 n s)
  show ?case
  proof (cases "length s < n")
    case True
    then have "n - length s = Suc (n - length (s @ '' ''))" by simp
    then show ?thesis using 1 True by (subst pad_to.simps) simp
  qed (subst pad_to.simps, simp)
qed

lemma debug_infos_width: "17 \<le> length (debug_infos file line)"
  by (simp add: debug_infos_def pad_to_eq)

lemma Uint64ToString_small: "unat n < 2 ^ 63 \<Longrightarrow> Uint64ToString n = FormatUint n"
  by (simp add: Uint64ToString_def FormatInt_def FormatUint_def sint_u64)

text \<open>An amount from \<open>2 ^ 63\<close> on is printed as a negative number.\<close>

lemma Uint64ToString_large:
  assumes "2 ^ 63 \<le> unat n"
  shows "Uint64ToString n = CHR ''-'' # format_nat (2 ^ 64 - unat n)"
proof -
  have "unat n < 2 ^ 64" using unsigned_less [of n, where 'a = nat] by simp
  then have "sint n < 0" "nat (- sint n) = 2 ^ 64 - unat n" using assms by (simp_all add: sint_u64)
  then show ?thesis by (simp add: Uint64ToString_def FormatInt_def)
qed

section \<open>Witnesses\<close>

definition sample_log_env :: log_env where
  "sample_log_env = \<lparr>loPrefix1 = ''12:00:00 '', loPrefix2 = ''12:00:00 '', loWriteError = None\<rparr>"

lemma log_file_matches_terminal_witness:
  "\<exists>out' line. log_call FWarn 0 sample_log_env ''slow'' \<lparr>loStdout = [], loFile = []\<rparr> = Ret out' \<and>
     shown (loStdout out') = line \<and> loFile out' = line \<and> line \<noteq> []"
  using log_file_matches_terminal [of sample_log_env "''slow''" "\<lparr>loStdout = [], loFile = []\<rparr>" FWarn 0]
  by (auto simp: sample_log_env_def to_file_def threshold_def)

lemma getTime_roundtrip_witness:
  "length (getTime 7 5 42) = 8 \<and> parse_digits 0 (take 2 (getTime 7 5 42)) = Some 7"
  using getTime_roundtrip [of 7 5 42] by simp

end
