(* ===== verification/Utilities.thy ===== *)
theory Utilities
  imports Serializer Logger
begin

text \<open>
  The random numbers, the JSON dump and the clock of \<^verbatim>\<open>src/util/util.go\<close>, and \<open>GetCaller\<close> of
  \<^verbatim>\<open>src/serializer/serializer.go\<close>. \<open>rd n\<close> is what \<open>rand.Read\<close> fills a slice of \<open>n\<close> bytes with; \<open>None\<close> is
  its error, which the code ignores.
\<close>

section \<open>Random numbers\<close>

definition RandomBytes :: "(nat \<Rightarrow> byte list option) \<Rightarrow> nat \<Rightarrow> byte list" where
  "RandomBytes rd n = (case rd n of None \<Rightarrow> replicate n 0 | Some bs \<Rightarrow> bs)"

definition RandomUint64 :: "(nat \<Rightarrow> byte list option) \<Rightarrow> u64" where
  "RandomUint64 rd = le_value (RandomBytes rd 8)"

section \<open>Texts\<close>

text \<open>\<open>strings.ReplaceAll\<close> for a non-empty text to replace.\<close>

fun strings_ReplaceAll :: "string \<Rightarrow> string \<Rightarrow> string \<Rightarrow> string" where
  "strings_ReplaceAll old new [] = []"
| "strings_ReplaceAll old new (c # cs) =
     (if old \<noteq> [] \<and> take (length old) (c # cs) = old
      then new @ strings_ReplaceAll old new (drop (length old - 1) cs)
      else c # strings_ReplaceAll old new cs)"

definition DumpJson :: "('a \<Rightarrow> string + string) \<Rightarrow> 'a \<Rightarrow> string go" where
  "DumpJson marshal a =
     (case marshal a of
        Inl e \<Rightarrow> Panic (Fatal e)
      | Inr d \<Rightarrow> Ret (strings_ReplaceAll ''},{'' (''},'' @ [CHR 0x0A] @ ''{'') d))"

definition util_Time :: "int \<Rightarrow> u64" where
  "util_Time now = of_int now"

definition GetCaller :: "string \<times> int \<Rightarrow> string" where
  "GetCaller c = (case c of (file, line) \<Rightarrow> last (strings_Split file ''/'') @ '':'' @ FormatInt line)"

section \<open>Lemmas\<close>

text \<open>Every number can be drawn, and a failing source of randomness draws 0.\<close>

lemma RandomUint64_draws: "RandomUint64 (\<lambda>_. Some (le_bytes 8 n)) = n"
  by (simp add: RandomUint64_def RandomBytes_def le_value_le_bytes)

lemma RandomUint64_fails: "RandomUint64 (\<lambda>_. None) = 0"
  by (simp add: RandomUint64_def RandomBytes_def eval_nat_numeral)

text \<open>A dump differs from the JSON in its line breaks only.\<close>

lemma filter_ReplaceAll:
  assumes "filter P new = filter P old"
  shows "filter P (strings_ReplaceAll old new s) = filter P s"
  using assms
proof (induction old new s rule: strings_ReplaceAll.induct)
  case (2 old new c cs)
  show ?case
  proof (cases "old \<noteq> [] \<and> take (length old) (c # cs) = old")
    case True
    then obtain o' os where o: "old = o' # os" by (cases old) auto
    with True have "c # cs = old @ drop (length old - 1) cs" by (metis append_take_drop_id diff_Suc_1 drop_Suc_Cons length_Cons)
    then have "filter P (c # cs) = filter P old @ filter P (drop (length old - 1) cs)" by (metis filter_append)
    then show ?thesis using True 2 by simp
  qed (use 2 in auto)
qed simp

lemma DumpJson_breaks_lines:
  assumes "DumpJson marshal a = Ret d" "marshal a = Inr j"
  shows "filter (\<lambda>c. c \<noteq> CHR 0x0A) d = filter (\<lambda>c. c \<noteq> CHR 0x0A) j"
  using assms by (auto simp: DumpJson_def intro!: filter_ReplaceAll)

end
