(* ===== verification/Spec2Isabelle.thy ===== *)
theory Spec2Isabelle
  imports Ledger_Models Session Slave_Client Startup Withdraw_Overlap P2pool_Session P2pool_Reader Bolt_Tools Utilities
begin

text \<open>
  A mining pool for CryptoNote coins (\<^verbatim>\<open>src/README.md\<close>): the \<^bold>\<open>slave\<close> (\<^verbatim>\<open>src/cmd/slave\<close>,
  \<^verbatim>\<open>src/slave\<close>, \<^verbatim>\<open>src/stratum\<close>) talks to miners, hands out jobs, checks shares and reports them over
  an encrypted link to the \<^bold>\<open>master\<close> (\<^verbatim>\<open>src/cmd/master\<close>), which keeps shares, blocks, balances and
  payments in an SQLite ledger (\<^verbatim>\<open>src/pkg/ledger\<close>), pays the miners and answers a statistics API.

  \<^bold>\<open>Theories and the code they model.\<close> Each theory has the definitions first, in the order of the code,
  then its lemmas; names are the source's wherever HOL leaves them free.

  \<^item> \<open>Pool_Prelude\<close>: Go's conventions. \<open>'a go\<close> is a value or a panic, \<open>go_index\<close>, \<open>go_update\<close> and
    slices panic out of range; \<open>run\<close> folds events; the locales \<open>step_invariant\<close> and \<open>refinement\<close>
    state what the components interpret. \<open>Go_Text\<close> (\<open>strings\<close>, \<open>strconv\<close>, \<open>hex\<close>), \<open>Go_Float\<close>
    (IEEE binary64 and binary32 as rationals with infinities and NaN; the rounding is a locale
    interpreted twice) and \<open>Go_Time\<close> (durations) model what the code uses of the standard library.
  \<^item> \<open>Serializer\<close>: \<^verbatim>\<open>src/serializer\<close>. \<open>Legacy_Database\<close>: the formats of \<^verbatim>\<open>src/database\<close>.
    \<open>Bolt_Tools\<close>: the tools of \<^verbatim>\<open>src/tools\<close> on that store. \<open>Logger\<close>: \<^verbatim>\<open>src/logger\<close>, the lines and
    their two sinks. \<open>Utilities\<close>: what other theories leave of \<^verbatim>\<open>src/util\<close>.
  \<^item> \<open>Address\<close>: \<^verbatim>\<open>src/address\<close>, base58 and \<open>IsAddressValid\<close>; \<open>keccak\<close> is a parameter.
  \<^item> \<open>Template\<close>: \<^verbatim>\<open>src/template\<close>, targets and difficulties.
  \<^item> \<open>Slave_Config\<close>: the fields of \<^verbatim>\<open>src/config\<close> and \<^verbatim>\<open>src/util\<close> that the slave reads.
  \<^item> \<open>Slave_Link\<close> and \<open>Slave_Client\<close>: the share cache, the packets, the sealed frames and both receiving
    loops (\<^verbatim>\<open>src/slave\<close>, \<^verbatim>\<open>src/cmd/master/handler.go\<close>, \<^verbatim>\<open>src/cmd/master/crypto.go\<close>).
  \<^item> \<open>Stratum\<close> and \<open>Requests\<close>: \<^verbatim>\<open>src/stratum\<close>, the connections, \<open>Kick\<close>, sending, accepting, and reading
    requests from the segments of a socket.
  \<^item> \<open>Jobs\<close>: \<^verbatim>\<open>src/cmd/slave/slave.go\<close> and \<^verbatim>\<open>src/cmd/slave/nicehash.go\<close>, job distribution.
    \<open>Login\<close>, \<open>Submit\<close>, \<open>Session\<close>: \<^verbatim>\<open>src/cmd/slave/conn.go\<close>, the login, one submitted share, and the
    session from the ban check to the deferred functions. \<open>P2pool\<close>: the steps of the same with p2pool,
    and \<^verbatim>\<open>src/p2pool\<close>; \<open>P2pool_Reader\<close>: its buffered reader; \<open>P2pool_Session\<close>: the four goroutines of
    such a session as a step relation, with the channels and the lock on which they meet.
  \<^item> \<open>Penalty\<close>, \<open>Daemon_Pool\<close>, \<open>Verify_Queue\<close>: the files of these names in \<^verbatim>\<open>src/cmd/slave\<close>.
  \<^item> \<open>Ledger\<close> and \<open>Ledger_Models\<close>: \<^verbatim>\<open>src/pkg/ledger\<close>. \<open>LedgerDB\<close> is the record of the tables; a
    statement returns a result (\<open>Ok\<close>, \<open>Err\<close>, or \<open>Blocked\<close> when the one connection is held by an open
    transaction) and the new tables.
  \<^item> \<open>Rewards\<close>, \<open>Pplns\<close>, \<open>Master\<close>, \<open>Updater\<close>, \<open>Withdraw\<close>, \<open>Stats\<close>, \<open>Api\<close>: \<^verbatim>\<open>src/cmd/master\<close>, that is the
    arithmetic of rewards, the PPLNS window (\<^verbatim>\<open>pplns.go\<close>, \<^verbatim>\<open>pplns_diff.go\<close>), shares and blocks
    (\<^verbatim>\<open>master.go\<close>, \<^verbatim>\<open>handler.go\<close>, \<^verbatim>\<open>blockfound.go\<close>), incoming transfers (\<^verbatim>\<open>updater.go\<close>), payments
    (\<^verbatim>\<open>withdraw.go\<close>), the charts (\<^verbatim>\<open>stats.go\<close>, \<^verbatim>\<open>stats_collector.go\<close>) and the API (\<^verbatim>\<open>api.go\<close>).
    \<open>Withdraw_Overlap\<close>: two runs of \<open>Withdraw\<close> side by side.
  \<^item> \<open>Startup\<close>: how both programs start (\<^verbatim>\<open>src/config\<close>, both \<open>main\<close> functions, the listeners and the
    certificate of \<^verbatim>\<open>src/stratum\<close>, the routes of the API), and the master from its start on.
  \<^item> This theory: the way of a share from a slave's cache to a row of the ledger.

  \<^bold>\<open>How the parts interact.\<close> A miner's bytes become requests (\<open>ReadJSON\<close>), a login (\<open>login_phase\<close>) and
  shares (\<open>handle_submit\<close>), which touch the penalty box, the verification queue and the share cache.
  The cache is flushed as packets (\<open>flush_cache\<close>, \<open>sendToConn\<close>), the master decodes them
  (\<open>HandleSlave\<close>, \<open>OnMessage\<close>) and writes the ledger (\<open>OnShareFound\<close>, \<open>BlockFound\<close>). \<open>Updater\<close> and
  \<open>Withdraw\<close> turn transfers and rewards into payments; \<open>Stats\<close> and \<open>Api\<close> read the same tables. \<open>master_main\<close>
  and \<open>slave_main\<close> make the states from which all this starts; \<open>stats_tick\<close> is the slave's report that
  \<open>OnMessage\<close> keeps. With p2pool, jobs come from \<open>dispatchJobs\<close> by way of \<open>Start\<close> to the session, shares
  go back with \<open>SubmitWork\<close>.

  \<^bold>\<open>What the lemmas show.\<close> Invariants of the tables, the penalty box, the queue and the charts, and of who
  is credited, by interpretations of \<open>step_invariant\<close> on the components' events; of the goroutines of a
  p2pool session by cases over their moves; refinement of the penalty box to a
  log of shares and of the request loop to a list of requests; round trips of the formats, frames,
  targets and addresses; conservation and bounds of rewards, fees and difficulties on words and
  floats; the behaviour on every error path, with the errors of the code stated as theorems of what
  it does (shares multiplied on flush, a ban that freezes the slave, a solved block that is refused, a
  transaction that waits for itself, payments that are sent again or twice, pipelined requests that
  are lost, a blank statistics page after a restart, p2pool sessions that hang, deadlock or crash the
  slave).

  \<^bold>\<open>Parameters.\<close> What is not under \<^verbatim>\<open>src\<close> or not determined is an argument: \<open>keccak\<close>, the sealing
  functions \<open>seal\<close> and \<open>opn\<close> (\<open>aead_ok\<close> is their contract), the answers of daemon and wallet (\<open>rpc\<close>),
  \<open>json.Marshal\<close> and \<open>json.Unmarshal\<close> (\<open>marshal\<close>, \<open>unmarshal\<close>), clocks and random bytes, the orders of
  rows (\<open>order\<close>, contract \<open>orders_by\<close>) and of map iteration (\<open>rng\<close>), the buckets of bbolt (\<open>bolt\<close>,
  contract \<open>bolt_ok\<close>), the steps of making a certificate (\<open>cert_env\<close>), and the result of converting a
  float that does not fit an integer (\<open>conv\<close>, \<open>convi\<close>).

  \<^bold>\<open>Bounds.\<close> Machine integers are words of their width. Hypotheses such as \<open>2 ^ 50\<close>, \<open>2 ^ 53\<close> and
  \<open>2 ^ 63\<close> are the ranges in which float arithmetic is exact enough and in which SQLite stores a
  \<open>uint64\<close>; real amounts are below them, and the theorems about larger values say what breaks. No
  definition uses fuel: loops over lists and streams terminate by measures, endless loops are
  modelled by their rounds, with the sequence of rounds or events as an argument.

  \<^bold>\<open>Not modelled.\<close> Sockets, TLS and the HTTP server, the text of JSON, the contents of log messages, the
  goroutines' scheduling beyond the events and interleavings stated in each theory, the sleeps, and
  SQLite beyond what the statements need. Of \<^verbatim>\<open>src/pkg/ledger\<close> opening and closing, and the record
  types that no code uses; the type in \<^verbatim>\<open>src/cmd/master/types.go\<close>, which no code uses either.
\<close>

section \<open>From a slave's cache to the ledger\<close>

text \<open>The cached shares of one pair of wallet and worker, and the row that each of them becomes.\<close>

definition pair_events :: "share_event list \<Rightarrow> string \<times> string \<Rightarrow> share_event list" where
  "pair_events es p = filter (\<lambda>e. (fst e, fst (snd e)) = p) es"

definition pair_credit :: "share_event list \<Rightarrow> string \<times> string \<Rightarrow> string \<times> string \<times> u64" where
  "pair_credit es p = (case p of (w, wk) \<Rightarrow> (w, wk, sum_list (map event_diff (pair_events es p))))"

text \<open>The rows the report for a key of the cache becomes.\<close>

definition key_rows ::
  "(byte list \<Rightarrow> byte list) \<Rightarrow> addr_config \<Rightarrow> MasterConfig \<Rightarrow> share_event list \<Rightarrow> string \<Rightarrow> (string \<times> string \<times> u64) list" where
  "key_rows keccak acfg cfg es k =
     (case reported es k of (w, wk, d, n) \<Rightarrow> replicate n (credit_addr keccak acfg cfg w, wk, d))"

lemma key_events_count:
  assumes "distinct keys" "set keys = event_key ` set es"
  shows "(\<Sum>k \<leftarrow> keys. length (key_events es k)) = length es"
  using sum_list_group [OF assms(1), of es event_key "\<lambda>_. 1"] assms(2)
  by (force simp: key_events_def sum_list_triv)

lemma key_total:
  assumes "(\<Sum>e \<leftarrow> es. unat (event_diff e)) < 9223372036854775808"
  shows "unat (sum_list (map event_diff (key_events es p))) = (\<Sum>e \<leftarrow> key_events es p. unat (event_diff e))"
    and "bindable (sum_list (map event_diff (key_events es p)))"
proof -
  have b: "(\<Sum>e \<leftarrow> key_events es p. unat (event_diff e)) < 9223372036854775808"
    using assms sum_filter_le le_less_trans unfolding key_events_def by blast
  then show u: "unat (sum_list (map event_diff (key_events es p))) = (\<Sum>e \<leftarrow> key_events es p. unat (event_diff e))"
    using unat_sum_list_u64 [of "map event_diff (key_events es p)"] by (simp add: comp_def)
  show "bindable (sum_list (map event_diff (key_events es p)))" using b by (simp add: bindable_unat u)
qed

lemma key_rows_pair:
  assumes "\<forall>e \<in> set es. colon_free e" "e \<in> set es" "IsAddressValid keccak acfg (fst e) = Ret True"
  shows "key_rows keccak acfg cfg es (event_key e) =
    replicate (length (pair_events es (fst e, fst (snd e)))) (pair_credit es (fst e, fst (snd e)))"
  unfolding key_rows_def reported_pair [OF assms(1,2)]
  by (simp add: credit_addr_def assms(3) pair_credit_def pair_events_def)

text \<open>
  C2: From the cache of a slave to the ledger of the master. After any sequence of shares, one
  flush over an established connection gives, for every key \<open>wallet:worker\<close> of the cache, as many
  rows as there were shares under the key, and every one of these rows carries the sum of the
  difficulties of all of them: \<open>n\<close> shares of difficulty \<open>d\<close> are credited with \<open>n * n * d\<close>. The rows
  are appended to the shares table if its column for the block height accepts NULL; on the tables
  of \<^verbatim>\<open>schema.sql\<close>, where it does not, no row is added, and the master reports no error. If no worker
  name has a colon and the wallets are valid, the rows of a pair of wallet and worker are those of
  the pair's own shares; otherwise a row names the wallet cut from the key if that is valid (so
  never the right one for a worker name with a colon), and else the pool's fee address.
\<close>
theorem flushed_shares_credited:
  assumes "aead_ok seal opn"
    and "\<forall>(n1, n2) \<in> set nonces. length n1 = NonceSize \<and> length n2 = NonceSize" "length nonces = length keys"
    and "\<forall>e \<in> set es. length (fst e) + length (fst (snd e)) < 32000"
    and "range_order (run cache_step Map.empty es) keys"
    and "length es < 4294967296" "(\<Sum>e \<leftarrow> es. unat (event_diff e)) < 9223372036854775808"
    and "takes_shares (ledger st) (length es)"
    and "length (AddrPrefix acfg) \<le> 69" "length (SubaddrPrefix acfg) \<le> 69"
  shows "\<exists>l. HandleSlave keccak acfg cfg opn clock cid
        (flush_stream seal nonces (fst (flush_cache True (run cache_step Map.empty es) keys))) st
      = Ret (Ok (), st\<lparr>ledger := l, numConns := (numConns st)(cid := None)\<rparr>) \<and>
    map row_credit (shares l) = map row_credit (shares (ledger st)) @
      new_rows (ledger st) (concat (map (key_rows keccak acfg cfg es) keys)) \<and>
    length (concat (map (key_rows keccak acfg cfg es) keys)) = length es \<and>
    ((\<forall>e \<in> set es. colon_free e \<and> IsAddressValid keccak acfg (fst e) = Ret True) \<longrightarrow>
      (\<forall>e \<in> set es. key_rows keccak acfg cfg es (event_key e) =
        replicate (length (pair_events es (fst e, fst (snd e)))) (pair_credit es (fst e, fst (snd e)))))"
proof -
  let ?msgs = "fst (flush_cache True (run cache_step Map.empty es) keys)"
  let ?call = "\<lambda>k. case reported es k of (w, wk, d, n) \<Rightarrow> (w, wk, d, of_nat n :: u32)"
  have short: "\<forall>e \<in> set es. event_short e" using assms(4) by (fastforce simp: event_short_def)
  have keys: "distinct keys" "set keys = event_key ` set es"
    using assms(5) by (simp_all add: range_order_def dom_cache_run)
  have calls: "map (OnMessage_call (cfgUseP2Pool cfg)) ?msgs = map (\<lambda>(w, wk, d, n). Ret (CallShareFound w d n wk)) (map ?call keys)"
    using flush_calls [OF short assms(5), of "cfgUseP2Pool cfg"] by (simp add: comp_def case_prod_beta)
  have "length ?msgs = length keys" by (simp add: flush_cache_def)
  moreover have "\<forall>m \<in> set ?msgs. length m < 65536" using flush_packets_short [OF assms(4,5)] by blast
  ultimately have loop: "HandleSlave_loop opn (flush_stream seal nonces ?msgs) = (?msgs, StreamEnded)"
    using assms(1,2,3) by (intro flush_stream_read) auto
  have n: "unat (of_nat (length (key_events es k)) :: u32) = length (key_events es k)" for k
  proof -
    have "length (key_events es k) \<le> length es" by (simp add: key_events_def)
    then have "length (key_events es k) < 4294967296" using assms(6) by linarith
    then show ?thesis by (simp add: unat_of_nat)
  qed
  have "\<forall>(w, wk, d, n) \<in> set (map ?call keys). (\<exists>v. IsAddressValid keccak acfg w = Ret v) \<and> bindable d"
    using key_total(2) [OF assms(7)] IsAddressValid_returns [OF assms(9,10)] by (auto simp: reported_def)
  moreover have "takes_shares (ledger st) (\<Sum>(w, wk, d, n) \<leftarrow> map ?call keys. unat n)"
    using assms(8) key_events_count [OF keys] by (simp add: comp_def n reported_def)
  ultimately obtain l where "handle_messages keccak acfg cfg clock cid 0 ?msgs st = Ret (Ok (), st\<lparr>ledger := l\<rparr>)"
    "map row_credit (shares l) = map row_credit (shares (ledger st)) @ new_rows (ledger st)
       (concat (map (\<lambda>(w, wk, d, n). replicate (unat n) (credit_addr keccak acfg cfg w, wk, d)) (map ?call keys)))"
    using handle_messages_shares [OF calls, of keccak acfg st clock cid 0] by blast
  moreover have rows: "map (\<lambda>(w, wk, d, n). replicate (unat n) (credit_addr keccak acfg cfg w, wk, d)) (map ?call keys)
      = map (key_rows keccak acfg cfg es) keys"
    by (simp add: key_rows_def reported_def n)
  moreover have "length (concat (map (key_rows keccak acfg cfg es) keys)) = length es"
    using key_events_count [OF keys] by (simp add: length_concat comp_def key_rows_def reported_def)
  ultimately show ?thesis using loop key_rows_pair unfolding rows
    by (intro exI [of _ l]) (simp add: HandleSlave_def)
qed

definition sample_master :: MasterState where
  "sample_master = \<lparr>ledger = NewLedgerDB schema_full, pplns = InitPPLNS sample_cfg, numConns = Map.empty, scheduled = []\<rparr>"

lemma flushed_shares_credited_witness:
  "\<exists>l. HandleSlave sample_keccak sample_acfg sample_cfg (\<lambda>n ct. Some (take (length ct - 16) ct)) (\<lambda>_. 100) 1
      (flush_stream (\<lambda>n m. m @ replicate 16 0) [(replicate 24 1, replicate 24 2)]
        (fst (flush_cache True (run cache_step Map.empty [(sample_address, ''a'', 5), (sample_address, ''a'', 7)])
          [cache_key sample_address ''a'']))) sample_master
      = Ret (Ok (), sample_master\<lparr>ledger := l\<rparr>) \<and>
    map row_credit (shares l) = [(sample_address, ''a'', 12), (sample_address, ''a'', 12)]"
proof -
  let ?es = "[(sample_address, ''a'', 5), (sample_address, ''a'', 7)] :: share_event list"
  have a: "aead_ok (\<lambda>n m. m @ replicate 16 0) (\<lambda>n ct. Some (take (length ct - 16) ct))"
    by (simp add: aead_ok_def)
  have len: "length sample_address < 30000" "sample_address \<noteq> []"
    using sample_address_chars(4) sample_address_short by auto
  then have ev: "\<forall>e \<in> set ?es. length (fst e) + length (fst (snd e)) < 32000"
    and free: "\<forall>e \<in> set ?es. colon_free e \<and> IsAddressValid sample_keccak sample_acfg (fst e) = Ret True"
    by (simp_all add: colon_free_def sample_address_valid)
  have ro: "range_order (run cache_step Map.empty ?es) [cache_key sample_address ''a'']"
    unfolding range_order_def dom_cache_run by (simp add: event_key_def)
  have rs: "takes_shares (ledger sample_master) (length ?es)"
    by (simp add: takes_shares_def sample_master_def NewLedgerDB_def)
  have ns: "\<forall>(n1, n2) \<in> set [(replicate 24 1, replicate 24 2)]. length n1 = NonceSize \<and> length n2 = NonceSize"
    "length [(replicate 24 1 :: byte list, replicate 24 2 :: byte list)] = length [cache_key sample_address ''a'']"
    by (simp_all add: NonceSize_def)
  have ds: "length ?es < 4294967296" "(\<Sum>e \<leftarrow> ?es. unat (event_diff e)) < 9223372036854775808"
    by (simp_all add: event_diff_def)
  have pre: "length (AddrPrefix sample_acfg) \<le> 69" "length (SubaddrPrefix sample_acfg) \<le> 69"
    by (simp_all add: sample_acfg_def)
  obtain l where l: "HandleSlave sample_keccak sample_acfg sample_cfg (\<lambda>n ct. Some (take (length ct - 16) ct)) (\<lambda>_. 100) 1
      (flush_stream (\<lambda>n m. m @ replicate 16 0) [(replicate 24 1, replicate 24 2)]
        (fst (flush_cache True (run cache_step Map.empty ?es) [cache_key sample_address ''a'']))) sample_master
      = Ret (Ok (), sample_master\<lparr>ledger := l, numConns := (numConns sample_master)(1 := None)\<rparr>)"
    "map row_credit (shares l) = map row_credit (shares (ledger sample_master)) @ new_rows (ledger sample_master)
      (concat (map (key_rows sample_keccak sample_acfg sample_cfg ?es) [cache_key sample_address ''a'']))"
    and q: "\<forall>e \<in> set ?es. key_rows sample_keccak sample_acfg sample_cfg ?es (event_key e) =
        replicate (length (pair_events ?es (fst e, fst (snd e)))) (pair_credit ?es (fst e, fst (snd e)))"
    using flushed_shares_credited [OF a ns ev ro ds rs pre, of sample_keccak sample_cfg "\<lambda>_. 100" 1] free by blast
  have "key_rows sample_keccak sample_acfg sample_cfg ?es (cache_key sample_address ''a'')
      = [(sample_address, ''a'', 12), (sample_address, ''a'', 12)]"
    using bspec [OF q, of "(sample_address, ''a'', 5)"]
    by (simp add: event_key_def pair_events_def pair_credit_def event_diff_def)
  then have "map row_credit (shares l) = [(sample_address, ''a'', 12), (sample_address, ''a'', 12)]"
    unfolding l(2) by (simp add: sample_master_def NewLedgerDB_def schema_full_def new_rows_def)
  moreover have "sample_master\<lparr>ledger := l, numConns := (numConns sample_master)(1 := None)\<rparr> = sample_master\<lparr>ledger := l\<rparr>"
    by (simp add: sample_master_def)
  ultimately show ?thesis using l(1) by metis
qed

end
